(* ===== verification/Guardian_Prelude.thy ===== *)
theory Guardian_Prelude
  imports
    Main
    "HOL-Library.Word"
    "HOL-Library.Char_ord"
    "HOL-Library.List_Lexorder"
    "HOL-Library.Multiset"
    "HOL-Library.AList"
begin

text \<open>
  Shared vocabulary of the development: the machine types of the Rust sources, the
  \<^verbatim>\<open>std::cmp::Ordering\<close> type with \<^verbatim>\<open>Ord::cmp\<close>, the stable
  \<^verbatim>\<open>slice::sort_by\<close>, removal of repeated elements, and the two finite maps of
  \<^verbatim>\<open>std::collections\<close> behind one interface (locale \<open>kv_map\<close>).

  Strings are byte strings (\<^typ>\<open>char list\<close>), compared bytewise as Rust's \<^verbatim>\<open>str\<close>
  is.  A 32-byte BLAKE3 hash is a 256-bit word read big-endian: comparing two byte arrays
  lexicographically is comparing these words.
\<close>

type_synonym u8 = "8 word"
type_synonym u32 = "32 word"
type_synonym u64 = "64 word"
type_synonym hash = "256 word"
type_synonym bytes = "char list"

named_theorems cmp_simps \<open>the values of the comparison functions\<close>
named_theorems sort_facts \<open>what the stable sort keeps of its input\<close>

lemma option_eqI: "(\<And>x. a = Some x \<longleftrightarrow> b = Some x) \<Longrightarrow> a = b"
  by (cases a; cases b) auto

lemma unat_u64_less: "unat (x :: u64) < 2 ^ 64"
proof -
  have "unat x < 2 ^ LENGTH(64)" by (rule unsigned_less)
  then show ?thesis by simp
qed

subsection \<open>Results\<close>

text \<open>\<^verbatim>\<open>Result<T, E>\<close> is a sum with the error on the left; \<open>and_then\<close> is the \<^verbatim>\<open>?\<close> operator.\<close>

definition and_then :: "'e + 'a \<Rightarrow> ('a \<Rightarrow> 'e + 'b) \<Rightarrow> 'e + 'b" where
  "and_then r f = (case r of Inl e \<Rightarrow> Inl e | Inr x \<Rightarrow> f x)"

lemma and_then_simps [simp]: "and_then (Inl e) f = Inl e" "and_then (Inr x) f = f x"
  by (simp_all add: and_then_def)

lemma and_then_Inr: "and_then r f = Inr y \<longleftrightarrow> (\<exists>x. r = Inr x \<and> f x = Inr y)"
  by (cases r) simp_all

definition map_err :: "('e \<Rightarrow> 'f) \<Rightarrow> 'e + 'a \<Rightarrow> 'f + 'a" where
  "map_err f r = map_sum f (\<lambda>x. x) r"

lemma map_err_simps [simp]: "map_err f (Inl e) = Inl (f e)" "map_err f (Inr x) = Inr x"
  by (simp_all add: map_err_def)

lemma map_err_Inr [simp]: "map_err f r = Inr x \<longleftrightarrow> r = Inr x"
  by (cases r) simp_all

subsection \<open>Orderings\<close>

datatype ordering = Less | Equal | Greater

definition cmp :: "'a::linorder \<Rightarrow> 'a \<Rightarrow> ordering" where
  "cmp a b = (if a < b then Less else if a = b then Equal else Greater)"

definition then_with :: "ordering \<Rightarrow> ordering \<Rightarrow> ordering" where
  "then_with a b = (case a of Equal \<Rightarrow> b | _ \<Rightarrow> a)"

fun reverse_ordering :: "ordering \<Rightarrow> ordering" where
  "reverse_ordering Less = Greater"
| "reverse_ordering Equal = Equal"
| "reverse_ordering Greater = Less"

lemma cmp_eq_iff [cmp_simps]:
  "cmp a b = Less \<longleftrightarrow> a < b" "cmp a b = Equal \<longleftrightarrow> a = b" "cmp a b = Greater \<longleftrightarrow> b < a"
  by (auto simp: cmp_def)

lemma cmp_refl [simp]: "cmp a a = Equal"
  by (simp add: cmp_def)

lemma cmp_swap: "cmp b a = reverse_ordering (cmp a b)"
  by (auto simp: cmp_def)

lemma reverse_ordering_eq_iff [simp]:
  "reverse_ordering x = Equal \<longleftrightarrow> x = Equal" "reverse_ordering x = Less \<longleftrightarrow> x = Greater"
  "reverse_ordering x = Greater \<longleftrightarrow> x = Less"
  by (cases x; simp)+

lemma then_with_eq_iff [cmp_simps]:
  "then_with x y = Less \<longleftrightarrow> x = Less \<or> x = Equal \<and> y = Less"
  "then_with x y = Equal \<longleftrightarrow> x = Equal \<and> y = Equal"
  "then_with x y = Greater \<longleftrightarrow> x = Greater \<or> x = Equal \<and> y = Greater"
  by (cases x; simp add: then_with_def)+

text \<open>The contract \<^verbatim>\<open>sort_by\<close> asks of a comparison: a total order of the elements.\<close>

definition total_cmp :: "('a \<Rightarrow> 'a \<Rightarrow> ordering) \<Rightarrow> 'a set \<Rightarrow> bool" where
  "total_cmp c A \<longleftrightarrow>
     (\<forall>x\<in>A. \<forall>y\<in>A. c y x = reverse_ordering (c x y)) \<and>
     (\<forall>x\<in>A. \<forall>y\<in>A. \<forall>z\<in>A. c x y \<noteq> Greater \<longrightarrow> c y z \<noteq> Greater \<longrightarrow> c x z \<noteq> Greater)"

lemma total_cmp_key: "(\<And>x y. x \<in> A \<Longrightarrow> y \<in> A \<Longrightarrow> c x y = cmp (k x) (k y)) \<Longrightarrow> total_cmp c A"
  unfolding total_cmp_def by (auto simp: cmp_swap [symmetric] cmp_simps)

lemma total_cmp_swapD: "total_cmp c A \<Longrightarrow> x \<in> A \<Longrightarrow> y \<in> A \<Longrightarrow> c y x = reverse_ordering (c x y)"
  unfolding total_cmp_def by blast

lemma total_cmpI:
  assumes "\<And>x y. x \<in> A \<Longrightarrow> y \<in> A \<Longrightarrow> c y x = reverse_ordering (c x y)"
    and "\<And>x y z. x \<in> A \<Longrightarrow> y \<in> A \<Longrightarrow> z \<in> A \<Longrightarrow> c x y \<noteq> Greater \<Longrightarrow> c y z \<noteq> Greater \<Longrightarrow>
           c x z \<noteq> Greater"
  shows "total_cmp c A"
  using assms unfolding total_cmp_def by blast

subsection \<open>The stable sort of slices\<close>

text \<open>
  \<^verbatim>\<open>slice::sort_by\<close> sorts a slice of at most 20 elements by insertion: each element in
  turn moves left past every neighbour it compares \<open>Less\<close> than.  The prefix sorted so far is
  kept reversed here.  For a longer slice the library documents the same result as long as the
  comparison is a total order, and an unspecified order or a panic otherwise.
\<close>

fun insert_tail :: "('a \<Rightarrow> 'a \<Rightarrow> ordering) \<Rightarrow> 'a \<Rightarrow> 'a list \<Rightarrow> 'a list" where
  "insert_tail c x [] = [x]"
| "insert_tail c x (y # ys) = (if c x y = Less then y # insert_tail c x ys else x # y # ys)"

definition sort_by :: "('a \<Rightarrow> 'a \<Rightarrow> ordering) \<Rightarrow> 'a list \<Rightarrow> 'a list" where
  "sort_by c xs = rev (fold (insert_tail c) xs [])"

lemma mset_insert_tail: "mset (insert_tail c x ys) = add_mset x (mset ys)"
  by (induction ys) auto

lemma mset_fold_insert_tail: "mset (fold (insert_tail c) xs acc) = mset xs + mset acc"
  by (induction xs arbitrary: acc) (auto simp: mset_insert_tail)

lemma mset_sort_by [simp, sort_facts]: "mset (sort_by c xs) = mset xs"
  by (simp add: sort_by_def mset_fold_insert_tail)

lemma set_sort_by [simp, sort_facts]: "set (sort_by c xs) = set xs"
  by (rule mset_eq_setD) simp

lemma length_sort_by [simp, sort_facts]: "length (sort_by c xs) = length xs"
  by (metis mset_sort_by size_mset)

lemma distinct_sort_by [simp, sort_facts]: "distinct (sort_by c xs) = distinct xs"
  by (metis mset_eq_imp_distinct_iff mset_sort_by)

lemma distinct_map_sort_by [simp, sort_facts]:
  "distinct (map f (sort_by c xs)) = distinct (map f xs)"
  by (metis mset_eq_imp_distinct_iff mset_map mset_sort_by)

lemma sort_by_Nil [simp]: "sort_by c [] = []"
  by (simp add: sort_by_def)

lemma sort_by_eq_Nil [simp]: "sort_by c xs = [] \<longleftrightarrow> xs = []"
  by (metis length_0_conv length_sort_by)

lemma insert_tail_Cons: "\<forall>y\<in>set ys. c x y \<noteq> Less \<Longrightarrow> insert_tail c x ys = x # ys"
  by (cases ys) auto

lemma fold_insert_tail_id:
  "sorted_wrt (\<lambda>a b. c b a \<noteq> Less) xs \<Longrightarrow> \<forall>x\<in>set xs. \<forall>y\<in>set acc. c x y \<noteq> Less \<Longrightarrow>
     fold (insert_tail c) xs acc = rev xs @ acc"
  by (induction xs arbitrary: acc) (auto simp: insert_tail_Cons)

lemma sort_by_id: "sorted_wrt (\<lambda>a b. c b a \<noteq> Less) xs \<Longrightarrow> sort_by c xs = xs"
  by (simp add: sort_by_def fold_insert_tail_id)

text \<open>
  The order of the result: \<open>k\<close> is any key the comparison respects, in the sense that a smaller
  key compares \<open>Less\<close> and \<open>Less\<close> is never answered against the keys.  Nothing is asked of elements
  with equal keys, so the comparison need not be a total order.
\<close>

definition respects_key :: "('a \<Rightarrow> 'k::linorder) \<Rightarrow> ('a \<Rightarrow> 'a \<Rightarrow> ordering) \<Rightarrow> 'a set \<Rightarrow> bool" where
  "respects_key k c A \<longleftrightarrow>
     (\<forall>x\<in>A. \<forall>y\<in>A. (k x < k y \<longrightarrow> c x y = Less) \<and> (c x y = Less \<longrightarrow> k x \<le> k y))"

lemma respects_keyD:
  assumes "respects_key k c A" "x \<in> A" "y \<in> A"
  shows "k x < k y \<Longrightarrow> c x y = Less" and "c x y = Less \<Longrightarrow> k x \<le> k y"
  using assms by (auto simp: respects_key_def)

lemma respects_key_subset: "respects_key k c A \<Longrightarrow> B \<subseteq> A \<Longrightarrow> respects_key k c B"
  unfolding respects_key_def by blast

lemma set_insert_tail: "set (insert_tail c x ys) = insert x (set ys)"
  by (induction ys) auto

lemma sorted_insert_tail:
  assumes "respects_key k c (insert x (set ys))" "sorted_wrt (\<lambda>a b. k b \<le> k a) ys"
  shows "sorted_wrt (\<lambda>a b. k b \<le> k a) (insert_tail c x ys)"
  using assms
proof (induction ys)
  case Nil
  then show ?case by simp
next
  case (Cons y ys)
  have sub: "respects_key k c (insert x (set ys))"
    using Cons.prems(1) by (rule respects_key_subset) auto
  show ?case
  proof (cases "c x y = Less")
    case True
    then have "k x \<le> k y"
      using Cons.prems(1) by (auto simp: respects_key_def)
    with True Cons sub show ?thesis by (auto simp: set_insert_tail)
  next
    case False
    then have "\<not> k x < k y"
      using Cons.prems(1) by (auto simp: respects_key_def)
    with False Cons.prems(2) show ?thesis by force
  qed
qed

lemma sorted_fold_insert_tail:
  assumes "respects_key k c (set xs \<union> set acc)" "sorted_wrt (\<lambda>a b. k b \<le> k a) acc"
  shows "sorted_wrt (\<lambda>a b. k b \<le> k a) (fold (insert_tail c) xs acc)"
  using assms
proof (induction xs arbitrary: acc)
  case Nil
  then show ?case by simp
next
  case (Cons x xs)
  have "respects_key k c (insert x (set acc))"
    using Cons.prems(1) by (rule respects_key_subset) auto
  then have "sorted_wrt (\<lambda>a b. k b \<le> k a) (insert_tail c x acc)"
    using Cons.prems(2) by (rule sorted_insert_tail)
  moreover have "respects_key k c (set xs \<union> set (insert_tail c x acc))"
    using Cons.prems(1) by (simp add: set_insert_tail)
  ultimately show ?case using Cons.IH by simp
qed

lemma sorted_sort_by [sort_facts]:
  "respects_key k c (set xs) \<Longrightarrow> sorted (map k (sort_by c xs))"
  using sorted_fold_insert_tail [of k c xs "[]"]
  by (simp add: sort_by_def sorted_map sorted_wrt_rev)

subsection \<open>Keeping the first element of each key\<close>

fun dedup_aux :: "('a \<Rightarrow> 'k) \<Rightarrow> 'k set \<Rightarrow> 'a list \<Rightarrow> 'a list" where
  "dedup_aux f s [] = []"
| "dedup_aux f s (x # xs) =
     (if f x \<in> s then dedup_aux f s xs else x # dedup_aux f (insert (f x) s) xs)"

definition dedup_by :: "('a \<Rightarrow> 'k) \<Rightarrow> 'a list \<Rightarrow> 'a list" where
  "dedup_by f xs = dedup_aux f {} xs"

lemma dedup_aux_keys: "f ` set (dedup_aux f s xs) = f ` set xs - s"
  by (induction xs arbitrary: s) auto

lemma distinct_dedup_aux: "distinct (map f (dedup_aux f s xs))"
proof (induction xs arbitrary: s)
  case (Cons x xs)
  have "f x \<notin> f ` set (dedup_aux f (insert (f x) s) xs)"
    by (simp add: dedup_aux_keys)
  with Cons show ?case by simp
qed simp

lemma set_dedup_aux_subset: "set (dedup_aux f s xs) \<subseteq> set xs"
  by (induction xs arbitrary: s) (auto split: if_splits)

lemma dedup_aux_id:
  "distinct (map f xs) \<Longrightarrow> f ` set xs \<inter> s = {} \<Longrightarrow> dedup_aux f s xs = xs"
  by (induction xs arbitrary: s) auto

lemma dedup_by_keys [simp]: "f ` set (dedup_by f xs) = f ` set xs"
  by (simp add: dedup_by_def dedup_aux_keys)

lemma distinct_dedup_by [simp]: "distinct (map f (dedup_by f xs))"
  by (simp add: dedup_by_def distinct_dedup_aux)

lemma set_dedup_by_subset: "set (dedup_by f xs) \<subseteq> set xs"
  by (simp add: dedup_by_def set_dedup_aux_subset)

lemma dedup_by_id: "distinct (map f xs) \<Longrightarrow> dedup_by f xs = xs"
  by (simp add: dedup_by_def dedup_aux_id)

lemma set_dedup_by: "inj_on f (set xs) \<Longrightarrow> set (dedup_by f xs) = set xs"
  using set_dedup_by_subset [of f xs] dedup_by_keys [of f xs]
  by (metis inj_on_image_eq_iff subset_refl)

lemma dedup_by_eq_Nil [simp]: "dedup_by f xs = [] \<longleftrightarrow> xs = []"
  by (metis dedup_by_keys image_is_empty set_empty)

subsection \<open>Positions\<close>

text \<open>\<^verbatim>\<open>Iterator::position\<close>, and \<^verbatim>\<open>Vec::remove\<close> at a position.\<close>

primrec position :: "('a \<Rightarrow> bool) \<Rightarrow> 'a list \<Rightarrow> nat option" where
  "position P [] = None"
| "position P (x # xs) = (if P x then Some 0 else map_option Suc (position P xs))"

definition remove_at :: "nat \<Rightarrow> 'a list \<Rightarrow> 'a list" where
  "remove_at i xs = take i xs @ drop (Suc i) xs"

lemma position_find:
  "find P xs = (case position P xs of Some n \<Rightarrow> Some (xs ! n) | None \<Rightarrow> None)"
  by (induction xs) (simp_all split: option.splits)

lemma position_less: "position P xs = Some n \<Longrightarrow> n < length xs"
  by (induction xs arbitrary: n) (auto split: if_splits)

lemma position_nth: "position P xs = Some n \<Longrightarrow> P (xs ! n)"
  by (induction xs arbitrary: n) (auto split: if_splits)

lemma position_None: "position P xs = None \<longleftrightarrow> (\<forall>x\<in>set xs. \<not> P x)"
  by (induction xs) auto

subsection \<open>Finite maps\<close>

text \<open>
  A \<^verbatim>\<open>BTreeMap\<close> is an association list in increasing key order, a \<^verbatim>\<open>HashMap\<close> an
  association list with distinct keys whose order means nothing (\<open>AList.update\<close>,
  \<open>AList.delete\<close>); \<open>map_of\<close> reads both.  The laws clients use are those of the locale
  \<open>kv_map\<close>, which both representations satisfy.
\<close>

type_synonym ('k, 'v) btree_map = "('k \<times> 'v) list"
type_synonym ('k, 'v) hash_map = "('k \<times> 'v) list"

fun btree_insert :: "'k::linorder \<Rightarrow> 'v \<Rightarrow> ('k, 'v) btree_map \<Rightarrow> ('k, 'v) btree_map" where
  "btree_insert k v [] = [(k, v)]"
| "btree_insert k v ((k', v') # m) =
     (if k < k' then (k, v) # (k', v') # m
      else if k = k' then (k, v) # m
      else (k', v') # btree_insert k v m)"

definition btree_wf :: "('k::linorder, 'v) btree_map \<Rightarrow> bool" where
  "btree_wf m \<longleftrightarrow> sorted_wrt (<) (map fst m)"

definition hash_wf :: "('k, 'v) hash_map \<Rightarrow> bool" where
  "hash_wf m \<longleftrightarrow> distinct (map fst m)"

locale kv_map =
  fixes empty :: "'m"
    and insert :: "'k \<Rightarrow> 'v \<Rightarrow> 'm \<Rightarrow> 'm"
    and get :: "'m \<Rightarrow> 'k \<Rightarrow> 'v option"
    and len :: "'m \<Rightarrow> nat"
    and invar :: "'m \<Rightarrow> bool"
  assumes get_empty: "get empty = Map.empty"
    and get_insert: "invar m \<Longrightarrow> get (insert k v m) = (get m)(k \<mapsto> v)"
    and len_card: "invar m \<Longrightarrow> len m = card (dom (get m))"
    and finite_get: "invar m \<Longrightarrow> finite (dom (get m))"
    and invar_empty: "invar empty"
    and invar_insert: "invar m \<Longrightarrow> invar (insert k v m)"
begin

lemma invar_insert_all: "invar m \<Longrightarrow> invar (fold (\<lambda>e. insert (key e) (val e)) es m)"
  by (induction es arbitrary: m) (simp_all add: invar_insert)

lemma get_insert_all_other:
  "invar m \<Longrightarrow> k \<notin> key ` set es \<Longrightarrow> get (fold (\<lambda>e. insert (key e) (val e)) es m) k = get m k"
  by (induction es arbitrary: m) (auto simp: invar_insert get_insert)

lemma get_insert_all:
  "invar m \<Longrightarrow> inj_on key (set es) \<Longrightarrow> e \<in> set es \<Longrightarrow>
     get (fold (\<lambda>e. insert (key e) (val e)) es m) (key e) = Some (val e)"
proof (induction es arbitrary: m)
  case (Cons x xs)
  show ?case
  proof (cases "e \<in> set xs")
    case True
    with Cons show ?thesis by (simp add: invar_insert)
  next
    case False
    with Cons.prems have "e = x" and "key x \<notin> key ` set xs"
      by (auto simp: inj_on_def)
    with Cons.prems show ?thesis
      by (simp add: get_insert_all_other get_insert invar_insert)
  qed
qed simp

lemma dom_insert_all:
  "invar m \<Longrightarrow> dom (get (fold (\<lambda>e. insert (key e) (val e)) es m)) = key ` set es \<union> dom (get m)"
  by (induction es arbitrary: m) (auto simp: invar_insert get_insert)

lemma get_insert_all_mem:
  "invar m \<Longrightarrow> get (fold (\<lambda>e. insert (key e) (val e)) es m) k = Some v \<Longrightarrow>
     get m k = Some v \<or> (\<exists>e\<in>set es. k = key e \<and> v = val e)"
proof (induction es arbitrary: m)
  case (Cons x xs)
  have "get (insert (key x) (val x) m) k = Some v \<or> (\<exists>e\<in>set xs. k = key e \<and> v = val e)"
    using Cons by (simp add: invar_insert)
  then show ?case using Cons.prems(1) by (auto simp: get_insert split: if_splits)
qed simp

lemma len_insert:
  "invar m \<Longrightarrow> len (insert k v m) = (if get m k = None then Suc (len m) else len m)"
  by (auto simp: len_card get_insert invar_insert finite_get insert_absorb card_insert_if)

end

lemma fst_btree_insert: "fst ` set (btree_insert k v m) = insert k (fst ` set m)"
  by (induction k v m rule: btree_insert.induct) auto

lemma map_of_btree_insert:
  "btree_wf m \<Longrightarrow> map_of (btree_insert k v m) = (map_of m)(k \<mapsto> v)"
  by (induction k v m rule: btree_insert.induct) (auto simp: btree_wf_def fun_eq_iff)

lemma btree_wf_insert: "btree_wf m \<Longrightarrow> btree_wf (btree_insert k v m)"
proof (induction k v m rule: btree_insert.induct)
  case (2 k v k' v' m)
  then have tl: "btree_wf m" and lt: "\<forall>x\<in>fst ` set m. k' < x"
    by (auto simp: btree_wf_def)
  show ?case
  proof (cases "k' < k")
    case True
    with 2 tl have "btree_wf (btree_insert k v m)" by auto
    moreover have "\<forall>x\<in>fst ` set (btree_insert k v m). k' < x"
      using lt True by (simp add: fst_btree_insert)
    ultimately show ?thesis using True by (auto simp: btree_wf_def)
  next
    case False
    with 2 lt show ?thesis by (auto simp: btree_wf_def)
  qed
qed (simp add: btree_wf_def)

lemma distinct_keys_len: "distinct (map fst m) \<Longrightarrow> length m = card (dom (map_of m))"
  by (metis card_image distinct_card distinct_map dom_map_of_conv_image_fst length_map)

lemma btree_wf_distinct: "btree_wf m \<Longrightarrow> distinct (map fst m)"
  unfolding btree_wf_def by (metis strict_sorted_iff)

lemma alist_from_keys:
  "distinct (map fst m) \<Longrightarrow> map (\<lambda>k. (k, the (map_of m k))) (map fst m) = m"
proof (induction m)
  case (Cons x m)
  have "map_of (x # m) k = map_of m k" if "k \<in> set (map fst m)" for k
    using Cons.prems that by (cases x) (simp del: set_map, metis)
  then have "map (\<lambda>k. (k, the (map_of (x # m) k))) (map fst m) =
      map (\<lambda>k. (k, the (map_of m k))) (map fst m)"
    by (intro map_cong refl) simp
  with Cons show ?case by simp
qed simp

lemma btree_wf_eqI:
  assumes "btree_wf m" "btree_wf m'" "map_of m = map_of m'"
  shows "m = m'"
proof -
  have "set (map fst m) = set (map fst m')"
    using arg_cong [OF assms(3), of dom] by (simp add: dom_map_of_conv_image_fst)
  then have "map fst m = map fst m'"
    using assms(1,2) by (intro strict_sorted_equal) (simp_all add: btree_wf_def)
  with assms show ?thesis
    by (metis alist_from_keys btree_wf_distinct)
qed

interpretation btm: kv_map "[]" btree_insert map_of length btree_wf
  by unfold_locales
    (simp_all add: map_of_btree_insert btree_wf_insert distinct_keys_len btree_wf_distinct
      finite_dom_map_of, simp add: btree_wf_def)

interpretation hm: kv_map "[]" AList.update map_of length hash_wf
  by unfold_locales
    (simp_all add: update_conv' distinct_update hash_wf_def distinct_keys_len finite_dom_map_of)

lemma btree_wf_delete: "btree_wf m \<Longrightarrow> btree_wf (AList.delete k m)"
proof (induction m)
  case (Cons p m)
  have "set (AList.delete k m) \<subseteq> set m" by (auto simp: AList.delete_eq)
  with Cons show ?case by (cases p) (fastforce simp: btree_wf_def)
qed (simp add: btree_wf_def)

text \<open>\<^verbatim>\<open>collect\<close> into a sorted map, and inserting the pairs of a list into one.\<close>

definition btree_extend :: "('k::linorder \<times> 'v) list \<Rightarrow> ('k, 'v) btree_map \<Rightarrow> ('k, 'v) btree_map" where
  "btree_extend ps m = fold (\<lambda>(k, v). btree_insert k v) ps m"

lemma btree_wf_Nil [simp]: "btree_wf []"
  by (simp add: btree_wf_def)

lemma btree_wf_extend: "btree_wf m \<Longrightarrow> btree_wf (btree_extend ps m)"
  by (induction ps arbitrary: m) (auto simp: btree_extend_def btree_wf_insert)

lemma map_of_btree_extend:
  "btree_wf m \<Longrightarrow>
     map_of (btree_extend ps m) k = (case map_of (rev ps) k of Some v \<Rightarrow> Some v | None \<Rightarrow> map_of m k)"
proof (induction ps arbitrary: m)
  case (Cons p ps)
  obtain k' v where p: "p = (k', v)" by (cases p)
  with Cons show ?case
    by (simp add: btree_extend_def btree_wf_insert map_of_btree_insert map_add_def split: option.split)
qed (simp add: btree_extend_def)

lemma btree_extend_distinct:
  assumes "btree_wf m" "distinct (map fst ps)"
  shows "map_of (btree_extend ps m) k = (case map_of ps k of Some v \<Rightarrow> Some v | None \<Rightarrow> map_of m k)"
proof -
  have "map_of (rev ps) = map_of ps" using assms(2) by (intro map_of_eqI) (auto simp: rev_map [symmetric])
  with assms(1) show ?thesis by (simp add: map_of_btree_extend)
qed

lemma btree_extend_id:
  assumes "btree_wf m"
  shows "btree_extend m [] = m"
proof (rule btree_wf_eqI)
  from btree_extend_distinct [OF btree_wf_Nil btree_wf_distinct [OF assms]]
  show "map_of (btree_extend m []) = map_of m" by (auto split: option.split)
qed (simp_all add: assms btree_wf_extend)

text \<open>Changing every value in place, as \<^verbatim>\<open>values_mut\<close> does.\<close>

definition map_values :: "('v \<Rightarrow> 'w) \<Rightarrow> ('k \<times> 'v) list \<Rightarrow> ('k \<times> 'w) list" where
  "map_values f m = map (\<lambda>(k, v). (k, f v)) m"

lemma fst_map_values [simp]: "map fst (map_values f m) = map fst m"
  by (induction m) (auto simp: map_values_def)

lemma map_values_wf [simp]: "btree_wf (map_values f m) = btree_wf m" "hash_wf (map_values f m) = hash_wf m"
  by (simp_all add: btree_wf_def hash_wf_def)

lemma map_of_map_values: "map_of (map_values f m) k = map_option f (map_of m k)"
  by (induction m) (auto simp: map_values_def)

lemma map_of_delete: "map_of (AList.delete k m) k' = (if k' = k then None else map_of m k')"
  by (simp add: delete_conv)

lemma hash_wf_delete [simp]: "hash_wf m \<Longrightarrow> hash_wf (AList.delete k m)"
  by (simp add: hash_wf_def distinct_delete)

lemma hash_wf_update [simp]: "hash_wf m \<Longrightarrow> hash_wf (AList.update k v m)"
  by (rule hm.invar_insert)

lemma hash_wf_empty [simp]: "hash_wf []"
  by (rule hm.invar_empty)

end
