(* ===== verification/Lamport_Clock.thy ===== *)
theory Lamport_Clock
  imports Guardian_Prelude
begin

text \<open>
  The Lamport clock of \<^verbatim>\<open>src/log/lamport_clock.rs\<close>: an identifier and a 64-bit time.
  \<^verbatim>\<open>time += 1\<close> is the wrapping addition of the release build.  The order of the
  clocks (time first, then identifier) is made the \<open>linorder\<close> instance of the type, so that
  clocks serve as sort keys.
\<close>

datatype lamport_clock = LamportClock (clock_id: string) (clock_time: u64)

definition clock_new :: "string \<Rightarrow> lamport_clock" where
  "clock_new i = LamportClock i 0"

definition set_time :: "u64 \<Rightarrow> lamport_clock \<Rightarrow> lamport_clock" where
  "set_time t c = LamportClock (clock_id c) t"

definition tick :: "lamport_clock \<Rightarrow> lamport_clock" where
  "tick c = LamportClock (clock_id c) (clock_time c + 1)"

definition merge :: "lamport_clock \<Rightarrow> lamport_clock \<Rightarrow> lamport_clock" where
  "merge c d = (if clock_time c < clock_time d then LamportClock (clock_id c) (clock_time d) else c)"

definition clock_eq :: "lamport_clock \<Rightarrow> lamport_clock \<Rightarrow> bool" where
  "clock_eq c d \<longleftrightarrow> clock_time c = clock_time d \<and> clock_id c = clock_id d"

definition clock_cmp :: "lamport_clock \<Rightarrow> lamport_clock \<Rightarrow> ordering" where
  "clock_cmp c d = then_with (cmp (clock_time c) (clock_time d)) (cmp (clock_id c) (clock_id d))"

subsection \<open>The order of the clocks\<close>

lemma clock_eq_iff [simp]: "clock_eq c d \<longleftrightarrow> c = d"
  by (cases c; cases d) (auto simp: clock_eq_def)

lemma clock_cmp_Less_iff:
  "clock_cmp c d = Less \<longleftrightarrow>
     clock_time c < clock_time d \<or> clock_time c = clock_time d \<and> clock_id c < clock_id d"
  by (simp add: clock_cmp_def cmp_simps)

lemma clock_cmp_Equal_iff: "clock_cmp c d = Equal \<longleftrightarrow> c = d"
  by (cases c; cases d) (auto simp: clock_cmp_def cmp_simps)

instantiation lamport_clock :: linorder
begin

definition less_eq_lamport_clock :: "lamport_clock \<Rightarrow> lamport_clock \<Rightarrow> bool" where
  "c \<le> d \<longleftrightarrow> clock_cmp c d \<noteq> Greater"

definition less_lamport_clock :: "lamport_clock \<Rightarrow> lamport_clock \<Rightarrow> bool" where
  "c < d \<longleftrightarrow> clock_cmp c d = Less"

instance
proof
  fix c d e :: lamport_clock
  note defs = less_eq_lamport_clock_def less_lamport_clock_def clock_cmp_def cmp_simps
  show "c < d \<longleftrightarrow> c \<le> d \<and> \<not> d \<le> c" by (auto simp: defs)
  show "c \<le> c" by (simp add: defs)
  show "c \<le> d \<Longrightarrow> d \<le> e \<Longrightarrow> c \<le> e" by (auto simp: defs)
  show "c \<le> d \<Longrightarrow> d \<le> c \<Longrightarrow> c = d" by (cases c; cases d) (auto simp: defs)
  show "c \<le> d \<or> d \<le> c" by (auto simp: defs)
qed

end

lemma clock_cmp_cmp [cmp_simps]: "clock_cmp c d = cmp c d"
proof (cases "clock_cmp c d")
  case Less
  then show ?thesis by (simp add: cmp_def less_lamport_clock_def)
next
  case Equal
  then show ?thesis by (simp add: clock_cmp_Equal_iff)
next
  case Greater
  then have "\<not> c < d" "c \<noteq> d"
    by (auto simp: less_lamport_clock_def clock_cmp_Equal_iff [symmetric])
  with Greater show ?thesis by (simp add: cmp_def)
qed

lemma clock_less_time: "c < d \<Longrightarrow> clock_time c \<le> clock_time d"
  by (auto simp: less_lamport_clock_def clock_cmp_Less_iff)

lemma clock_le_time: "c \<le> d \<Longrightarrow> clock_time c \<le> clock_time d"
  by (metis clock_less_time order.order_iff_strict order_refl)

lemma clock_time_less: "clock_time c < clock_time d \<Longrightarrow> c < d"
  by (simp add: less_lamport_clock_def clock_cmp_Less_iff)

lemma clock_new_sel [simp]: "clock_id (clock_new i) = i" "clock_time (clock_new i) = 0"
  by (simp_all add: clock_new_def)

lemma set_time_sel [simp]: "clock_id (set_time t c) = clock_id c" "clock_time (set_time t c) = t"
  by (simp_all add: set_time_def)

subsection \<open>Properties\<close>

lemma merge_time: "clock_time (merge c d) = max (clock_time c) (clock_time d)"
  by (auto simp: merge_def max_def)

lemma merge_id: "clock_id (merge c d) = clock_id c"
  by (simp add: merge_def)

lemma less_plus_1_u64:
  fixes t :: u64
  assumes "t \<noteq> - 1"
  shows "t < t + 1"
proof -
  have "1 + t \<noteq> 0" using assms by (metis add.commute eq_neg_iff_add_eq_0)
  then have "unat (1 + t) = Suc (unat t)" by (rule unatSuc)
  then show ?thesis by (simp add: word_less_nat_alt add.commute)
qed

end
