(* ===== verification/Log_Entry.thy ===== *)
theory Log_Entry
  imports Lamport_Clock
begin

text \<open>
  Log entries, \<^verbatim>\<open>src/log/entry.rs\<close>, with the identities of \<^verbatim>\<open>src/log/identity.rs\<close>
  they carry: construction, the parent and child relations, the comparison functions the log
  sorts by, and the loop that fetches a log from the blob store.

  What the entry code calls outside the repository is the record \<open>client_env\<close>: the JSON text
  of an entry (serde_json; it shows neither the stored hash nor the identity), the two calls
  of the iroh client (a string on the left is its error), hex decoding, and the postcard
  decoder.  Nothing is assumed of these functions here.
\<close>

subsection \<open>Data\<close>

record signatures =
  sig_id :: string
  sig_pub_key :: string

record identity =
  identity_id :: string
  identity_pub_key :: string
  identity_signatures :: signatures

record entry =
  hash :: hash
  entry_id :: string
  payload :: bytes
  next_hashes :: "hash list"
  entry_v :: u32
  clock :: lamport_clock
  entry_identity :: "identity option"

datatype entry_or_hash = EntryRef entry | HashRef hash

definition entry_empty :: entry where
  "entry_empty =
     \<lparr> hash = 0, entry_id = ''0000'', payload = ''0000'', next_hashes = [], entry_v = 0,
       clock = clock_new ''0000'', entry_identity = None \<rparr>"

definition entry_new ::
  "identity \<Rightarrow> string \<Rightarrow> bytes \<Rightarrow> entry_or_hash list \<Rightarrow> lamport_clock option \<Rightarrow> entry" where
  "entry_new ident log_id data nexts ck =
     \<lparr> hash = 0, entry_id = log_id, payload = data,
       next_hashes = map (\<lambda>n. case n of EntryRef e \<Rightarrow> hash e | HashRef h \<Rightarrow> h) nexts,
       entry_v = 1,
       clock = (case ck of Some c \<Rightarrow> c | None \<Rightarrow> clock_new (identity_pub_key ident)),
       entry_identity = Some ident \<rparr>"

definition set_hash :: "hash \<Rightarrow> entry \<Rightarrow> entry" where
  "set_hash h e = e\<lparr>hash := h\<rparr>"

subsection \<open>Storing and loading\<close>

datatype entry_error = IrohError string | OtherError string

record client_env =
  json_entry :: "string \<Rightarrow> bytes \<Rightarrow> hash list \<Rightarrow> u32 \<Rightarrow> lamport_clock \<Rightarrow> bytes"
  add_bytes :: "bytes \<Rightarrow> string + string"
  hex_decode :: "string \<Rightarrow> string + u8 list"
  cat_bytes :: "hash \<Rightarrow> string + bytes"
  deserialize_entry :: "bytes \<Rightarrow> string + entry"

definition hash_entry :: "client_env \<Rightarrow> entry \<Rightarrow> entry_error + hash" where
  "hash_entry env e =
     (let json = json_entry env (entry_id e) (payload e) (next_hashes e) (entry_v e) (clock e)
      in case add_bytes env json of
           Inl err \<Rightarrow> Inl (IrohError err)
         | Inr response \<Rightarrow>
             (case hex_decode env response of
                Inl err \<Rightarrow> Inl (OtherError (''Failed to decode hash: '' @ err))
              | Inr bs \<Rightarrow>
                  if length bs \<noteq> 32 then Inl (OtherError ''Invalid hash length'')
                  else Inr (word_rcat bs)))"

text \<open>\<open>None\<close> is the panic of the \<^verbatim>\<open>unwrap\<close> when storing the entry fails.\<close>

definition entry_create ::
  "client_env \<Rightarrow> identity \<Rightarrow> string \<Rightarrow> bytes \<Rightarrow> entry_or_hash list \<Rightarrow>
   lamport_clock option \<Rightarrow> entry option" where
  "entry_create env ident log_id data nexts ck =
     (let e = entry_new ident log_id data nexts ck
      in case hash_entry env e of Inl _ \<Rightarrow> None | Inr h \<Rightarrow> Some (e\<lparr>hash := h\<rparr>))"

definition entry_from_hash :: "client_env \<Rightarrow> hash \<Rightarrow> entry_error + entry" where
  "entry_from_hash env h =
     (case cat_bytes env h of
        Inl err \<Rightarrow> Inl (IrohError err)
      | Inr bs \<Rightarrow>
          (case deserialize_entry env bs of
             Inl err \<Rightarrow> Inl (OtherError (''Deserialization error: '' @ err))
           | Inr e \<Rightarrow> Inr (e\<lparr>hash := h\<rparr>)))"

definition get_identity :: "entry \<Rightarrow> identity" where
  "get_identity e =
     (case entry_identity e of
        Some i \<Rightarrow> i
      | None \<Rightarrow> \<lparr> identity_id = ''unknown'', identity_pub_key = ''unknown'',
                  identity_signatures = \<lparr> sig_id = '''', sig_pub_key = '''' \<rparr> \<rparr>)"

definition entry_eq :: "entry \<Rightarrow> entry \<Rightarrow> bool" where
  "entry_eq a b \<longleftrightarrow> hash a = hash b"

definition entry_cmp :: "entry \<Rightarrow> entry \<Rightarrow> ordering" where
  "entry_cmp a b =
     (let diff = clock_cmp (clock a) (clock b)
      in if diff = Equal then cmp (clock_id (clock a)) (clock_id (clock b)) else diff)"

subsection \<open>Parents and children\<close>

definition is_parent :: "entry \<Rightarrow> entry \<Rightarrow> bool" where
  "is_parent e1 e2 \<longleftrightarrow> hash e1 \<in> set (next_hashes e2)"

partial_function (option) children_loop ::
  "entry list \<Rightarrow> entry option \<Rightarrow> entry list \<Rightarrow> entry list option" where
  "children_loop es parent stack =
     (case parent of
        None \<Rightarrow> Some stack
      | Some p \<Rightarrow> children_loop es (find (is_parent p) es) (stack @ [p]))"

definition find_children :: "entry \<Rightarrow> entry list \<Rightarrow> entry list option" where
  "find_children e es =
     map_option (sort_by (\<lambda>a b. cmp (clock_time (clock a)) (clock_time (clock b))))
       (children_loop es (find (is_parent e) es) [])"

subsection \<open>Comparison functions\<close>

type_synonym entry_sort_fn = "entry \<Rightarrow> entry \<Rightarrow> ordering"

definition sort_by_clocks :: "entry_sort_fn \<Rightarrow> entry_sort_fn" where
  "sort_by_clocks resolve a b =
     (let diff = clock_cmp (clock a) (clock b)
      in if diff = Equal then resolve a b else diff)"

definition sort_by_clock_ids :: "entry_sort_fn \<Rightarrow> entry_sort_fn" where
  "sort_by_clock_ids resolve a b =
     (let diff = cmp (clock_id (clock a)) (clock_id (clock b))
      in if diff = Equal then resolve a b else diff)"

definition sort_step_by_step :: "entry_sort_fn \<Rightarrow> entry_sort_fn" where
  "sort_step_by_step resolve = sort_by_clocks (sort_by_clock_ids resolve)"

definition last_write_wins :: entry_sort_fn where
  "last_write_wins = sort_step_by_step (\<lambda>_ _. Less)"

definition sort_by_entry_hash :: entry_sort_fn where
  "sort_by_entry_hash = sort_step_by_step (\<lambda>a b. cmp (hash a) (hash b))"

definition no_zeroes :: "entry_sort_fn \<Rightarrow> entry_sort_fn" where
  "no_zeroes sort_fn a b =
     (if hash a = hash b then Equal
      else let diff = sort_fn a b
           in if diff = Equal then cmp (hash a) (hash b) else diff)"

subsection \<open>Fetching entries\<close>

text \<open>
  One round fetches every pending hash, keeps the entries that arrived in request order and
  queues the parents of each of them; the futures of a round are taken to complete in request
  order.  The loop ends when a round queued nothing.
\<close>

definition fetch_round :: "client_env \<Rightarrow> hash list \<Rightarrow> entry list" where
  "fetch_round env hs =
     List.map_filter (\<lambda>h. case entry_from_hash env h of Inl _ \<Rightarrow> None | Inr e \<Rightarrow> Some e) hs"

partial_function (option) fetch_loop ::
  "client_env \<Rightarrow> hash list \<Rightarrow> entry list \<Rightarrow> entry list option" where
  "fetch_loop env hs es =
     (let new_entries = fetch_round env hs;
          hs' = concat (map next_hashes new_entries)
      in if hs' = [] then Some (es @ new_entries)
         else fetch_loop env hs' (es @ new_entries))"

definition fetch_entries :: "client_env \<Rightarrow> hash list \<Rightarrow> entry list option" where
  "fetch_entries env hs = fetch_loop env hs []"

subsection \<open>The comparison functions are orders\<close>

text \<open>Content addressing: in a set of entries the hash determines the clock.\<close>

definition hash_fixes_clock :: "entry set \<Rightarrow> bool" where
  "hash_fixes_clock A \<longleftrightarrow> (\<forall>a\<in>A. \<forall>b\<in>A. hash a = hash b \<longrightarrow> clock a = clock b)"

lemma hash_fixes_clockD: "hash_fixes_clock A \<Longrightarrow> hash a = hash b \<Longrightarrow> a \<in> A \<Longrightarrow> b \<in> A \<Longrightarrow> clock a = clock b"
  unfolding hash_fixes_clock_def by blast

lemma last_write_wins_eq:
  "last_write_wins a b = (if clock a = clock b then Less else cmp (clock a) (clock b))"
  by (auto simp: last_write_wins_def sort_step_by_step_def sort_by_clocks_def sort_by_clock_ids_def
      clock_cmp_cmp cmp_eq_iff Let_def)

lemma no_zeroes_last_write_wins_eq:
  "no_zeroes last_write_wins a b =
     (if hash a = hash b then Equal
      else if clock a = clock b then Less else cmp (clock a) (clock b))"
  by (auto simp: no_zeroes_def last_write_wins_eq cmp_eq_iff Let_def)

lemma no_zeroes_sort_by_entry_hash_eq:
  "no_zeroes sort_by_entry_hash a b =
     (if hash a = hash b then Equal
      else if clock a = clock b then cmp (hash a) (hash b) else cmp (clock a) (clock b))"
  by (auto simp: no_zeroes_def sort_by_entry_hash_def sort_step_by_step_def sort_by_clocks_def
      sort_by_clock_ids_def clock_cmp_cmp cmp_eq_iff Let_def)

lemma respects_key_no_zeroes_last_write_wins:
  "hash_fixes_clock A \<Longrightarrow> respects_key clock (no_zeroes last_write_wins) A"
  unfolding respects_key_def no_zeroes_last_write_wins_eq
  by (auto simp: cmp_eq_iff dest: hash_fixes_clockD)

lemma no_zeroes_sort_by_entry_hash_le_iff:
  "hash_fixes_clock A \<Longrightarrow> x \<in> A \<Longrightarrow> y \<in> A \<Longrightarrow>
     no_zeroes sort_by_entry_hash x y \<noteq> Greater \<longleftrightarrow>
       clock x < clock y \<or> clock x = clock y \<and> hash x \<le> hash y"
  unfolding no_zeroes_sort_by_entry_hash_eq
  by (auto simp: cmp_def dest: hash_fixes_clockD)

text \<open>
  C33: the order a log sorts its entries by when none is configured (the last-write-wins
  comparison wrapped by \<^verbatim>\<open>no_zeroes\<close>) is a total order on a set of entries exactly
  when no two different entries of the set carry the same Lamport clock: on a tie both
  directions answer Less and the hash tie-breaker is never reached.
\<close>

theorem default_order_total_iff:
  assumes "hash_fixes_clock A"
  shows "total_cmp (no_zeroes last_write_wins) A \<longleftrightarrow>
    (\<forall>a\<in>A. \<forall>b\<in>A. clock a = clock b \<longrightarrow> hash a = hash b)" (is "?total \<longleftrightarrow> ?distinct")
proof
  assume ?total
  show ?distinct
  proof (intro ballI impI, rule ccontr)
    fix a b
    assume "a \<in> A" "b \<in> A" "clock a = clock b" "hash a \<noteq> hash b"
    then have "no_zeroes last_write_wins a b = Less" "no_zeroes last_write_wins b a = Less"
      by (simp_all add: no_zeroes_last_write_wins_eq)
    moreover have "no_zeroes last_write_wins b a = reverse_ordering (no_zeroes last_write_wins a b)"
      using \<open>?total\<close> \<open>a \<in> A\<close> \<open>b \<in> A\<close> by (rule total_cmp_swapD)
    ultimately show False by simp
  qed
next
  assume ?distinct
  then have "no_zeroes last_write_wins x y = cmp (clock x) (clock y)" if "x \<in> A" "y \<in> A" for x y
    using that hash_fixes_clockD [OF assms, of x y] unfolding no_zeroes_last_write_wins_eq
    by (metis cmp_refl)
  then show ?total by (rule total_cmp_key)
qed

theorem default_order_total_iff_witness:
  "total_cmp (no_zeroes last_write_wins) {entry_empty, entry_empty\<lparr>hash := 1\<rparr>} \<longleftrightarrow> False"
proof -
  let ?A = "{entry_empty, entry_empty\<lparr>hash := 1\<rparr>}"
  have "hash_fixes_clock ?A" by (simp add: hash_fixes_clock_def entry_empty_def)
  from default_order_total_iff [OF this] show ?thesis
    by (simp add: entry_empty_def)
qed

text \<open>
  Sorting by entry hash (wrapped by \<^verbatim>\<open>no_zeroes\<close>) is a total order on every set
  of content-addressed entries, and calls two entries equal only when their hashes are equal.
\<close>

theorem hash_order_total:
  assumes "hash_fixes_clock A"
  shows "total_cmp (no_zeroes sort_by_entry_hash) A \<and>
    (\<forall>a\<in>A. \<forall>b\<in>A. no_zeroes sort_by_entry_hash a b = Equal \<longleftrightarrow> hash a = hash b)"
proof
  show "total_cmp (no_zeroes sort_by_entry_hash) A"
  proof (rule total_cmpI)
    fix x y
    assume "x \<in> A" "y \<in> A"
    show "no_zeroes sort_by_entry_hash y x = reverse_ordering (no_zeroes sort_by_entry_hash x y)"
      by (simp add: no_zeroes_sort_by_entry_hash_eq cmp_swap [of "hash y"] cmp_swap [of "clock y"])
  next
    fix x y z
    assume mem: "x \<in> A" "y \<in> A" "z \<in> A"
      and le: "no_zeroes sort_by_entry_hash x y \<noteq> Greater" "no_zeroes sort_by_entry_hash y z \<noteq> Greater"
    note le_iff = no_zeroes_sort_by_entry_hash_le_iff [OF assms]
    from le mem show "no_zeroes sort_by_entry_hash x z \<noteq> Greater"
      using le_iff [of x y] le_iff [of y z] le_iff [of x z] by auto
  qed
next
  show "\<forall>a\<in>A. \<forall>b\<in>A. no_zeroes sort_by_entry_hash a b = Equal \<longleftrightarrow> hash a = hash b"
    by (auto simp: no_zeroes_sort_by_entry_hash_eq cmp_simps)
qed

theorem hash_order_total_witness:
  "total_cmp (no_zeroes sort_by_entry_hash) {entry_empty, entry_empty\<lparr>hash := 1\<rparr>}"
proof -
  let ?A = "{entry_empty, entry_empty\<lparr>hash := 1\<rparr>}"
  have "hash_fixes_clock ?A" by (simp add: hash_fixes_clock_def entry_empty_def)
  from hash_order_total [OF this] show ?thesis by simp
qed

subsection \<open>Following children\<close>

lemma children_loop_chain:
  assumes "\<forall>a\<in>insert p (set es). \<forall>b\<in>set es. is_parent a b \<longrightarrow>
             clock_time (clock a) < clock_time (clock b)"
  shows "\<exists>cs. children_loop es (find (is_parent p) es) stack = Some (stack @ cs) \<and>
           successively is_parent (p # cs) \<and> set cs \<subseteq> set es \<and>
           find (is_parent (last (p # cs))) es = None \<and>
           sorted_wrt (<) (map (\<lambda>e. clock_time (clock e)) (p # cs))"
  using assms
proof (induction "2 ^ 64 - unat (clock_time (clock p))" arbitrary: p stack rule: less_induct)
  case less
  show ?case
  proof (cases "find (is_parent p) es")
    case None
    then have "children_loop es (find (is_parent p) es) stack = Some (stack @ [])"
      by (subst children_loop.simps) simp
    with None show ?thesis by (intro exI [of _ "[]"]) simp
  next
    case (Some c)
    then have c: "c \<in> set es" "is_parent p c"
      by (auto simp: find_Some_iff)
    with less.prems have t: "clock_time (clock p) < clock_time (clock c)" by simp
    then have "unat (clock_time (clock p)) < unat (clock_time (clock c))"
      by (simp add: word_less_nat_alt)
    moreover have "unat (clock_time (clock c)) < 2 ^ 64"
      by (rule unat_u64_less)
    ultimately have m: "2 ^ 64 - unat (clock_time (clock c)) < 2 ^ 64 - unat (clock_time (clock p))"
      by linarith
    have "\<forall>a\<in>insert c (set es). \<forall>b\<in>set es. is_parent a b \<longrightarrow>
        clock_time (clock a) < clock_time (clock b)"
      using less.prems c(1) by blast
    from less.hyps [OF m this, of "stack @ [c]"] obtain cs where
      cs: "children_loop es (find (is_parent c) es) (stack @ [c]) =
          Some ((stack @ [c]) @ cs)"
        "successively is_parent (c # cs)" "set cs \<subseteq> set es"
        "find (is_parent (last (c # cs))) es = None"
        "sorted_wrt (<) (map (\<lambda>e. clock_time (clock e)) (c # cs))"
      by blast
    then have "children_loop es (find (is_parent p) es) stack = Some (stack @ c # cs)"
      by (subst children_loop.simps) (simp add: Some)
    moreover have "successively is_parent (p # c # cs)" using cs(2) c(2) by simp
    moreover have "sorted_wrt (<) (map (\<lambda>e. clock_time (clock e)) (p # c # cs))"
      using cs(5) t by auto
    ultimately show ?thesis using cs(3,4) c(1)
      by (intro exI [of _ "c # cs"]) auto
  qed
qed

text \<open>
  When every child of an entry carries a later Lamport time than its parent,
  \<^verbatim>\<open>find_children\<close> returns: the result is one chain of entries, each the child of the one
  before it and the first of them a child of the given entry, in increasing clock order, which
  ends at an entry without a child among the entries searched.
\<close>

theorem find_children_chain:
  assumes "\<forall>a\<in>insert e (set es). \<forall>b\<in>set es. is_parent a b \<longrightarrow>
             clock_time (clock a) < clock_time (clock b)"
  shows "\<exists>cs. find_children e es = Some cs \<and> successively is_parent (e # cs) \<and> set cs \<subseteq> set es \<and>
           sorted_wrt (<) (map (\<lambda>e. clock_time (clock e)) cs) \<and>
           (\<forall>b\<in>set es. \<not> is_parent (last (e # cs)) b)"
proof -
  let ?c = "\<lambda>a b. cmp (clock_time (clock a)) (clock_time (clock b))"
  obtain cs where cs: "children_loop es (find (is_parent e) es) [] = Some cs"
      "successively is_parent (e # cs)" "set cs \<subseteq> set es" "find (is_parent (last (e # cs))) es = None"
      "sorted_wrt (<) (map (\<lambda>e. clock_time (clock e)) (e # cs))"
    using children_loop_chain [OF assms, of "[]"] by auto
  have "sorted_wrt (\<lambda>a b. clock_time (clock a) < clock_time (clock b)) cs"
    using cs(5) by (simp add: sorted_wrt_map)
  then have "sort_by ?c cs = cs"
    by (intro sort_by_id) (auto simp: cmp_simps elim!: sorted_wrt_mono_rel [rotated])
  with cs show ?thesis by (auto simp: find_children_def find_None_iff)
qed

theorem find_children_chain_witness:
  "\<exists>cs. find_children entry_empty
          [entry_empty\<lparr>hash := 1, next_hashes := [0], clock := LamportClock ''a'' 1\<rparr>,
           entry_empty\<lparr>hash := 2, next_hashes := [0], clock := LamportClock ''b'' 1\<rparr>] = Some cs \<and>
     sorted_wrt (<) (map (\<lambda>e. clock_time (clock e)) cs)"
proof -
  let ?es = "[entry_empty\<lparr>hash := 1, next_hashes := [0], clock := LamportClock ''a'' 1\<rparr>,
              entry_empty\<lparr>hash := 2, next_hashes := [0], clock := LamportClock ''b'' 1\<rparr>]"
  have "\<forall>a\<in>insert entry_empty (set ?es). \<forall>b\<in>set ?es. is_parent a b \<longrightarrow>
             clock_time (clock a) < clock_time (clock b)"
    by (simp add: is_parent_def entry_empty_def clock_new_def)
  from find_children_chain [OF this] show ?thesis by blast
qed

subsection \<open>Fetching a log\<close>

inductive fetchable :: "client_env \<Rightarrow> hash set \<Rightarrow> hash \<Rightarrow> bool" for env hs where
  root: "h \<in> hs \<Longrightarrow> fetchable env hs h"
| parent: "fetchable env hs h \<Longrightarrow> entry_from_hash env h = Inr e \<Longrightarrow> n \<in> set (next_hashes e) \<Longrightarrow>
     fetchable env hs n"

definition loaded :: "client_env \<Rightarrow> hash set \<Rightarrow> entry set" where
  "loaded env hs = {e. \<exists>h. fetchable env hs h \<and> entry_from_hash env h = Inr e}"

lemma set_fetch_round: "set (fetch_round env hs) = {e. \<exists>h\<in>set hs. entry_from_hash env h = Inr e}"
  by (force simp: fetch_round_def List.map_filter_def split: sum.splits)

lemma fetchable_round:
  "fetchable env hs h \<longleftrightarrow>
     h \<in> hs \<or> fetchable env {n. \<exists>h\<in>hs. \<exists>e. entry_from_hash env h = Inr e \<and> n \<in> set (next_hashes e)} h"
  (is "_ \<longleftrightarrow> _ \<or> fetchable env ?next h")
proof
  assume "fetchable env hs h"
  then show "h \<in> hs \<or> fetchable env ?next h"
    by induction (auto intro: fetchable.intros)
next
  have "fetchable env hs h" if "fetchable env ?next h"
    using that by induction (auto intro: fetchable.intros)
  then show "h \<in> hs \<or> fetchable env ?next h \<Longrightarrow> fetchable env hs h"
    by (auto intro: fetchable.intros)
qed

lemma loaded_round:
  "loaded env (set hs) =
     set (fetch_round env hs) \<union> loaded env (set (concat (map next_hashes (fetch_round env hs))))"
proof -
  have "set (concat (map next_hashes (fetch_round env hs))) =
      {n. \<exists>h\<in>set hs. \<exists>e. entry_from_hash env h = Inr e \<and> n \<in> set (next_hashes e)}"
    by (auto simp: set_fetch_round)
  then show ?thesis
    unfolding loaded_def set_fetch_round by (auto simp: fetchable_round [of env "set hs"])
qed

lemma loaded_empty: "loaded env {} = {}"
proof -
  have "\<not> fetchable env {} h" for h
    by (rule notI, induction rule: fetchable.induct) auto
  then show ?thesis by (simp add: loaded_def)
qed

definition ranked :: "client_env \<Rightarrow> (hash \<Rightarrow> nat) \<Rightarrow> bool" where
  "ranked env rank \<longleftrightarrow>
     (\<forall>h e n. entry_from_hash env h = Inr e \<longrightarrow> n \<in> set (next_hashes e) \<longrightarrow> rank n < rank h)"

lemma fetch_loop_complete:
  assumes "ranked env rank" "\<forall>h\<in>set hs. rank h < k"
  shows "\<exists>r. fetch_loop env hs es = Some r \<and> set r = set es \<union> loaded env (set hs)"
  using assms(2)
proof (induction k arbitrary: hs es)
  case 0
  then have "hs = []" by (cases hs) auto
  then show ?case
    by (subst fetch_loop.simps) (simp add: fetch_round_def List.map_filter_def loaded_empty)
next
  case (Suc k)
  let ?new = "fetch_round env hs"
  let ?hs = "concat (map next_hashes ?new)"
  show ?case
  proof (cases "?hs = []")
    case True
    then have "fetch_loop env hs es = Some (es @ ?new)"
      by (subst fetch_loop.simps) (simp only: Let_def simp_thms if_True)
    moreover have "loaded env (set hs) = set ?new"
      using loaded_round [of env hs] True by (simp add: loaded_empty del: concat_eq_Nil_conv)
    ultimately show ?thesis by simp
  next
    case False
    have "\<forall>n\<in>set ?hs. rank n < k"
    proof
      fix n
      assume "n \<in> set ?hs"
      then obtain h e where "h \<in> set hs" "entry_from_hash env h = Inr e" "n \<in> set (next_hashes e)"
        by (auto simp: set_fetch_round)
      with assms(1) Suc.prems have "rank n < rank h" "rank h < Suc k"
        by (auto simp: ranked_def)
      then show "rank n < k" by simp
    qed
    from Suc.IH [OF this] obtain r where
      r: "fetch_loop env ?hs (es @ ?new) = Some r"
         "set r = set (es @ ?new) \<union> loaded env (set ?hs)" by blast
    have "fetch_loop env hs es = fetch_loop env ?hs (es @ ?new)"
      using False by (subst fetch_loop.simps) (simp only: Let_def if_False)
    with r show ?thesis using loaded_round [of env hs] by auto
  qed
qed

text \<open>
  C34: on a blob store without cycles (some rank decreases along every parent link),
  \<^verbatim>\<open>fetch_entries\<close> returns, and returns exactly the entries that can be loaded from the
  given hashes and their ancestors.
\<close>

theorem fetch_entries_complete:
  assumes "ranked env rank"
  shows "\<exists>es. fetch_entries env hs = Some es \<and> set es = loaded env (set hs)"
proof -
  have "\<forall>h\<in>set hs. rank h < Suc (Max (rank ` set hs))"
    by (simp add: less_Suc_eq_le)
  from fetch_loop_complete [OF assms this, of "[]"] show ?thesis
    by (auto simp: fetch_entries_def)
qed

definition toy_env :: client_env where
  "toy_env =
     \<lparr> json_entry = (\<lambda>_ _ _ _ _. ''''), add_bytes = (\<lambda>_. Inl ''offline''), hex_decode = (\<lambda>_. Inr []),
       cat_bytes = (\<lambda>h. Inr (if h = 1 then ''child'' else ''root'')),
       deserialize_entry = (\<lambda>bs. Inr (entry_empty\<lparr>next_hashes := (if bs = ''child'' then [0, 0] else [])\<rparr>)) \<rparr>"

theorem fetch_entries_complete_witness:
  "\<exists>es. fetch_entries toy_env [1] = Some es \<and> set es = loaded toy_env (set [1])"
proof -
  have "ranked toy_env (\<lambda>h. if h = 1 then 1 else 0)"
    by (auto simp: ranked_def toy_env_def entry_from_hash_def entry_empty_def split: if_splits)
  then show ?thesis by (rule fetch_entries_complete)
qed

text \<open>
  A linear history as the log writes it: every entry names its single parent twice.
\<close>

definition linear_history :: "client_env \<Rightarrow> (nat \<Rightarrow> hash) \<Rightarrow> nat \<Rightarrow> bool" where
  "linear_history env h n \<longleftrightarrow>
     (\<exists>e. entry_from_hash env (h 0) = Inr e \<and> next_hashes e = []) \<and>
     (\<forall>k<n. \<exists>e. entry_from_hash env (h (Suc k)) = Inr e \<and> next_hashes e = [h k, h k])"

lemma fetch_round_replicate:
  "entry_from_hash env h = Inr e \<Longrightarrow> fetch_round env (replicate m h) = replicate m e"
  by (induction m) (auto simp: fetch_round_def List.map_filter_def)

lemma concat_replicate_pair: "concat (replicate m [x, x]) = replicate (2 * m) x"
  by (induction m) auto

lemma fetch_loop_linear:
  "linear_history env h n \<Longrightarrow> 0 < m \<Longrightarrow>
     \<exists>r. fetch_loop env (replicate m (h n)) es = Some r \<and> length r = length es + m * (2 ^ Suc n - 1)"
proof (induction n arbitrary: m es)
  case 0
  then obtain e where "entry_from_hash env (h 0) = Inr e" "next_hashes e = []"
    by (auto simp: linear_history_def)
  then show ?case
    by (subst fetch_loop.simps) (simp add: fetch_round_replicate)
next
  case (Suc n)
  then obtain e where e: "entry_from_hash env (h (Suc n)) = Inr e" "next_hashes e = [h n, h n]"
    by (auto simp: linear_history_def)
  have "linear_history env h n" using Suc.prems(1) by (auto simp: linear_history_def)
  then obtain r where r: "fetch_loop env (replicate (2 * m) (h n)) (es @ replicate m e) = Some r"
      "length r = length (es @ replicate m e) + 2 * m * (2 ^ Suc n - 1)"
    using Suc.IH [of "2 * m" "es @ replicate m e"] Suc.prems(2) by auto
  have "fetch_loop env (replicate m (h (Suc n))) es =
      fetch_loop env (replicate (2 * m) (h n)) (es @ replicate m e)"
    using e Suc.prems(2)
    by (subst fetch_loop.simps) (simp add: fetch_round_replicate concat_replicate_pair del: concat_eq_Nil_conv)
  with r have "fetch_loop env (replicate m (h (Suc n))) es = Some r" by simp
  moreover obtain y where "(2 :: nat) ^ n = Suc y"
    using gr0_conv_Suc [of "2 ^ n"] by auto
  then have "length r = length es + m * (2 ^ Suc (Suc n) - 1)"
    using r(2) by (simp add: algebra_simps)
  ultimately show ?case by blast
qed



end
