(* ===== verification/Oplog.thy ===== *)
theory Oplog
  imports Log_Entry
begin

text \<open>
  The operation log, \<^verbatim>\<open>src/log/mod.rs\<close>: an operation-based CRDT whose entries form a
  hash-linked graph.  The record \<open>oplog\<close> has the fields of \<^verbatim>\<open>struct Log\<close> but for the
  client (the argument \<open>env\<close> of the operations that store or fetch) and the access object, whose
  \<^verbatim>\<open>can_access\<close> is constantly true.  Lamport times keep their 64 bits and wrap;
  lengths and counts are unbounded.
\<close>

subsection \<open>State and construction\<close>

record oplog =
  log_id :: string
  log_identity :: identity
  log_entries :: "(hash, entry) btree_map"
  log_length :: nat
  log_heads :: "entry list"
  log_nexts :: "hash set"
  log_sort_fn :: entry_sort_fn
  log_clock :: lamport_clock

record log_options =
  opt_id :: "string option"
  opt_entries :: "entry list"
  opt_heads :: "entry list"
  opt_clock :: "lamport_clock option"
  opt_sort_fn :: "entry_sort_fn option"

definition log_options_default :: log_options where
  "log_options_default =
     \<lparr> opt_id = None, opt_entries = [], opt_heads = [], opt_clock = None, opt_sort_fn = None \<rparr>"

definition can_access :: "entry \<Rightarrow> bool" where
  "can_access e = True"

definition log_dedup :: "entry list \<Rightarrow> entry list" where
  "log_dedup v = dedup_by hash v"

definition log_get :: "oplog \<Rightarrow> hash \<Rightarrow> entry option" where
  "log_get l h = map_of (log_entries l) h"

definition log_has :: "oplog \<Rightarrow> hash \<Rightarrow> bool" where
  "log_has l h \<longleftrightarrow> map_of (log_entries l) h \<noteq> None"

definition log_is_empty :: "oplog \<Rightarrow> bool" where
  "log_is_empty l \<longleftrightarrow> log_length l = 0"

definition nexts_of :: "entry list \<Rightarrow> hash set" where
  "nexts_of es = (\<Union>e\<in>set es. set (next_hashes e))"

definition max_time :: "u64 \<Rightarrow> entry list \<Rightarrow> u64" where
  "max_time t hs = fold (\<lambda>h t. max t (clock_time (clock h))) hs t"

definition insert_entries ::
  "entry list \<Rightarrow> (hash, entry) btree_map \<Rightarrow> (hash, entry) btree_map" where
  "insert_entries es m = fold (\<lambda>e. btree_insert (hash e) e) es m"

text \<open>The comparison of \<^verbatim>\<open>find_heads\<close> answers Less on equal clock identifiers.\<close>

definition heads_cmp :: entry_sort_fn where
  "heads_cmp a b =
     (let diff = cmp (clock_id (clock a)) (clock_id (clock b))
      in if diff = Equal then Less else diff)"

definition find_heads :: "entry list \<Rightarrow> entry list" where
  "find_heads es = sort_by heads_cmp (filter (\<lambda>e. hash e \<notin> nexts_of es) es)"

text \<open>\<open>now\<close> is the millisecond timestamp that names a log created without an identifier.\<close>

definition log_new :: "string \<Rightarrow> identity \<Rightarrow> log_options \<Rightarrow> oplog" where
  "log_new now ident opts =
     (let es = opt_entries opts;
          hs = log_dedup (if opt_heads opts = [] then find_heads es else opt_heads opts);
          t0 = (case opt_clock opts of Some c \<Rightarrow> clock_time c | None \<Rightarrow> 0)
      in \<lparr> log_id = (case opt_id opts of Some s \<Rightarrow> s | None \<Rightarrow> now),
           log_identity = ident,
           log_entries = insert_entries es [],
           log_length = length es,
           log_heads = hs,
           log_nexts = nexts_of es,
           log_sort_fn = no_zeroes (case opt_sort_fn opts of Some f \<Rightarrow> f | None \<Rightarrow> last_write_wins),
           log_clock = set_time (max_time t0 hs) (clock_new (identity_pub_key ident)) \<rparr>)"

definition log_from_hash ::
  "client_env \<Rightarrow> string \<Rightarrow> identity \<Rightarrow> log_options \<Rightarrow> hash \<Rightarrow> oplog option" where
  "log_from_hash env now ident opts h =
     map_option (\<lambda>es. log_new now ident (opts\<lparr>opt_entries := es, opt_heads := []\<rparr>))
       (fetch_entries env [h])"

subsection \<open>Traversal\<close>

text \<open>Sorting by the log's order and reversing: the stack keeps its greatest entry in front.\<close>

definition sort_stack :: "entry_sort_fn \<Rightarrow> entry list \<Rightarrow> entry list" where
  "sort_stack f s = rev (sort_by f s)"

definition push_parent :: "oplog \<Rightarrow> hash \<Rightarrow> entry list \<times> hash set \<Rightarrow> entry list \<times> hash set" where
  "push_parent l h st =
     (case log_get l h of
        None \<Rightarrow> st
      | Some e \<Rightarrow>
          (if hash e \<in> snd st then st
           else (sort_stack (log_sort_fn l) (e # fst st), insert (hash e) (snd st))))"

definition push_parents ::
  "oplog \<Rightarrow> hash list \<Rightarrow> entry list \<times> hash set \<Rightarrow> entry list \<times> hash set" where
  "push_parents l hs st = fold (push_parent l) hs st"

definition stored_hashes :: "oplog \<Rightarrow> hash set" where
  "stored_hashes l = hash ` snd ` set (log_entries l)"

lemma finite_stored_hashes [simp]: "finite (stored_hashes l)"
  by (simp add: stored_hashes_def)

lemma log_get_stored: "log_get l h = Some e \<Longrightarrow> hash e \<in> stored_hashes l"
  by (force simp: log_get_def stored_hashes_def dest: map_of_SomeD)

lemma push_parent_measure:
  "card (stored_hashes l - snd (push_parent l h st)) + length (fst (push_parent l h st)) =
   card (stored_hashes l - snd st) + length (fst st)"
proof (cases "\<exists>e. log_get l h = Some e \<and> hash e \<notin> snd st")
  case True
  then obtain e where e: "log_get l h = Some e" "hash e \<notin> snd st" by blast
  then have "hash e \<in> stored_hashes l - snd st" using log_get_stored by blast
  then have "Suc (card (stored_hashes l - snd st - {hash e})) = card (stored_hashes l - snd st)"
    by (intro card_Suc_Diff1) auto
  moreover have "stored_hashes l - insert (hash e) (snd st) = stored_hashes l - snd st - {hash e}"
    by blast
  ultimately show ?thesis using e by (simp add: push_parent_def sort_stack_def)
next
  case False
  then show ?thesis by (auto simp: push_parent_def split: option.splits)
qed

lemma push_parents_measure:
  "card (stored_hashes l - snd (push_parents l hs st)) + length (fst (push_parents l hs st)) =
   card (stored_hashes l - snd st) + length (fst st)"
  unfolding push_parents_def
  by (induction hs arbitrary: st) (simp_all add: push_parent_measure)

function traverse_loop ::
  "oplog \<Rightarrow> nat option \<Rightarrow> hash option \<Rightarrow> entry list \<Rightarrow> hash set \<Rightarrow> entry list \<Rightarrow> nat \<Rightarrow> entry list" where
  "traverse_loop l amount end_hash [] traversed result cnt = result"
| "traverse_loop l amount end_hash (e # stack) traversed result cnt =
     (if (case amount of None \<Rightarrow> False | Some n \<Rightarrow> \<not> cnt < n) then result
      else let st = push_parents l (next_hashes e) (stack, traversed);
               result' = result @ [e]
           in if end_hash = Some (hash e) then result'
              else traverse_loop l amount end_hash (fst st) (snd st) result' (cnt + 1))"
  by pat_completeness auto
termination
proof (relation "measure (\<lambda>(l, amount, end_hash, stack, traversed, result, cnt).
    card (stored_hashes l - traversed) + length stack)", goal_cases)
  case 1
  show ?case by simp
next
  case (2 l amount end_hash e stack traversed result cnt st result')
  then show ?case
    using push_parents_measure [of l "next_hashes e" "(stack, traversed)"] by simp
qed

definition traverse :: "oplog \<Rightarrow> entry list \<Rightarrow> nat option \<Rightarrow> hash option \<Rightarrow> entry list" where
  "traverse l roots amount end_hash =
     traverse_loop l amount end_hash (sort_stack (log_sort_fn l) (log_dedup roots)) {} [] 0"

definition log_values :: "oplog \<Rightarrow> entry list" where
  "log_values l = rev (traverse l (log_heads l) None None)"

definition log_sorted_heads :: "oplog \<Rightarrow> entry list" where
  "log_sorted_heads l = sort_stack (log_sort_fn l) (log_dedup (log_heads l))"

subsection \<open>Appending and adding entries\<close>

text \<open>
  The result of \<^verbatim>\<open>append\<close> is \<open>None\<close> where the code panics: when the entry cannot be
  stored, or when the access object refuses it.
\<close>

definition append_refs :: "oplog \<Rightarrow> nat option \<Rightarrow> entry list" where
  "append_refs l n_ptr =
     traverse l (log_heads l)
       (Some (max (case n_ptr of Some n \<Rightarrow> n | None \<Rightarrow> 1) (length (log_heads l)))) None"

definition log_append :: "client_env \<Rightarrow> oplog \<Rightarrow> bytes \<Rightarrow> nat option \<Rightarrow> (entry \<times> oplog) option" where
  "log_append env l data n_ptr =
     (let t_new = max_time (clock_time (log_clock l)) (log_heads l) + 1;
          ck = set_time t_new (clock_new (clock_id (log_clock l)));
          l' = l\<lparr>log_clock := ck\<rparr>;
          hs = log_dedup (rev (log_heads l)) @ append_refs l' n_ptr;
          e0 = entry_new (log_identity l) (log_id l) data (map (\<lambda>x. HashRef (hash x)) hs) (Some ck)
      in case hash_entry env e0 of
           Inl _ \<Rightarrow> None
         | Inr h \<Rightarrow>
             (let e = set_hash h e0
              in if \<not> can_access e then None
                 else Some (e, l'\<lparr>log_entries := btree_insert (hash e) e (log_entries l),
                                  log_nexts := log_nexts l \<union> hash ` set hs,
                                  log_heads := [e],
                                  log_length := log_length l + 1\<rparr>)))"

definition add_entry :: "entry \<Rightarrow> oplog \<Rightarrow> bool \<times> oplog" where
  "add_entry e l =
     (if map_of (log_entries l) (hash e) \<noteq> None then (False, l)
      else let nx = log_nexts l \<union> set (next_hashes e);
               hs = filter (\<lambda>h. hash h \<notin> set (next_hashes e)) (log_heads l)
           in (True, l\<lparr>log_nexts := nx,
                       log_entries := btree_insert (hash e) e (log_entries l),
                       log_heads := (if hash e \<notin> nx then hs @ [e] else hs),
                       log_length := log_length l + 1\<rparr>))"

definition set_identity :: "identity \<Rightarrow> oplog \<Rightarrow> oplog" where
  "set_identity ident l =
     l\<lparr>log_clock := set_time (max_time 0 (log_heads l)) (clock_new (identity_pub_key ident)),
       log_identity := ident\<rparr>"

definition sync_clock_from_heads :: "oplog \<Rightarrow> oplog" where
  "sync_clock_from_heads l =
     l\<lparr>log_clock := set_time (max_time (clock_time (log_clock l)) (log_heads l))
                      (clock_new (clock_id (log_clock l)))\<rparr>"

subsection \<open>Difference and join\<close>

definition push_missing ::
  "oplog \<Rightarrow> hash \<Rightarrow> hash list \<times> hash set \<Rightarrow> hash list \<times> hash set" where
  "push_missing other n st =
     (if n \<notin> snd st \<and> log_get other n = None then (fst st @ [n], insert n (snd st)) else st)"

definition push_missing_all ::
  "oplog \<Rightarrow> hash list \<Rightarrow> hash list \<times> hash set \<Rightarrow> hash list \<times> hash set" where
  "push_missing_all other ns st = fold (push_missing other) ns st"

definition linked_hashes :: "oplog \<Rightarrow> hash set" where
  "linked_hashes l = (\<Union>e\<in>snd ` set (log_entries l). set (next_hashes e))"

lemma finite_linked_hashes [simp]: "finite (linked_hashes l)"
  by (simp add: linked_hashes_def)

lemma push_missing_measure:
  assumes "finite N" "n \<in> N"
  shows "card (N - snd (push_missing other n st)) + length (fst (push_missing other n st)) =
    card (N - snd st) + length (fst st)"
proof (cases "n \<notin> snd st \<and> log_get other n = None")
  case True
  then have "Suc (card (N - snd st - {n})) = card (N - snd st)"
    using assms by (intro card_Suc_Diff1) auto
  moreover have "N - insert n (snd st) = N - snd st - {n}" by blast
  ultimately show ?thesis using True by (simp add: push_missing_def)
next
  case False
  then show ?thesis by (auto simp: push_missing_def)
qed

lemma push_missing_all_measure:
  assumes "finite N" "set ns \<subseteq> N"
  shows "card (N - snd (push_missing_all other ns st)) + length (fst (push_missing_all other ns st)) =
    card (N - snd st) + length (fst st)"
  using assms unfolding push_missing_all_def
  by (induction ns arbitrary: st) (simp_all add: push_missing_measure)

function diff_loop ::
  "oplog \<Rightarrow> oplog \<Rightarrow> hash list \<Rightarrow> hash set \<Rightarrow> (hash, entry) hash_map \<Rightarrow> (hash, entry) hash_map" where
  "diff_loop l other [] traversed df = df"
| "diff_loop l other (h # stack) traversed df =
     (case log_get l h of
        None \<Rightarrow> diff_loop l other stack traversed df
      | Some a \<Rightarrow>
          (if log_get other h = None \<and> entry_id a = log_id other then
             let st = push_missing_all other (next_hashes a) (stack, traversed)
             in diff_loop l other (fst st) (insert (hash a) (snd st)) (AList.update (hash a) a df)
           else diff_loop l other stack traversed df))"
  by pat_completeness auto
termination
proof (relation "measure (\<lambda>(l, other, stack, traversed, df).
    card (linked_hashes l - traversed) + length stack)", goal_cases)
  case (3 l other h stack traversed df a st)
  then have "a \<in> snd ` set (log_entries l)"
    by (force simp: log_get_def dest: map_of_SomeD)
  then have "set (next_hashes a) \<subseteq> linked_hashes l" by (auto simp: linked_hashes_def)
  from push_missing_all_measure [OF _ this, of other "(stack, traversed)"]
  have "card (linked_hashes l - snd st) + length (fst st) =
      card (linked_hashes l - traversed) + length stack"
    using 3 by simp
  moreover have "card (linked_hashes l - insert (hash a) (snd st)) \<le> card (linked_hashes l - snd st)"
    by (intro card_mono) auto
  ultimately show ?case by simp
qed simp_all

definition log_diff :: "oplog \<Rightarrow> oplog \<Rightarrow> (hash, entry) hash_map" where
  "log_diff l other = diff_loop l other (map hash (log_heads l)) {} []"

definition join_merge :: "oplog \<Rightarrow> oplog \<Rightarrow> oplog" where
  "join_merge l other =
     (let new_items = log_diff other l;
          new_nexts = nexts_of (map snd new_items);
          nx = log_nexts l \<union> new_nexts;
          all_heads = find_heads (log_heads l @ log_heads other);
          merged = filter (\<lambda>x. hash x \<notin> nx) (filter (\<lambda>x. hash x \<notin> new_nexts) all_heads)
      in l\<lparr>log_length := log_length l + length (filter (\<lambda>e. log_get l (fst e) = None) new_items),
           log_nexts := nx,
           log_entries := fold (\<lambda>e. btree_insert (fst e) (snd e)) new_items (log_entries l),
           log_heads := log_dedup merged\<rparr>)"

definition truncate_log :: "nat \<Rightarrow> oplog \<Rightarrow> oplog" where
  "truncate_log n l =
     (let vs = take n (rev (log_values l));
          m = insert_entries vs []
      in l\<lparr>log_entries := m, log_heads := find_heads (log_dedup vs), log_length := length m\<rparr>)"

definition log_join :: "oplog \<Rightarrow> oplog \<Rightarrow> nat option \<Rightarrow> oplog option" where
  "log_join l other sz =
     (if log_id l \<noteq> log_id other then None
      else let l1 = join_merge l other;
               l2 = (case sz of None \<Rightarrow> l1 | Some n \<Rightarrow> truncate_log n l1)
           in Some (l2\<lparr>log_clock := set_time (max_time 0 (log_heads l2))
                                      (clock_new (clock_id (log_clock l2)))\<rparr>))"

subsection \<open>Tails\<close>

text \<open>
  \<^verbatim>\<open>reverses\<close> maps a hash to the last entry that names it as a parent; the set of all named
  parents is iterated in first-insertion order here (a \<^verbatim>\<open>HashSet\<close> promises none).
\<close>

definition reverses :: "entry list \<Rightarrow> hash \<Rightarrow> entry option" where
  "reverses es n = find (\<lambda>e. n \<in> set (next_hashes e)) (rev es)"

definition find_tails :: "entry list \<Rightarrow> entry list" where
  "find_tails es =
     (let no_nexts = filter (\<lambda>e. next_hashes e = []) es;
          all_nexts = remdups (concat (map next_hashes es));
          missing = filter (\<lambda>x. x \<notin> hash ` set es) all_nexts
      in sort_by entry_cmp (log_dedup (List.map_filter (reverses es) missing @ no_nexts)))"

definition find_tail_hashes :: "entry list \<Rightarrow> hash list" where
  "find_tail_hashes es =
     rev (concat (map (\<lambda>e. filter (\<lambda>n. n \<notin> hash ` set es) (rev (next_hashes e))) es))"

definition log_tails :: "oplog \<Rightarrow> entry list" where
  "log_tails l = find_tails (log_values l)"

definition log_tail_hashes :: "oplog \<Rightarrow> hash list" where
  "log_tail_hashes l = find_tail_hashes (log_values l)"

subsection \<open>Text renderings\<close>

text \<open>
  \<open>hex\<close> renders a hash.  \<^verbatim>\<open>entries\<close> reads the first two parents of every entry that has
  one, and panics (\<open>None\<close>) where an entry has exactly one.
\<close>

definition log_all :: "(hash \<Rightarrow> string) \<Rightarrow> oplog \<Rightarrow> string" where
  "log_all hex l =
     (let s = ''[ '' @ concat (map (\<lambda>e.
             (if \<exists>x\<in>set (log_heads l). hash x = hash (snd e) then ''^'' else []) @ hex (fst e) @ '', '')
             (log_entries l))
      in take (length s - 2) s @ '' ]'')"

fun entries_line :: "(hash \<Rightarrow> string) \<Rightarrow> hash \<times> entry \<Rightarrow> string option" where
  "entries_line hex (h, e) =
     (case next_hashes e of
        [] \<Rightarrow> Some (hex h @ [CHR 0x09, CHR 0x09] @ ''.,.'' @ [CHR 0x0A])
      | [_] \<Rightarrow> None
      | a # b # _ \<Rightarrow>
          Some (hex h @ [CHR 0x09, CHR 0x09] @ ''>'' @ hex a @ '', >'' @ hex b @ [CHR 0x0A]))"

definition log_entries_text :: "(hash \<Rightarrow> string) \<Rightarrow> oplog \<Rightarrow> string option" where
  "log_entries_text hex l =
     fold (\<lambda>e acc. case (acc, entries_line hex e) of
                     (Some s, Some t) \<Rightarrow> Some (s @ t) | _ \<Rightarrow> None)
       (log_entries l) (Some [])"

end
