(* ===== verification/Oplog_Correct.thy ===== *)
theory Oplog_Correct
  imports Oplog
begin

text \<open>
  Correctness of the operation log.  \<open>log_wf\<close> says that the redundant fields of the log (the
  length, the heads, the set of named parents) are functions of its entries; \<open>causal\<close> says that
  an entry is later than each of its stored parents; \<open>closed\<close> says that no parent is missing.
  Every operation keeps the first; the theorems on join and traversal use the others.
\<close>

subsection \<open>Invariants\<close>

definition keyed :: "oplog \<Rightarrow> bool" where
  "keyed l \<longleftrightarrow> (\<forall>h e. log_get l h = Some e \<longrightarrow> hash e = h)"

definition stored :: "oplog \<Rightarrow> entry set" where
  "stored l = ran (log_get l)"

definition named_parents :: "oplog \<Rightarrow> hash set" where
  "named_parents l = (\<Union>e\<in>stored l. set (next_hashes e))"

definition log_wf :: "oplog \<Rightarrow> bool" where
  "log_wf l \<longleftrightarrow>
     btree_wf (log_entries l) \<and> keyed l \<and>
     log_length l = length (log_entries l) \<and>
     log_nexts l = named_parents l \<and>
     distinct (map hash (log_heads l)) \<and>
     set (log_heads l) = {e\<in>stored l. hash e \<notin> log_nexts l}"

definition causal :: "oplog \<Rightarrow> bool" where
  "causal l \<longleftrightarrow>
     (\<forall>e\<in>stored l. \<forall>p\<in>stored l. hash p \<in> set (next_hashes e) \<longrightarrow>
        clock_time (clock p) < clock_time (clock e))"

definition closed :: "oplog \<Rightarrow> bool" where
  "closed l \<longleftrightarrow> named_parents l \<subseteq> hash ` stored l"

lemma log_wfD:
  assumes "log_wf l"
  shows "btree_wf (log_entries l)" "keyed l" "log_length l = length (log_entries l)"
    "log_nexts l = named_parents l" "distinct (map hash (log_heads l))"
    "set (log_heads l) = {e\<in>stored l. hash e \<notin> log_nexts l}"
  using assms by (simp_all add: log_wf_def)

lemma keyedD: "keyed l \<Longrightarrow> log_get l h = Some e \<Longrightarrow> hash e = h"
  by (simp add: keyed_def)

lemma storedI: "log_get l h = Some e \<Longrightarrow> e \<in> stored l"
  by (auto simp: stored_def ran_def)

lemma stored_get: "keyed l \<Longrightarrow> e \<in> stored l \<Longrightarrow> log_get l (hash e) = Some e"
  by (auto simp: stored_def ran_def dest: keyedD)

lemma stored_inj: "keyed l \<Longrightarrow> inj_on hash (stored l)"
  by (rule inj_onI) (metis option.inject stored_get)

lemma stored_dom: "keyed l \<Longrightarrow> dom (log_get l) = hash ` stored l"
  by (force dest: keyedD storedI stored_get)

lemma get_None_iff: "keyed l \<Longrightarrow> log_get l h = None \<longleftrightarrow> h \<notin> hash ` stored l"
  by (metis domIff stored_dom)

lemma get_Some_iff: "keyed l \<Longrightarrow> log_get l h = Some e \<longleftrightarrow> e \<in> stored l \<and> hash e = h"
  using keyedD stored_get storedI by blast

lemma stored_insert:
  "log_get l' = (log_get l)(k \<mapsto> e) \<Longrightarrow> log_get l k = None \<Longrightarrow> stored l' = insert e (stored l)"
  by (simp add: stored_def)

lemma log_get_insert:
  "btree_wf (log_entries l) \<Longrightarrow> log_entries l' = btree_insert k v (log_entries l) \<Longrightarrow>
     log_get l' = (log_get l)(k \<mapsto> v)"
  by (auto simp: log_get_def fun_eq_iff btm.get_insert)

lemma named_parents_insert:
  "log_get l' = (log_get l)(k \<mapsto> e) \<Longrightarrow> log_get l k = None \<Longrightarrow>
     named_parents l' = named_parents l \<union> set (next_hashes e)"
  by (auto simp: named_parents_def stored_insert)

lemma keyed_insert: "log_get l' = (log_get l)(hash e \<mapsto> e) \<Longrightarrow> keyed l \<Longrightarrow> keyed l'"
  by (simp add: keyed_def)

text \<open>The entries determine the rest of a well-formed log.\<close>

lemma log_wf_determined:
  assumes "log_wf l" "log_wf l'" "log_get l = log_get l'"
  shows "log_entries l = log_entries l'" "log_length l = log_length l'" "log_nexts l = log_nexts l'"
    "set (log_heads l) = set (log_heads l')"
proof -
  have st: "stored l = stored l'" using assms(3) by (simp add: stored_def)
  have "map_of (log_entries l) = map_of (log_entries l')"
    using assms(3) by (auto simp: log_get_def fun_eq_iff)
  then show e: "log_entries l = log_entries l'"
    using assms(1,2) by (intro btree_wf_eqI log_wfD(1))
  show "log_length l = log_length l'" using assms(1,2) e by (simp add: log_wf_def)
  show n: "log_nexts l = log_nexts l'"
    using log_wfD(4) [OF assms(1)] log_wfD(4) [OF assms(2)] st by (simp add: named_parents_def)
  show "set (log_heads l) = set (log_heads l')"
    using log_wfD(6) [OF assms(1)] log_wfD(6) [OF assms(2)] st n by simp
qed

subsection \<open>Construction\<close>

lemma btree_wf_insert_entries: "btree_wf m \<Longrightarrow> btree_wf (insert_entries es m)"
  unfolding insert_entries_def by (rule btm.invar_insert_all)

lemma map_of_insert_entries:
  "distinct (map hash es) \<Longrightarrow>
     map_of (insert_entries es []) h = find (\<lambda>e. hash e = h) es"
proof (cases "find (\<lambda>e. hash e = h) es")
  case None
  then have "h \<notin> hash ` set es" by (auto simp: find_None_iff)
  with None show ?thesis
    by (simp add: insert_entries_def btm.get_insert_all_other [OF btm.invar_empty])
next
  case (Some e)
  then have "e \<in> set es" "h = hash e" by (auto simp: find_Some_iff)
  moreover assume "distinct (map hash es)"
  then have "inj_on hash (set es)" by (simp add: distinct_map)
  ultimately show ?thesis
    using btm.get_insert_all [OF btm.invar_empty, of hash es e "\<lambda>e. e"] Some
    by (simp add: insert_entries_def)
qed

lemma find_hash_iff:
  "distinct (map hash es) \<Longrightarrow> find (\<lambda>e. hash e = h) es = Some e \<longleftrightarrow> e \<in> set es \<and> hash e = h"
  by (induction es) auto

lemma length_insert_entries:
  assumes "distinct (map hash es)"
  shows "length (insert_entries es []) = length es"
proof -
  have "length (insert_entries es []) = card (dom (map_of (insert_entries es [])))"
    by (rule btm.len_card) (simp add: btree_wf_insert_entries btm.invar_empty)
  also have "dom (map_of (insert_entries es [])) = hash ` set es"
    by (auto simp: map_of_insert_entries [OF assms] find_hash_iff [OF assms] dom_def)
  also have "card \<dots> = length es"
    using assms by (metis distinct_card length_map set_map)
  finally show ?thesis .
qed

lemma set_find_heads: "set (find_heads es) = {e\<in>set es. hash e \<notin> nexts_of es}"
  by (auto simp: find_heads_def)

lemma distinct_find_heads: "distinct (map hash es) \<Longrightarrow> distinct (map hash (find_heads es))"
  by (simp add: find_heads_def distinct_map_filter)

lemma log_wf_new:
  assumes "distinct (map hash (opt_entries opts))" "opt_heads opts = []"
  shows "log_wf (log_new now ident opts)"
proof -
  let ?es = "opt_entries opts" and ?l = "log_new now ident opts"
  have get: "log_get ?l h = find (\<lambda>e. hash e = h) ?es" for h
    by (simp add: log_get_def log_new_def Let_def map_of_insert_entries [OF assms(1)])
  have st: "stored ?l = set ?es"
    by (auto simp: stored_def ran_def get find_hash_iff [OF assms(1)])
  then have "named_parents ?l = nexts_of ?es"
    by (simp add: named_parents_def nexts_of_def)
  moreover have "log_heads ?l = find_heads ?es"
    using assms by (simp add: log_new_def Let_def log_dedup_def dedup_by_id distinct_find_heads)
  ultimately show ?thesis
    using assms get st
    by (auto simp: log_wf_def keyed_def find_hash_iff set_find_heads distinct_find_heads
        length_insert_entries btree_wf_insert_entries btm.invar_empty log_new_def Let_def)
qed

subsection \<open>Adding entries\<close>

lemma log_get_add_entry:
  assumes "btree_wf (log_entries l)"
  shows "log_get (snd (add_entry e l)) =
    (if log_get l (hash e) = None then (log_get l)(hash e \<mapsto> e) else log_get l)"
  using assms by (simp add: add_entry_def log_get_def fun_eq_iff btm.get_insert Let_def)

lemma log_wf_add_entry:
  assumes wf: "log_wf l"
  shows "log_wf (snd (add_entry e l))"
proof (cases "log_get l (hash e) = None")
  case False
  then show ?thesis using wf by (simp add: add_entry_def log_get_def)
next
  case True
  let ?l = "snd (add_entry e l)"
  have get: "log_get ?l = (log_get l)(hash e \<mapsto> e)"
    using log_get_add_entry [OF log_wfD(1) [OF wf]] True by simp
  have l_eq: "?l = l\<lparr>log_nexts := log_nexts l \<union> set (next_hashes e),
      log_entries := btree_insert (hash e) e (log_entries l),
      log_heads := filter (\<lambda>h. hash h \<notin> set (next_hashes e)) (log_heads l) @
        (if hash e \<notin> log_nexts l \<union> set (next_hashes e) then [e] else []),
      log_length := log_length l + 1\<rparr>"
    using True by (simp add: add_entry_def Let_def log_get_def)
  have nx: "log_nexts ?l = log_nexts l \<union> set (next_hashes e)"
    and hs: "set (log_heads ?l) = {h\<in>set (log_heads l). hash h \<notin> set (next_hashes e)} \<union>
      (if hash e \<notin> log_nexts l \<union> set (next_hashes e) then {e} else {})"
    by (simp_all add: l_eq)
  have heads: "set (log_heads l) = {e\<in>stored l. hash e \<notin> log_nexts l}"
    by (rule log_wfD(6) [OF wf])
  have fresh: "hash e \<notin> hash ` stored l"
    using True get_None_iff [OF log_wfD(2) [OF wf]] by simp
  have st: "stored ?l = insert e (stored l)" using get True by (rule stored_insert)
  have "hash e \<notin> hash ` set (log_heads l)"
    using fresh heads by auto
  then have "distinct (map hash (log_heads ?l))"
    using log_wfD(5) [OF wf] by (auto simp: l_eq distinct_map_filter)
  moreover have "set (log_heads ?l) = {e\<in>stored ?l. hash e \<notin> log_nexts ?l}"
    unfolding nx hs st heads by auto
  moreover have "log_length ?l = length (log_entries ?l)"
    using log_wfD(1,3) [OF wf] True by (simp add: l_eq btm.len_insert log_get_def)
  ultimately show ?thesis
    using log_wfD(1,4) [OF wf] keyed_insert [OF get] named_parents_insert [OF get True] wf
    by (simp add: log_wf_def l_eq btm.invar_insert)
qed

definition add_entries :: "entry list \<Rightarrow> oplog \<Rightarrow> oplog" where
  "add_entries es l = fold (\<lambda>e l. snd (add_entry e l)) es l"

lemma log_wf_add_entries: "log_wf l \<Longrightarrow> log_wf (add_entries es l)"
  unfolding add_entries_def by (induction es arbitrary: l) (simp_all add: log_wf_add_entry)

lemma log_get_add_entries:
  assumes "log_wf l" "inj_on hash (set es)"
  shows "log_get (add_entries es l) h = Some e \<longleftrightarrow>
    log_get l h = Some e \<or> log_get l h = None \<and> e \<in> set es \<and> hash e = h"
  using assms
proof (induction es arbitrary: l)
  case Nil
  then show ?case by (simp add: add_entries_def)
next
  case (Cons x es)
  let ?l = "snd (add_entry x l)"
  have "log_get (add_entries (x # es) l) h = Some e \<longleftrightarrow>
      log_get ?l h = Some e \<or> log_get ?l h = None \<and> e \<in> set es \<and> hash e = h"
    using Cons.IH [OF log_wf_add_entry [OF Cons.prems(1)]] Cons.prems(2)
    by (simp add: add_entries_def)
  moreover have "log_get ?l = (if log_get l (hash x) = None then (log_get l)(hash x \<mapsto> x) else log_get l)"
    by (rule log_get_add_entry [OF log_wfD(1) [OF Cons.prems(1)]])
  moreover have "e \<in> set es \<Longrightarrow> hash e = hash x \<Longrightarrow> e = x"
    using Cons.prems(2) by (auto simp: inj_on_def)
  ultimately show ?case by (auto split: if_splits)
qed


definition empty_log :: oplog where
  "empty_log = log_new ''0'' (get_identity entry_empty) (log_options_default\<lparr>opt_id := Some ''0000''\<rparr>)"

lemma log_wf_empty_log: "log_wf empty_log"
  unfolding empty_log_def by (rule log_wf_new) (simp_all add: log_options_default_def)

lemma get_empty_log: "log_get empty_log = Map.empty"
  by (simp add: empty_log_def log_new_def log_get_def insert_entries_def log_options_default_def
      Let_def fun_eq_iff)

lemma stored_add_entries_empty:
  assumes "inj_on hash (set es)"
  shows "stored (add_entries es empty_log) = set es"
  unfolding stored_def ran_def log_get_add_entries [OF log_wf_empty_log assms]
  by (auto simp: get_empty_log)

lemma sort_fn_add_entries: "log_sort_fn (add_entries es l) = log_sort_fn l"
proof -
  have "log_sort_fn (snd (add_entry e l)) = log_sort_fn l" for e l
    by (simp add: add_entry_def Let_def)
  then show ?thesis
    unfolding add_entries_def by (induction es arbitrary: l) simp_all
qed


subsection \<open>Reaching every entry from the heads\<close>

text \<open>\<open>parent_of l\<close> relates a stored entry to each of its stored parents.\<close>

definition parent_of :: "oplog \<Rightarrow> (entry \<times> entry) set" where
  "parent_of l = {(e, p). e \<in> stored l \<and> p \<in> stored l \<and> hash p \<in> set (next_hashes e)}"

lemma causal_parent_of:
  "causal l \<Longrightarrow> (e, p) \<in> parent_of l \<Longrightarrow> clock_time (clock p) < clock_time (clock e)"
  by (auto simp: causal_def parent_of_def)

lemma wf_head_or_child:
  assumes "log_wf l" "e \<in> stored l"
  shows "e \<in> set (log_heads l) \<or> (\<exists>c. (c, e) \<in> parent_of l)"
  using log_wfD(4,6) [OF assms(1)] assms(2) by (auto simp: parent_of_def named_parents_def)

lemma reachable_from_head:
  assumes "log_wf l" "causal l" "e \<in> stored l"
  shows "\<exists>h\<in>set (log_heads l). (h, e) \<in> (parent_of l)\<^sup>*"
  using assms(3)
proof (induction "2 ^ 64 - unat (clock_time (clock e))" arbitrary: e rule: less_induct)
  case less
  from wf_head_or_child [OF assms(1) less.prems] show ?case
  proof
    assume "e \<in> set (log_heads l)"
    then show ?thesis by blast
  next
    assume "\<exists>c. (c, e) \<in> parent_of l"
    then obtain c where c: "(c, e) \<in> parent_of l" ..
    have "unat (clock_time (clock e)) < unat (clock_time (clock c))"
      using causal_parent_of [OF assms(2) c] by (simp add: word_less_nat_alt)
    then have "2 ^ 64 - unat (clock_time (clock c)) < 2 ^ 64 - unat (clock_time (clock e))"
      using unat_u64_less [of "clock_time (clock c)"] by linarith
    moreover have "c \<in> stored l" using c by (simp add: parent_of_def)
    ultimately obtain h where "h \<in> set (log_heads l)" "(h, c) \<in> (parent_of l)\<^sup>*"
      using less.hyps by blast
    with c show ?thesis by (meson rtrancl.rtrancl_into_rtrancl)
  qed
qed

lemma ancestor_time:
  assumes "causal l" "(h, e) \<in> (parent_of l)\<^sup>*"
  shows "clock_time (clock e) \<le> clock_time (clock h)"
  using assms(2)
proof induction
  case (step y z)
  from causal_parent_of [OF assms(1) step.hyps(2)] step.IH show ?case by simp
qed simp

lemma entry_time_le_head:
  "log_wf l \<Longrightarrow> causal l \<Longrightarrow> e \<in> stored l \<Longrightarrow>
     \<exists>h\<in>set (log_heads l). clock_time (clock e) \<le> clock_time (clock h)"
  using reachable_from_head ancestor_time by blast

subsection \<open>Traversal\<close>

lemma set_sort_stack [simp]: "set (sort_stack f s) = set s"
  by (simp add: sort_stack_def)

lemma distinct_sort_stack [simp]: "distinct (map h (sort_stack f s)) = distinct (map h s)"
  by (metis distinct_map_sort_by distinct_rev rev_map sort_stack_def)

lemma sorted_sort_stack:
  "respects_key k f (set s) \<Longrightarrow> sorted_wrt (\<lambda>a b. k b \<le> k a) (sort_stack f s)"
  using sorted_sort_by [of k f s] by (simp add: sort_stack_def sorted_wrt_rev sorted_map)

lemma push_parent_Some:
  assumes "keyed l" "log_get l n = Some e"
  shows "set (fst (push_parent l n st)) = (if n \<in> snd st then {} else {e}) \<union> set (fst st)"
    "snd (push_parent l n st) = insert n (snd st)"
    "distinct (map hash (fst st)) \<Longrightarrow> n \<notin> hash ` set (fst st) - snd st \<Longrightarrow>
       distinct (map hash (fst (push_parent l n st)))"
  using keyedD [OF assms] assms(2) by (auto simp: push_parent_def)

lemma push_parent_None: "log_get l n = None \<Longrightarrow> push_parent l n st = st"
  by (simp add: push_parent_def)

lemma push_parents_Cons: "push_parents l (n # ns) st = push_parents l ns (push_parent l n st)"
  by (simp add: push_parents_def)

lemma push_parents_snd:
  assumes "keyed l"
  shows "snd (push_parents l hs st) = snd st \<union> (set hs \<inter> hash ` stored l)"
proof (induction hs arbitrary: st)
  case (Cons n hs)
  show ?case
  proof (cases "log_get l n")
    case None
    then have "n \<notin> hash ` stored l" using get_None_iff [OF assms] by simp
    with Cons show ?thesis by (simp add: push_parents_Cons push_parent_None [OF None])
  next
    case (Some e)
    then have "n \<in> hash ` stored l" using get_Some_iff [OF assms] by auto
    with Cons show ?thesis by (simp add: push_parents_Cons push_parent_Some(2) [OF assms Some])
  qed
qed (simp add: push_parents_def)

lemma push_parents_fst:
  assumes "keyed l"
  shows "set (fst (push_parents l hs st)) =
    set (fst st) \<union> {e\<in>stored l. hash e \<in> set hs \<and> hash e \<notin> snd st}"
proof (induction hs arbitrary: st)
  case (Cons n hs)
  show ?case
  proof (cases "log_get l n")
    case None
    then have "n \<notin> hash ` stored l" using get_None_iff [OF assms] by simp
    then show ?thesis unfolding push_parents_Cons push_parent_None [OF None] Cons.IH by auto
  next
    case (Some e)
    then have "{x\<in>stored l. hash x = n} = {e}"
      using stored_inj [OF assms] get_Some_iff [OF assms] by (auto simp: inj_on_def)
    then show ?thesis
      unfolding push_parents_Cons Cons.IH push_parent_Some(1,2) [OF assms Some] by auto
  qed
qed (simp add: push_parents_def)

lemma push_parents_distinct:
  assumes "keyed l" "distinct (map hash (fst st))" "hash ` set (fst st) \<inter> set hs \<subseteq> snd st"
  shows "distinct (map hash (fst (push_parents l hs st)))"
  using assms(2,3)
proof (induction hs arbitrary: st)
  case (Cons n hs)
  show ?case
  proof (cases "log_get l n")
    case None
    have "hash ` set (fst st) \<inter> set hs \<subseteq> snd st" using Cons.prems(2) by auto
    from Cons.IH [OF Cons.prems(1) this] None show ?thesis
      by (simp add: push_parents_Cons push_parent_None)
  next
    case (Some e)
    have "hash e = n" using assms(1) Some by (rule keyedD)
    then have "hash ` set (fst (push_parent l n st)) \<inter> set hs \<subseteq> snd (push_parent l n st)"
      using Cons.prems(2) by (auto simp: push_parent_Some(1,2) [OF assms(1) Some])
    moreover have "distinct (map hash (fst (push_parent l n st)))"
      using Cons.prems by (intro push_parent_Some(3) [OF assms(1) Some]) auto
    ultimately show ?thesis using Cons.IH by (simp add: push_parents_Cons)
  qed
qed (simp add: push_parents_def)

lemma push_parents_sorted:
  assumes "respects_key k (log_sort_fn l) (stored l)"
    "set (fst st) \<subseteq> stored l" "sorted_wrt (\<lambda>a b. k b \<le> k a) (fst st)"
  shows "sorted_wrt (\<lambda>a b. k b \<le> k a) (fst (push_parents l hs st))"
  using assms(2,3)
proof (induction hs arbitrary: st)
  case (Cons n hs)
  have "set (fst (push_parent l n st)) \<subseteq> stored l"
    using Cons.prems(1) by (auto simp: push_parent_def split: option.splits intro: storedI)
  moreover have "sorted_wrt (\<lambda>a b. k b \<le> k a) (fst (push_parent l n st))"
  proof (cases "push_parent l n st = st")
    case False
    then obtain e where e: "log_get l n = Some e" "hash e \<notin> snd st"
      by (auto simp: push_parent_def split: option.splits if_splits)
    then have "set (e # fst st) \<subseteq> stored l" using Cons.prems(1) by (auto intro: storedI)
    with assms(1) have "respects_key k (log_sort_fn l) (set (e # fst st))"
      by (rule respects_key_subset)
    with e show ?thesis by (simp add: push_parent_def sorted_sort_stack)
  qed (use Cons.prems(2) in simp)
  ultimately show ?case using Cons.IH by (simp add: push_parents_Cons)
qed (simp add: push_parents_def)

text \<open>
  What the loop keeps of the entries visited or stacked: they are stored and distinct; the parents
  of a visited entry are marked; marked hashes, and only they, are seen as someone's parent.
\<close>

definition traverse_inv :: "oplog \<Rightarrow> entry list \<Rightarrow> hash set \<Rightarrow> entry list \<Rightarrow> bool" where
  "traverse_inv l stack traversed result \<longleftrightarrow>
     distinct (map hash (result @ stack)) \<and> set (result @ stack) \<subseteq> stored l \<and>
     (\<forall>r\<in>set result. set (next_hashes r) \<inter> hash ` stored l \<subseteq> traversed) \<and>
     traversed \<subseteq> hash ` set (result @ stack) \<and>
     hash ` set (result @ stack) \<inter> named_parents l \<subseteq> traversed"

lemma traverse_invD:
  assumes "traverse_inv l stack traversed result"
  shows "distinct (map hash (result @ stack))" "set (result @ stack) \<subseteq> stored l"
    "\<And>r. r \<in> set result \<Longrightarrow> set (next_hashes r) \<inter> hash ` stored l \<subseteq> traversed"
    "traversed \<subseteq> hash ` set (result @ stack)"
    "hash ` set (result @ stack) \<inter> named_parents l \<subseteq> traversed"
  using assms unfolding traverse_inv_def by blast+

lemma traverse_inv_step:
  assumes "keyed l" "traverse_inv l (e # stack) traversed result"
    and st: "st = push_parents l (next_hashes e) (stack, traversed)"
  shows "traverse_inv l (fst st) (snd st) (result @ [e])"
proof -
  note inv = traverse_invD [OF assms(2)]
  let ?seen = "result @ e # stack"
  let ?new = "{x\<in>stored l. hash x \<in> set (next_hashes e) \<and> hash x \<notin> traversed}"
  have fst: "set (fst st) = set stack \<union> ?new" and
       snd: "snd st = traversed \<union> (set (next_hashes e) \<inter> hash ` stored l)"
    by (simp_all add: st push_parents_fst [OF assms(1)] push_parents_snd [OF assms(1)])
  have named: "set (next_hashes e) \<subseteq> named_parents l"
    using inv(2) by (auto simp: named_parents_def)
  then have marked: "hash ` set ?seen \<inter> set (next_hashes e) \<subseteq> traversed"
    using inv(5) by blast
  have seen: "set ((result @ [e]) @ fst st) = set ?seen \<union> ?new"
    unfolding set_append fst by auto
  have "distinct (map hash (fst st))"
    unfolding st using inv(1) marked by (intro push_parents_distinct [OF assms(1)]) auto
  moreover have "hash ` set (result @ [e]) \<inter> hash ` set (fst st) = {}"
  proof -
    have "hash ` set (result @ [e]) \<inter> hash ` set stack = {}" using inv(1) by auto
    moreover have "hash ` set (result @ [e]) \<inter> hash ` ?new = {}" using marked by auto
    ultimately show ?thesis unfolding fst by blast
  qed
  ultimately have "distinct (map hash ((result @ [e]) @ fst st))"
    using inv(1) by simp
  moreover have "set ((result @ [e]) @ fst st) \<subseteq> stored l"
    unfolding seen using inv(2) by blast
  moreover have "\<forall>r\<in>set (result @ [e]). set (next_hashes r) \<inter> hash ` stored l \<subseteq> snd st"
    using inv(3) unfolding snd by auto
  moreover have "snd st \<subseteq> hash ` set ((result @ [e]) @ fst st)"
    unfolding seen snd using inv(4) by blast
  moreover have "hash ` set ((result @ [e]) @ fst st) \<inter> named_parents l \<subseteq> snd st"
    unfolding seen snd using inv(5) by blast
  ultimately show ?thesis unfolding traverse_inv_def by blast
qed

lemma traverse_loop_None_Cons:
  "traverse_loop l None None (e # stack) traversed result cnt =
     (let st = push_parents l (next_hashes e) (stack, traversed)
      in traverse_loop l None None (fst st) (snd st) (result @ [e]) (cnt + 1))"
  by (simp add: Let_def)

lemma traverse_loop_full:
  assumes "keyed l" "traverse_inv l stack traversed result"
  shows "\<exists>tr. traverse_inv l [] tr (traverse_loop l None None stack traversed result cnt) \<and>
         set (result @ stack) \<subseteq> set (traverse_loop l None None stack traversed result cnt)"
  using assms(2)
proof (induction "card (stored_hashes l - traversed) + length stack" arbitrary: stack traversed result cnt
    rule: less_induct)
  case less
  show ?case
  proof (cases stack)
    case Nil
    with less.prems show ?thesis by auto
  next
    case (Cons e rest)
    define st where "st = push_parents l (next_hashes e) (rest, traversed)"
    have "card (stored_hashes l - snd st) + length (fst st) < card (stored_hashes l - traversed) + length stack"
      using push_parents_measure [of l "next_hashes e" "(rest, traversed)"] by (simp add: st_def Cons)
    moreover have "traverse_inv l (fst st) (snd st) (result @ [e])"
      using traverse_inv_step [OF assms(1) less.prems [unfolded Cons] st_def] .
    ultimately obtain tr where
      tr: "traverse_inv l [] tr (traverse_loop l None None (fst st) (snd st) (result @ [e]) (cnt + 1))"
        "set ((result @ [e]) @ fst st) \<subseteq>
           set (traverse_loop l None None (fst st) (snd st) (result @ [e]) (cnt + 1))"
      using less.hyps by blast
    have "set rest \<subseteq> set (fst st)"
      unfolding st_def push_parents_fst [OF assms(1)] by auto
    with tr show ?thesis
      unfolding Cons traverse_loop_None_Cons Let_def st_def [symmetric] by auto
  qed
qed

lemma traverse_inv_init:
  assumes "log_wf l"
  shows "traverse_inv l (sort_stack (log_sort_fn l) (log_dedup (log_heads l))) {} []"
proof -
  have "log_dedup (log_heads l) = log_heads l"
    using log_wfD(5) [OF assms] by (simp add: log_dedup_def dedup_by_id)
  then show ?thesis
    using log_wfD(4,5,6) [OF assms] by (auto simp: traverse_inv_def)
qed

lemma traverse_complete:
  assumes "log_wf l" "causal l"
  defines "r \<equiv> traverse l (log_heads l) None None"
  shows "set r = stored l" "distinct (map hash r)"
proof -
  have key: "keyed l" by (rule log_wfD(2) [OF assms(1)])
  from traverse_loop_full [OF key traverse_inv_init [OF assms(1)], of 0]
  obtain tr where tr: "traverse_inv l [] tr r" "set (log_dedup (log_heads l)) \<subseteq> set r"
    unfolding r_def traverse_def by auto
  note inv = traverse_invD [OF tr(1)]
  show "distinct (map hash r)" using inv(1) by simp
  have heads: "set (log_heads l) \<subseteq> set r"
    using tr(2) log_wfD(5) [OF assms(1)] by (simp add: log_dedup_def dedup_by_id)
  have closed: "p \<in> set r" if "e \<in> set r" "(e, p) \<in> parent_of l" for e p
  proof -
    from that(2) have p: "p \<in> stored l" "hash p \<in> set (next_hashes e)" by (auto simp: parent_of_def)
    then have "hash p \<in> tr" using inv(3) [OF that(1)] by blast
    then obtain q where "q \<in> set r" "hash q = hash p" using inv(4) by auto
    with p(1) inv(2) show "p \<in> set r" using stored_inj [OF key] by (auto simp: inj_on_def)
  qed
  have "e \<in> set r" if e: "e \<in> stored l" for e
  proof -
    obtain h where "h \<in> set (log_heads l)" "(h, e) \<in> (parent_of l)\<^sup>*"
      using reachable_from_head [OF assms(1,2) e] by blast
    from this(2) show ?thesis
      by induction (use heads \<open>h \<in> set (log_heads l)\<close> closed in auto)
  qed
  then show "set r = stored l" using inv(2) by auto
qed

text \<open>
  A traversal visits the entries in decreasing order of any key that the sort function respects
  and that parents have no greater than their children.
\<close>

abbreviation newest_first :: "(entry \<Rightarrow> 'k::linorder) \<Rightarrow> entry list \<Rightarrow> bool" where
  "newest_first k \<equiv> sorted_wrt (\<lambda>a b. k b \<le> k a)"

definition parents_earlier :: "(entry \<Rightarrow> 'k::linorder) \<Rightarrow> oplog \<Rightarrow> bool" where
  "parents_earlier k l \<longleftrightarrow> (\<forall>(e, p)\<in>parent_of l. k p \<le> k e)"

lemma parents_earlier_clock: "causal l \<Longrightarrow> parents_earlier clock l"
  unfolding parents_earlier_def using causal_parent_of
  by (fastforce simp: clock_time_less less_imp_le)

lemma newest_first_step:
  assumes "keyed l" "parents_earlier k l" "respects_key k (log_sort_fn l) (stored l)"
    and inv: "traverse_inv l (e # stack) traversed result"
    and sorted: "newest_first k (result @ e # stack)"
    and st: "st = push_parents l (next_hashes e) (stack, traversed)"
  shows "newest_first k ((result @ [e]) @ fst st)"
proof -
  note inv = traverse_invD [OF inv]
  have sub: "set stack \<subseteq> stored l" "e \<in> stored l" using inv(2) by auto
  have "newest_first k (fst st)"
    unfolding st using sorted sub(1)
    by (intro push_parents_sorted [OF assms(3)]) (auto simp: sorted_wrt_append)
  moreover have "\<forall>x\<in>set (fst st). k x \<le> k e"
  proof
    fix x
    assume "x \<in> set (fst st)"
    then consider "x \<in> set stack" | "x \<in> stored l" "hash x \<in> set (next_hashes e)"
      unfolding st push_parents_fst [OF assms(1)] by auto
    then show "k x \<le> k e"
    proof cases
      case 1
      then show ?thesis using sorted by (simp add: sorted_wrt_append)
    next
      case 2
      then show ?thesis
        using assms(2) sub(2) by (auto simp: parents_earlier_def parent_of_def)
    qed
  qed
  moreover have "\<forall>r\<in>set result. k e \<le> k r" "newest_first k result"
    using sorted by (simp_all add: sorted_wrt_append)
  ultimately show ?thesis by (fastforce simp: sorted_wrt_append)
qed

lemma traverse_loop_newest_first:
  assumes "keyed l" "parents_earlier k l" "respects_key k (log_sort_fn l) (stored l)"
    "traverse_inv l stack traversed result" "newest_first k (result @ stack)"
  shows "newest_first k (traverse_loop l None None stack traversed result cnt)"
  using assms(4,5)
proof (induction "card (stored_hashes l - traversed) + length stack" arbitrary: stack traversed result cnt
    rule: less_induct)
  case less
  show ?case
  proof (cases stack)
    case Nil
    with less.prems show ?thesis by simp
  next
    case (Cons e rest)
    define st where "st = push_parents l (next_hashes e) (rest, traversed)"
    have "card (stored_hashes l - snd st) + length (fst st) < card (stored_hashes l - traversed) + length stack"
      using push_parents_measure [of l "next_hashes e" "(rest, traversed)"] by (simp add: st_def Cons)
    moreover have "traverse_inv l (fst st) (snd st) (result @ [e])"
      by (rule traverse_inv_step [OF assms(1) less.prems(1) [unfolded Cons] st_def])
    moreover have "newest_first k ((result @ [e]) @ fst st)"
      by (rule newest_first_step [OF assms(1-3) less.prems [unfolded Cons] st_def])
    ultimately have "newest_first k (traverse_loop l None None (fst st) (snd st) (result @ [e]) (cnt + 1))"
      using less.hyps by blast
    then show ?thesis
      unfolding Cons traverse_loop_None_Cons Let_def st_def [symmetric] .
  qed
qed

lemma hash_fixes_clock_stored: "keyed l \<Longrightarrow> hash_fixes_clock (stored l)"
  unfolding hash_fixes_clock_def using stored_inj by (auto dest: inj_onD)

lemma traverse_newest_first_by:
  assumes "log_wf l" "parents_earlier k l" "respects_key k (log_sort_fn l) (stored l)"
  shows "newest_first k (traverse l (log_heads l) None None)"
proof -
  have "set (log_dedup (log_heads l)) \<subseteq> stored l"
    using set_dedup_by_subset [of hash "log_heads l"] log_wfD(6) [OF assms(1)]
    by (auto simp: log_dedup_def)
  with assms(3) have "newest_first k (sort_stack (log_sort_fn l) (log_dedup (log_heads l)))"
    by (intro sorted_sort_stack) (rule respects_key_subset)
  then show ?thesis unfolding traverse_def
    by (intro traverse_loop_newest_first [OF log_wfD(2) [OF assms(1)] assms(2,3)
          traverse_inv_init [OF assms(1)]]) simp
qed

lemma traverse_newest_first:
  assumes "log_wf l" "causal l" "log_sort_fn l = no_zeroes last_write_wins"
  shows "newest_first clock (traverse l (log_heads l) None None)"
proof -
  have "respects_key clock (log_sort_fn l) (stored l)"
    unfolding assms(3) by (rule respects_key_no_zeroes_last_write_wins
        [OF hash_fixes_clock_stored [OF log_wfD(2) [OF assms(1)]]])
  then show ?thesis by (rule traverse_newest_first_by [OF assms(1) parents_earlier_clock [OF assms(2)]])
qed


definition demo_log :: oplog where
  "demo_log = add_entries
     [entry_empty\<lparr>hash := 1, clock := LamportClock ''a'' 1\<rparr>,
      entry_empty\<lparr>hash := 2, next_hashes := [1, 1], clock := LamportClock ''a'' 2\<rparr>,
      entry_empty\<lparr>hash := 3, next_hashes := [1, 1], clock := LamportClock ''b'' 2\<rparr>] empty_log"

lemma log_wf_demo: "log_wf demo_log"
  unfolding demo_log_def by (intro log_wf_add_entries log_wf_empty_log)

lemma stored_demo:
  "stored demo_log =
     {entry_empty\<lparr>hash := 1, clock := LamportClock ''a'' 1\<rparr>,
      entry_empty\<lparr>hash := 2, next_hashes := [1, 1], clock := LamportClock ''a'' 2\<rparr>,
      entry_empty\<lparr>hash := 3, next_hashes := [1, 1], clock := LamportClock ''b'' 2\<rparr>}"
  unfolding demo_log_def by (subst stored_add_entries_empty) auto

lemma causal_demo: "causal demo_log"
  by (simp add: causal_def stored_demo entry_empty_def)

lemma sort_fn_demo: "log_sort_fn demo_log = no_zeroes last_write_wins"
  unfolding demo_log_def by (simp add: sort_fn_add_entries empty_log_def log_new_def
      log_options_default_def Let_def)


subsection \<open>Bounded traversal\<close>

lemma traverse_loop_extends: "\<exists>rest. traverse_loop l a eh stack tr res c = res @ rest"
proof (induction l a eh stack tr res c rule: traverse_loop.induct)
  case (2 l amount end_hash e stack traversed result cnt)
  then show ?case by (fastforce simp: Let_def split: option.splits)
qed simp

lemma traverse_loop_take:
  "c \<le> n \<Longrightarrow> traverse_loop l (Some n) None stack tr res c =
     take (length res + (n - c)) (traverse_loop l None None stack tr res c)"
proof (induction "card (stored_hashes l - tr) + length stack" arbitrary: stack tr res c rule: less_induct)
  case less
  show ?case
  proof (cases stack)
    case Nil
    then show ?thesis by simp
  next
    case (Cons e rest)
    define st where "st = push_parents l (next_hashes e) (rest, tr)"
    have full: "traverse_loop l None None stack tr res c =
        traverse_loop l None None (fst st) (snd st) (res @ [e]) (c + 1)"
      unfolding Cons traverse_loop_None_Cons Let_def st_def [symmetric] ..
    show ?thesis
    proof (cases "c < n")
      case False
      with less.prems have "c = n" by simp
      then have "traverse_loop l (Some n) None stack tr res c = res" by (simp add: Cons)
      moreover obtain r where "traverse_loop l None None stack tr res c = res @ r"
        using traverse_loop_extends by blast
      ultimately show ?thesis using \<open>c = n\<close> by simp
    next
      case True
      then have "traverse_loop l (Some n) None stack tr res c =
          traverse_loop l (Some n) None (fst st) (snd st) (res @ [e]) (c + 1)"
        by (simp add: Cons st_def Let_def)
      also have "\<dots> = take (length (res @ [e]) + (n - (c + 1)))
          (traverse_loop l None None (fst st) (snd st) (res @ [e]) (c + 1))"
        using push_parents_measure [of l "next_hashes e" "(rest, tr)"] True
        by (intro less.hyps) (simp_all add: st_def Cons)
      finally show ?thesis using True unfolding full by (simp add: Suc_diff_Suc)
    qed
  qed
qed

text \<open>
  A traversal limited to \<open>n\<close> entries returns the first \<open>n\<close> entries of the unlimited traversal
  from the same roots.
\<close>

theorem traverse_amount:
  "traverse l roots (Some n) None = take n (traverse l roots None None)"
  by (simp add: traverse_def traverse_loop_take)

lemma push_parents_subset: "set (fst (push_parents l hs st)) \<subseteq> set (fst st) \<union> stored l"
proof (induction hs arbitrary: st)
  case (Cons n hs)
  have "set (fst (push_parent l n st)) \<subseteq> set (fst st) \<union> stored l"
    by (auto simp: push_parent_def split: option.splits intro: storedI)
  with Cons.IH [of "push_parent l n st"] show ?case by (auto simp: push_parents_Cons)
qed (simp add: push_parents_def)

lemma traverse_loop_subset:
  "set (traverse_loop l a eh stack tr res c) \<subseteq> set stack \<union> set res \<union> stored l"
proof (induction l a eh stack tr res c rule: traverse_loop.induct)
  case (2 l amount end_hash e stack traversed result cnt)
  obtain s t where st: "push_parents l (next_hashes e) (stack, traversed) = (s, t)" by fastforce
  have "set s \<subseteq> set stack \<union> stored l"
    using push_parents_subset [of l "next_hashes e" "(stack, traversed)"] by (simp add: st)
  with 2 show ?case by (auto simp: Let_def st split: option.splits) blast+
qed simp

lemma traverse_subset: "set (traverse l roots a eh) \<subseteq> set roots \<union> stored l"
  using traverse_loop_subset set_dedup_by_subset [of hash roots]
  unfolding traverse_def log_dedup_def by fastforce

end
