(* ===== verification/Oplog_Merge.thy ===== *)
theory Oplog_Merge
  imports Oplog_Correct
begin

text \<open>
  The operations that grow a log: \<open>Log::append\<close>, \<open>Log::diff\<close> and \<open>Log::join\<close>
  (src/log/mod.rs). Each keeps the log well-formed and causal; joining two closed logs gives the
  union of their entries in either order, and a bounded join keeps the newest entries.
\<close>

subsection \<open>Appending\<close>

lemma max_time_ge: "t \<le> max_time t hs" "h \<in> set hs \<Longrightarrow> clock_time (clock h) \<le> max_time t hs"
proof -
  have "t \<le> max_time t hs \<and> (\<forall>h\<in>set hs. clock_time (clock h) \<le> max_time t hs)"
    unfolding max_time_def
  proof (induction hs arbitrary: t)
    case (Cons x hs)
    from Cons [of "max t (clock_time (clock x))"] show ?case by auto
  qed simp
  then show "t \<le> max_time t hs" "h \<in> set hs \<Longrightarrow> clock_time (clock h) \<le> max_time t hs" by auto
qed

lemma stored_cong: "log_entries l = log_entries l' \<Longrightarrow> stored l = stored l'"
  by (simp add: stored_def log_get_def ran_def)

lemma log_appendD:
  assumes "log_append env l data n_ptr = Some (e, l')"
  obtains refs where "set refs \<subseteq> set (log_heads l) \<union> stored l"
    "next_hashes e = map hash (log_dedup (rev (log_heads l)) @ refs)"
    "clock_time (clock e) = max_time (clock_time (log_clock l)) (log_heads l) + 1"
    "log_clock l' = clock e" "entry_id e = log_id l" "payload e = data"
    "l' = l\<lparr>log_clock := clock e, log_entries := btree_insert (hash e) e (log_entries l),
            log_nexts := log_nexts l \<union> set (next_hashes e), log_heads := [e],
            log_length := log_length l + 1\<rparr>"
proof -
  define ck where "ck = set_time (max_time (clock_time (log_clock l)) (log_heads l) + 1)
      (clock_new (clock_id (log_clock l)))"
  define l1 where "l1 = l\<lparr>log_clock := ck\<rparr>"
  define hs where "hs = log_dedup (rev (log_heads l)) @ append_refs l1 n_ptr"
  define e0 where "e0 = entry_new (log_identity l) (log_id l) data (map (\<lambda>x. HashRef (hash x)) hs) (Some ck)"
  have "set (append_refs l1 n_ptr) \<subseteq> set (log_heads l) \<union> stored l"
    using traverse_subset [of l1 "log_heads l1"] stored_cong [of l1 l]
    by (simp add: append_refs_def l1_def)
  moreover obtain h where h: "hash_entry env e0 = Inr h" "can_access (set_hash h e0)"
    using assms unfolding log_append_def Let_def ck_def [symmetric] l1_def [symmetric]
      hs_def [symmetric] e0_def [symmetric]
    by (cases "hash_entry env e0") (auto split: if_splits)
  then have "Some (e, l') = Some (set_hash h e0, l1\<lparr>
       log_entries := btree_insert (hash (set_hash h e0)) (set_hash h e0) (log_entries l),
       log_nexts := log_nexts l \<union> hash ` set hs, log_heads := [set_hash h e0],
       log_length := log_length l + 1\<rparr>)"
    unfolding assms [symmetric] log_append_def Let_def ck_def [symmetric] l1_def [symmetric]
      hs_def [symmetric] e0_def [symmetric] by simp
  then have e: "e = set_hash h e0" and "l' = l1\<lparr>log_entries := btree_insert (hash e) e (log_entries l),
       log_nexts := log_nexts l \<union> hash ` set hs, log_heads := [e], log_length := log_length l + 1\<rparr>"
    by simp_all
  moreover have "next_hashes e = map hash hs" "clock e = ck" "entry_id e = log_id l" "payload e = data"
    by (simp_all add: e e0_def entry_new_def set_hash_def comp_def)
  ultimately show thesis
    by (intro that [of "append_refs l1 n_ptr"]) (simp_all add: l1_def hs_def ck_def image_Un)
qed

definition fresh_hash :: "hash \<Rightarrow> oplog \<Rightarrow> bool" where
  "fresh_hash h l \<longleftrightarrow> h \<notin> hash ` stored l \<and> h \<notin> log_nexts l"

lemma log_append_facts:
  assumes "log_wf l" "causal l" "log_append env l data n_ptr = Some (e, l')" "fresh_hash (hash e) l"
    "max_time (clock_time (log_clock l)) (log_heads l) \<noteq> - 1"
  shows "log_wf l' \<and> causal l' \<and> (closed l \<longrightarrow> closed l') \<and> stored l' = insert e (stored l) \<and>
    log_heads l' = [e] \<and> (\<forall>x\<in>stored l. clock_time (clock x) < clock_time (clock e))"
proof -
  obtain refs where refs: "set refs \<subseteq> set (log_heads l) \<union> stored l"
      "next_hashes e = map hash (log_dedup (rev (log_heads l)) @ refs)"
      "clock_time (clock e) = max_time (clock_time (log_clock l)) (log_heads l) + 1"
    and l': "l' = l\<lparr>log_clock := clock e, log_entries := btree_insert (hash e) e (log_entries l),
            log_nexts := log_nexts l \<union> set (next_hashes e), log_heads := [e],
            log_length := log_length l + 1\<rparr>"
    using log_appendD [OF assms(3)] by metis
  note wf = log_wfD [OF assms(1)]
  have none: "log_get l (hash e) = None"
    using assms(4) get_None_iff [OF wf(2)] by (simp add: fresh_hash_def)
  have get: "log_get l' = (log_get l)(hash e \<mapsto> e)"
    using wf(1) by (rule log_get_insert) (simp add: l')
  have st: "stored l' = insert e (stored l)" using get none by (rule stored_insert)
  have heads: "set (log_heads l) \<subseteq> stored l" using wf(6) by blast
  then have nxt: "hash ` set (log_heads l) \<subseteq> set (next_hashes e)" "set (next_hashes e) \<subseteq> hash ` stored l"
    using refs(1) set_dedup_by_subset [of hash "rev (log_heads l)"] dedup_by_keys [of hash "rev (log_heads l)"]
    unfolding refs(2) log_dedup_def by (auto simp del: dedup_by_keys)
  have later: "clock_time (clock x) < clock_time (clock e)" if x: "x \<in> stored l" for x
  proof -
    obtain h where "h \<in> set (log_heads l)" "clock_time (clock x) \<le> clock_time (clock h)"
      using entry_time_le_head [OF assms(1,2) x] by blast
    then have "clock_time (clock x) \<le> max_time (clock_time (log_clock l)) (log_heads l)"
      using max_time_ge(2) order_trans by blast
    also have "\<dots> < clock_time (clock e)"
      unfolding refs(3) by (rule less_plus_1_u64 [OF assms(5)])
    finally show ?thesis .
  qed
  have own: "hash e \<notin> set (next_hashes e)"
    using assms(4) nxt(2) by (auto simp: fresh_hash_def)
  have parents: "named_parents l' = log_nexts l'"
    using named_parents_insert [OF get none] wf(4) by (simp add: l')
  have "{x\<in>stored l'. hash x \<notin> log_nexts l'} = {e}"
    using st nxt(1) own wf(6) assms(4) by (auto simp: l' fresh_hash_def)
  then have "log_wf l'"
    using wf(1,3) keyed_insert [OF get wf(2)] parents none
    by (simp add: log_wf_def l' btm.invar_insert btm.len_insert log_get_def)
  moreover have "causal l'"
    unfolding causal_def st
  proof (intro ballI impI)
    fix x p
    assume x: "x \<in> insert e (stored l)" and p: "p \<in> insert e (stored l)" "hash p \<in> set (next_hashes x)"
    have "p \<noteq> e"
    proof
      assume "p = e"
      with x p(2) own have "x \<in> stored l" by auto
      with p(2) \<open>p = e\<close> have "hash e \<in> named_parents l" by (auto simp: named_parents_def)
      with assms(4) wf(4) show False by (simp add: fresh_hash_def)
    qed
    with p have "p \<in> stored l" by simp
    then show "clock_time (clock p) < clock_time (clock x)"
      using x later assms(2) p(2) unfolding causal_def by blast
  qed
  moreover have "closed l \<longrightarrow> closed l'"
    using named_parents_insert [OF get none] nxt(2) by (auto simp: closed_def st)
  ultimately show ?thesis using st later by (simp add: l')
qed

text \<open>
  C12: appending to a well-formed causal log keeps it well-formed and causal (and closed, if it
  was): the new entry is stored, is the only head, and is later than every entry of the log.
  The content hash is fresh, and the clock is not about to overflow.
\<close>

theorem log_append_correct:
  assumes "log_wf l" "causal l" "log_append env l data n_ptr = Some (e, l')" "fresh_hash (hash e) l"
    "max_time (clock_time (log_clock l)) (log_heads l) \<noteq> - 1"
  shows "log_wf l' \<and> causal l' \<and> (closed l \<longrightarrow> closed l') \<and> stored l' = insert e (stored l) \<and>
    log_heads l' = [e] \<and> (\<forall>x\<in>stored l. clock_time (clock x) < clock_time (clock e))"
  using log_append_facts [OF assms] .

definition store_env :: client_env where
  "store_env = toy_env\<lparr>add_bytes := (\<lambda>_. Inr ''00''), hex_decode := (\<lambda>_. Inr (replicate 32 0))\<rparr>"

lemma word_rcat_zeroes: "word_rcat (replicate n (0 :: u8)) = (0 :: hash)"
proof -
  have "horner_sum uint (256 :: int) (replicate n (0 :: u8)) = 0" by (induction n) simp_all
  then show ?thesis by (simp add: word_rcat_def)
qed

theorem log_append_correct_witness:
  "\<exists>e l'. log_append store_env demo_log ''x'' None = Some (e, l') \<and> log_wf l' \<and> causal l' \<and>
     stored l' = insert e (stored demo_log)"
proof -
  obtain e l' where e: "log_append store_env demo_log ''x'' None = Some (e, l')" "hash e = 0"
    by (simp add: log_append_def hash_entry_def store_env_def can_access_def word_rcat_zeroes set_hash_def Let_def)
  have "log_nexts demo_log = {1}"
    using log_wfD(4) [OF log_wf_demo] by (simp add: named_parents_def stored_demo entry_empty_def)
  then have "fresh_hash (hash e) demo_log" by (simp add: fresh_hash_def stored_demo e(2))
  moreover have "max_time (clock_time (log_clock demo_log)) (log_heads demo_log) \<noteq> - 1" by code_simp
  ultimately show ?thesis
    using log_append_correct [OF log_wf_demo causal_demo e(1)] e(1) by blast
qed

subsection \<open>Difference\<close>

text \<open>
  The entries \<^verbatim>\<open>diff\<close> may report: stored here, absent from the other log, and carrying its id.
\<close>

definition eligible :: "oplog \<Rightarrow> oplog \<Rightarrow> entry set" where
  "eligible l other = {e\<in>stored l. hash e \<notin> hash ` stored other \<and> entry_id e = log_id other}"

definition diff_inv :: "oplog \<Rightarrow> oplog \<Rightarrow> hash list \<Rightarrow> hash set \<Rightarrow> (hash, entry) hash_map \<Rightarrow> bool" where
  "diff_inv l other stack traversed df \<longleftrightarrow>
     hash_wf df \<and> (\<forall>(k, e)\<in>set df. k = hash e \<and> e \<in> eligible l other) \<and>
     (hash ` set (log_heads l) \<union> traversed \<union> nexts_of (map snd df)) \<inter> hash ` eligible l other
       \<subseteq> set stack \<union> fst ` set df \<and>
     set stack \<union> fst ` set df \<subseteq> hash ` set (log_heads l) \<union> nexts_of (map snd df)"

lemma push_missing_all_eq:
  "set (fst (push_missing_all other ns st)) = set (fst st) \<union> {n\<in>set ns. n \<notin> snd st \<and> log_get other n = None}"
  "snd (push_missing_all other ns st) = snd st \<union> {n\<in>set ns. log_get other n = None}"
  unfolding push_missing_all_def by (induction ns arbitrary: st) (auto simp: push_missing_def)

lemma eligible_get:
  assumes "keyed l" "keyed other"
  shows "h \<in> hash ` eligible l other \<longleftrightarrow>
    (\<exists>a. log_get l h = Some a \<and> log_get other h = None \<and> entry_id a = log_id other)"
  unfolding eligible_def get_None_iff [OF assms(2)] get_Some_iff [OF assms(1)] by blast

lemma diff_inv_step:
  assumes inv: "diff_inv l other (h # stack) traversed df" and keyed: "keyed l" "keyed other"
    and a: "log_get l h = Some a" "log_get other h = None" "entry_id a = log_id other"
    and st: "st = push_missing_all other (next_hashes a) (stack, traversed)"
  shows "diff_inv l other (fst st) (insert (hash a) (snd st)) (AList.update (hash a) a df)"
proof -
  have [simp]: "hash a = h" using a(1) keyed(1) by (simp add: get_Some_iff)
  have el: "a \<in> eligible l other"
    using a unfolding eligible_def get_None_iff [OF keyed(2)] get_Some_iff [OF keyed(1)] by blast
  have wf: "hash_wf df" and df: "\<forall>(k, e)\<in>set df. k = hash e \<and> e \<in> eligible l other"
    using inv by (simp_all add: diff_inv_def)
  have inj: "e = a" if "e \<in> eligible l other" "hash e = h" for e
    using that el inj_onD [OF stored_inj [OF keyed(1)]] by (auto simp: eligible_def)
  have set': "set (AList.update h a df) = insert (h, a) (set df)"
  proof -
    have "map_of (AList.update h a df) k = Some e \<longleftrightarrow> (k, e) \<in> insert (h, a) (set df)" for k e
      using wf df inj by (auto simp: update_conv' hash_wf_def)
    moreover have "distinct (map fst (AList.update h a df))"
      using hash_wf_update [OF wf] by (simp add: hash_wf_def)
    ultimately show ?thesis by (auto dest: map_of_is_SomeI)
  qed
  have nexts': "nexts_of (map snd (AList.update h a df)) = set (next_hashes a) \<union> nexts_of (map snd df)"
    by (simp add: nexts_of_def set')
  have skip: "n \<notin> hash ` eligible l other" if "log_get other n \<noteq> None" for n
    using that by (simp add: eligible_get [OF keyed])
  show ?thesis
    using inv el hash_wf_update [OF wf]
    unfolding diff_inv_def st push_missing_all_eq \<open>hash a = h\<close> nexts' set'
    by (auto dest: skip)
qed

lemma diff_inv_skip:
  assumes "diff_inv l other (h # stack) traversed df" "h \<notin> hash ` eligible l other"
  shows "diff_inv l other stack traversed df"
proof -
  have shrink: "A \<inter> E \<subseteq> insert h S \<union> K \<Longrightarrow> h \<notin> E \<Longrightarrow> A \<inter> E \<subseteq> S \<union> K"
    "insert h S \<union> K \<subseteq> B \<Longrightarrow> S \<union> K \<subseteq> B" for A E S K B :: "hash set"
    by blast+
  show ?thesis
    using assms(1) unfolding diff_inv_def list.set
    by - (elim conjE, intro conjI, assumption, assumption, erule shrink(1) [OF _ assms(2)], erule shrink(2))
qed

lemma diff_loop_inv:
  assumes "keyed l" "keyed other"
  shows "diff_inv l other stack traversed df \<Longrightarrow> \<exists>tr. diff_inv l other [] tr (diff_loop l other stack traversed df)"
  using assms
proof (induction l other stack traversed df rule: diff_loop.induct)
  case (1 l other traversed df)
  then show ?case by auto
next
  case (2 l other h stack traversed df)
  show ?case
  proof (cases "h \<in> hash ` eligible l other")
    case True
    then obtain a where a: "log_get l h = Some a" "log_get other h = None" "entry_id a = log_id other"
      unfolding eligible_get [OF 2(5,6)] by blast
    note step = diff_inv_step [OF 2(4-6) a refl]
    from 2(2) [OF a(1) _ refl step 2(5,6)] a show ?thesis by (simp add: Let_def)
  next
    case False
    note step = diff_inv_skip [OF 2(4) False]
    show ?thesis
    proof (cases "log_get l h")
      case None
      from 2(1) [OF this step 2(5,6)] None show ?thesis by simp
    next
      case (Some a)
      then have no: "\<not> (log_get other h = None \<and> entry_id a = log_id other)"
        using False unfolding eligible_get [OF 2(5,6)] by blast
      from 2(3) [OF Some no step 2(5,6)] show ?thesis
        unfolding diff_loop.simps Some option.case if_not_P [OF no] .
    qed
  qed
qed

lemma log_diff_facts:
  assumes "keyed l" "keyed other"
  defines "D \<equiv> snd ` set (log_diff l other)"
  shows "hash_wf (log_diff l other)" "\<And>k e. (k, e) \<in> set (log_diff l other) \<Longrightarrow> k = hash e"
    "D \<subseteq> eligible l other"
    "\<And>e. e \<in> eligible l other \<Longrightarrow> e \<in> set (log_heads l) \<Longrightarrow> e \<in> D"
    "\<And>e x. e \<in> eligible l other \<Longrightarrow> x \<in> D \<Longrightarrow> hash e \<in> set (next_hashes x) \<Longrightarrow> e \<in> D"
    "hash ` D \<subseteq> hash ` set (log_heads l) \<union> nexts_of (map snd (log_diff l other))"
proof -
  have "diff_inv l other (map hash (log_heads l)) {} []"
    by (auto simp: diff_inv_def nexts_of_def)
  then obtain tr where inv: "diff_inv l other [] tr (log_diff l other)"
    using diff_loop_inv [OF assms(1,2)] unfolding log_diff_def by blast
  then show "hash_wf (log_diff l other)" and key: "\<And>k e. (k, e) \<in> set (log_diff l other) \<Longrightarrow> k = hash e"
    and D: "D \<subseteq> eligible l other"
    by (auto simp: diff_inv_def D_def)
  have keys: "fst ` set (log_diff l other) = hash ` D"
    unfolding D_def image_image using key by (intro image_cong) auto
  have mem: "e \<in> D" if "e \<in> eligible l other" "hash e \<in> hash ` D" for e
    using that D inj_onD [OF stored_inj [OF assms(1)]] by (fastforce simp: eligible_def)
  show "e \<in> D" if "e \<in> eligible l other" "e \<in> set (log_heads l)" for e
    using inv that by (intro mem) (auto simp: diff_inv_def keys)
  show "e \<in> D" if "e \<in> eligible l other" "x \<in> D" "hash e \<in> set (next_hashes x)" for e x
    using inv that unfolding diff_inv_def keys by (intro mem) (auto simp: nexts_of_def D_def)
  show "hash ` D \<subseteq> hash ` set (log_heads l) \<union> nexts_of (map snd (log_diff l other))"
    using inv by (simp add: diff_inv_def keys)
qed

subsection \<open>Join\<close>

text \<open>
  Two logs of one database that never disagree on the content behind a hash.
\<close>

definition mergeable :: "oplog \<Rightarrow> oplog \<Rightarrow> bool" where
  "mergeable l other \<longleftrightarrow> log_id l = log_id other \<and> inj_on hash (stored l \<union> stored other) \<and>
     (\<forall>e\<in>stored l \<union> stored other. entry_id e = log_id l)"

lemma mergeable_commute: "mergeable l other \<longleftrightarrow> mergeable other l"
  by (auto simp: mergeable_def Un_commute)

lemma mergeableD:
  "mergeable l other \<Longrightarrow> x \<in> stored l \<union> stored other \<Longrightarrow> y \<in> stored l \<union> stored other \<Longrightarrow> hash x = hash y \<Longrightarrow> x = y"
  by (auto simp: mergeable_def dest: inj_onD)

lemma eligible_mergeable: "mergeable l other \<Longrightarrow> eligible other l = stored other - stored l"
  by (auto simp: eligible_def mergeable_def dest: inj_onD)

lemma log_get_join_merge:
  assumes "log_wf l" "log_wf other"
  shows "log_get (join_merge l other) = log_get l ++ map_of (log_diff other l)"
proof
  fix h
  note facts = log_diff_facts [OF log_wfD(2) [OF assms(2)] log_wfD(2) [OF assms(1)]]
  have inj: "inj_on fst (set (log_diff other l))"
    using facts(1) by (simp add: hash_wf_def distinct_map)
  note wf = log_wfD(1) [OF assms(1)]
  show "log_get (join_merge l other) h = (log_get l ++ map_of (log_diff other l)) h"
  proof (cases "map_of (log_diff other l) h")
    case None
    then have "h \<notin> fst ` set (log_diff other l)" by (simp add: map_of_eq_None_iff)
    with None show ?thesis
      by (simp add: log_get_def join_merge_def Let_def map_add_def btm.get_insert_all_other [OF wf])
  next
    case (Some e)
    with btm.get_insert_all [OF wf inj map_of_SomeD [OF Some], of snd] show ?thesis
      by (simp add: log_get_def join_merge_def Let_def map_add_def)
  qed
qed

lemma log_diff_disjoint:
  assumes "log_wf l" "log_wf other" "(k, e) \<in> set (log_diff other l)"
  shows "log_get l k = None" "k = hash e"
  using log_diff_facts(2,3) [OF log_wfD(2) [OF assms(2)] log_wfD(2) [OF assms(1)]] assms(3)
    get_None_iff [OF log_wfD(2) [OF assms(1)]]
  by (auto simp: eligible_def)

lemma stored_join_merge:
  assumes "log_wf l" "log_wf other"
  shows "stored (join_merge l other) = stored l \<union> snd ` set (log_diff other l)"
proof -
  have "dom (log_get l) \<inter> dom (map_of (log_diff other l)) = {}"
    using log_diff_disjoint(1) [OF assms] by (auto simp: dom_def dest!: map_of_SomeD)
  moreover have "ran (map_of (log_diff other l)) = snd ` set (log_diff other l)"
    using log_diff_facts(1) [OF log_wfD(2) [OF assms(2)] log_wfD(2) [OF assms(1)]]
    by (simp add: hash_wf_def ran_distinct)
  ultimately show ?thesis
    by (simp add: stored_def log_get_join_merge [OF assms] ran_map_add)
qed

lemma length_join_merge:
  assumes "log_wf l" "log_wf other"
  shows "log_length (join_merge l other) = length (log_entries (join_merge l other))"
proof -
  let ?d = "log_diff other l" and ?m = "log_entries (join_merge l other)"
  note wf = log_wfD(1) [OF assms(1)]
  have dist: "distinct (map fst ?d)"
    using log_diff_facts(1) [OF log_wfD(2) [OF assms(2)] log_wfD(2) [OF assms(1)]] by (simp add: hash_wf_def)
  have disj: "fst ` set ?d \<inter> dom (map_of (log_entries l)) = {}"
    using log_diff_disjoint(1) [OF assms] by (fastforce simp: log_get_def)
  have m: "?m = fold (\<lambda>e. btree_insert (fst e) (snd e)) ?d (log_entries l)"
    by (simp add: join_merge_def Let_def)
  have "length ?m = card (fst ` set ?d \<union> dom (map_of (log_entries l)))"
    unfolding m by (simp add: btm.len_card btm.invar_insert_all btm.dom_insert_all wf)
  also have "\<dots> = card (fst ` set ?d) + length (log_entries l)"
    using disj by (simp add: card_Un_disjoint finite_dom_map_of btm.len_card [OF wf])
  also have "card (fst ` set ?d) = length ?d" using dist by (metis distinct_card length_map set_map)
  finally have len: "length ?m = length ?d + length (log_entries l)" .
  have "filter (\<lambda>e. log_get l (fst e) = None) ?d = ?d"
    using log_diff_disjoint(1) [OF assms] by (auto intro!: filter_True)
  then show ?thesis
    using len log_wfD(3) [OF assms(1)] by (simp add: join_merge_def Let_def)
qed

lemma heads_join_merge:
  assumes "log_wf l" "log_wf other" "mergeable l other"
  defines "m \<equiv> join_merge l other"
  shows "distinct (map hash (log_heads m))" "set (log_heads m) = {e\<in>stored m. hash e \<notin> log_nexts m}"
proof -
  let ?d = "log_diff other l"
  define D where "D = snd ` set ?d"
  note facts = log_diff_facts [OF log_wfD(2) [OF assms(2)] log_wfD(2) [OF assms(1)], folded D_def]
  note el = eligible_mergeable [OF assms(3)]
  have nx: "log_nexts m = log_nexts l \<union> nexts_of (map snd ?d)"
    and hd: "log_heads m = log_dedup (filter (\<lambda>x. hash x \<notin> log_nexts m)
      (filter (\<lambda>x. hash x \<notin> nexts_of (map snd ?d)) (find_heads (log_heads l @ log_heads other))))"
    by (simp_all add: m_def join_merge_def Let_def)
  have parents: "set (next_hashes e) \<subseteq> log_nexts m" if "e \<in> stored l \<union> D" for e
    using that log_wfD(4) [OF assms(1)] by (auto simp: nx D_def nexts_of_def named_parents_def)
  have heads: "set (log_heads l) \<subseteq> stored l" "set (log_heads other) \<subseteq> stored other"
    using log_wfD(6) assms(1,2) by auto
  moreover have otherD: "set (log_heads other) \<subseteq> stored l \<union> D"
    using facts(4) heads(2) unfolding el by blast
  ultimately have "nexts_of (log_heads l @ log_heads other) \<subseteq> log_nexts m"
    using parents unfolding nexts_of_def set_append by blast
  then have "{x\<in>set (find_heads (log_heads l @ log_heads other)).
        hash x \<notin> nexts_of (map snd ?d) \<and> hash x \<notin> log_nexts m} =
      {x\<in>set (log_heads l) \<union> set (log_heads other). hash x \<notin> log_nexts m}"
    unfolding set_find_heads nx by auto
  moreover have "inj_on hash (set (log_heads l) \<union> set (log_heads other))"
    using heads mergeableD [OF assms(3)] by (intro inj_onI) blast
  ultimately have set_hd: "set (log_heads m) =
      {x\<in>set (log_heads l) \<union> set (log_heads other). hash x \<notin> log_nexts m}"
    unfolding hd log_dedup_def by (subst set_dedup_by) (auto intro: inj_on_subset)
  have "x \<in> set (log_heads other)" if "x \<in> D" "hash x \<notin> log_nexts m" for x
  proof -
    from that(2) have "hash x \<notin> nexts_of (map snd ?d)" by (simp add: nx)
    with facts(6) that(1) obtain y where "y \<in> set (log_heads other)" "hash x = hash y" by blast
    moreover have "x \<in> stored other" using facts(3) that(1) el by blast
    ultimately show ?thesis using mergeableD [OF assms(3)] heads(2) by blast
  qed
  moreover have "x \<in> set (log_heads l)" if "x \<in> stored l" "hash x \<notin> log_nexts m" for x
    using that log_wfD(6) [OF assms(1)] by (simp add: nx)
  ultimately show "set (log_heads m) = {e\<in>stored m. hash e \<notin> log_nexts m}"
    using set_hd heads(1) otherD
    unfolding m_def stored_join_merge [OF assms(1,2)] D_def by blast
  show "distinct (map hash (log_heads m))" unfolding hd log_dedup_def by (rule distinct_dedup_by)
qed

lemma log_wf_join_merge:
  assumes "log_wf l" "log_wf other" "mergeable l other"
  shows "log_wf (join_merge l other)"
proof -
  let ?m = "join_merge l other"
  note st = stored_join_merge [OF assms(1,2)]
  have "btree_wf (log_entries ?m)"
    using log_wfD(1) [OF assms(1)] by (simp add: join_merge_def Let_def btm.invar_insert_all)
  moreover have "keyed ?m"
    using log_wfD(2) [OF assms(1)] log_diff_disjoint(2) [OF assms(1,2)]
    by (auto simp: keyed_def log_get_join_merge [OF assms(1,2)] dest!: map_of_SomeD)
  moreover have "log_nexts ?m = named_parents ?m"
    using log_wfD(4) [OF assms(1)] unfolding named_parents_def st
    by (simp add: join_merge_def Let_def nexts_of_def)
  ultimately show ?thesis
    unfolding log_wf_def
    using heads_join_merge [OF assms] length_join_merge [OF assms(1,2)] by blast
qed

lemma stored_join_union:
  assumes "log_wf l" "log_wf other" "mergeable l other" "closed l" "causal other"
  shows "stored (join_merge l other) = stored l \<union> stored other"
proof -
  define D where "D = snd ` set (log_diff other l)"
  note facts = log_diff_facts [OF log_wfD(2) [OF assms(2)] log_wfD(2) [OF assms(1)], folded D_def]
  note el = eligible_mergeable [OF assms(3)]
  have reach: "x \<in> stored l \<union> D" if "h \<in> set (log_heads other)" "(h, x) \<in> (parent_of other)\<^sup>*" for h x
    using that(2)
  proof induction
    case base
    then show ?case using facts(4) that(1) log_wfD(6) [OF assms(2)] unfolding el by blast
  next
    case (step y z)
    then have z: "z \<in> stored other" "hash z \<in> set (next_hashes y)" by (auto simp: parent_of_def)
    from step.IH show ?case
    proof
      assume "y \<in> stored l"
      with z(2) assms(4) obtain z' where "z' \<in> stored l" "hash z = hash z'"
        unfolding closed_def named_parents_def by blast
      with z(1) show ?thesis using mergeableD [OF assms(3)] by blast
    next
      assume "y \<in> D"
      then show ?thesis using facts(5) z unfolding el by blast
    qed
  qed
  have "stored other \<subseteq> stored l \<union> D"
    using reach reachable_from_head [OF assms(2,5)] by blast
  moreover have "D \<subseteq> stored other" using facts(3) unfolding el by blast
  ultimately show ?thesis unfolding stored_join_merge [OF assms(1,2)] D_def by blast
qed

lemma causal_union:
  assumes "mergeable a b" "causal a" "causal b" "closed a" "closed b" "stored x = stored a \<union> stored b"
  shows "causal x" "closed x"
proof -
  have parent: "p \<in> stored l" if "e \<in> stored l" "closed l" "p \<in> stored x" "hash p \<in> set (next_hashes e)" "l \<in> {a, b}" for e p l
  proof -
    from that(1,2,4) obtain q where "q \<in> stored l" "hash p = hash q"
      unfolding closed_def named_parents_def by blast
    then show ?thesis using mergeableD [OF assms(1)] that(3,5) assms(6) by blast
  qed
  show "causal x"
    unfolding causal_def
  proof (intro ballI impI)
    fix e p
    assume e: "e \<in> stored x" and p: "p \<in> stored x" "hash p \<in> set (next_hashes e)"
    from e assms(6) consider "e \<in> stored a" | "e \<in> stored b" by blast
    then show "clock_time (clock p) < clock_time (clock e)"
      using parent [OF _ assms(4) p] parent [OF _ assms(5) p] assms(2,3) p(2)
      unfolding causal_def by cases blast+
  qed
  show "closed x"
    using assms(4,5) unfolding closed_def named_parents_def assms(6) by blast
qed

lemma log_get_clock [simp]: "log_get (l\<lparr>log_clock := c\<rparr>) = log_get l"
  by (simp add: log_get_def fun_eq_iff)

lemma stored_clock [simp]: "stored (l\<lparr>log_clock := c\<rparr>) = stored l"
  by (simp add: stored_def)

lemma log_wf_clock [simp]: "log_wf (l\<lparr>log_clock := c\<rparr>) = log_wf l"
  by (simp add: log_wf_def keyed_def named_parents_def)

lemma max_time_Max: "max_time t hs = Max (insert t (clock_time ` clock ` set hs))"
  unfolding max_time_def
proof (induction hs arbitrary: t)
  case (Cons x hs)
  then show ?case by (cases "hs = []") (simp_all add: max.assoc)
qed simp

lemma log_join_None:
  assumes "mergeable a b"
  shows "log_join a b None = Some ((join_merge a b)\<lparr>log_clock :=
    set_time (max_time 0 (log_heads (join_merge a b))) (clock_new (clock_id (log_clock (join_merge a b))))\<rparr>)"
  using assms by (simp add: log_join_def mergeable_def Let_def)

text \<open>
  C7: joining two closed logs of one database succeeds and stores the union of their entries, in a
  well-formed, causal and closed log; joining in the other direction reaches the same entries,
  parents, length, heads and logical time.
\<close>

theorem log_join_converges:
  assumes "log_wf a" "log_wf b" "causal a" "causal b" "closed a" "closed b" "mergeable a b"
  shows "\<exists>x y. log_join a b None = Some x \<and> log_join b a None = Some y \<and>
    log_wf x \<and> causal x \<and> closed x \<and> stored x = stored a \<union> stored b \<and>
    log_entries x = log_entries y \<and> log_nexts x = log_nexts y \<and> log_length x = log_length y \<and>
    set (log_heads x) = set (log_heads y) \<and> clock_time (log_clock x) = clock_time (log_clock y)"
proof -
  have m': "mergeable b a" using assms(7) by (simp add: mergeable_commute)
  define x where "x = join_merge a b"
  define y where "y = join_merge b a"
  have wf: "log_wf x" "log_wf y"
    unfolding x_def y_def using assms m' by (auto intro: log_wf_join_merge)
  have st: "stored x = stored a \<union> stored b" "stored y = stored a \<union> stored b"
    unfolding x_def y_def using stored_join_union assms m' by blast+
  have "log_get x = log_get y"
  proof
    fix h
    show "log_get x h = log_get y h"
      by (rule option_eqI) (simp add: get_Some_iff [OF log_wfD(2) [OF wf(1)]]
          get_Some_iff [OF log_wfD(2) [OF wf(2)]] st)
  qed
  note eq = log_wf_determined [OF wf this]
  have "max_time 0 (log_heads x) = max_time 0 (log_heads y)"
    unfolding max_time_Max eq(4) ..
  then show ?thesis
    using log_join_None [OF assms(7)] log_join_None [OF m'] wf(1) st(1) eq
      causal_union [OF assms(7,3,4,5,6) st(1)]
    unfolding x_def [symmetric] y_def [symmetric]
    by (simp add: causal_def closed_def named_parents_def)
qed

definition demo_side :: oplog where
  "demo_side = add_entries
     [entry_empty\<lparr>hash := 1, clock := LamportClock ''a'' 1\<rparr>,
      entry_empty\<lparr>hash := 4, next_hashes := [1], clock := LamportClock ''c'' 5\<rparr>] empty_log"

lemma log_wf_side: "log_wf demo_side"
  unfolding demo_side_def by (intro log_wf_add_entries log_wf_empty_log)

lemma stored_side:
  "stored demo_side =
     {entry_empty\<lparr>hash := 1, clock := LamportClock ''a'' 1\<rparr>,
      entry_empty\<lparr>hash := 4, next_hashes := [1], clock := LamportClock ''c'' 5\<rparr>}"
  unfolding demo_side_def by (subst stored_add_entries_empty) auto

lemma log_id_add_entries [simp]: "log_id (add_entries es l) = log_id l"
  unfolding add_entries_def by (induction es arbitrary: l) (simp_all add: add_entry_def Let_def)

lemma demo_join:
  "causal demo_side" "closed demo_log" "closed demo_side" "mergeable demo_log demo_side"
proof -
  show "causal demo_side" by (simp add: causal_def stored_side entry_empty_def)
  show "closed demo_log" "closed demo_side"
    by (simp_all add: closed_def named_parents_def stored_demo stored_side entry_empty_def)
  have "log_id demo_log = ''0000''" "log_id demo_side = ''0000''"
    by (simp_all add: demo_log_def demo_side_def empty_log_def log_new_def log_options_default_def Let_def)
  then show "mergeable demo_log demo_side"
    by (auto simp: mergeable_def stored_demo stored_side entry_empty_def)
qed

theorem log_join_converges_witness:
  "\<exists>x y. log_join demo_log demo_side None = Some x \<and> log_join demo_side demo_log None = Some y \<and>
     stored x = stored demo_log \<union> stored demo_side \<and> log_entries x = log_entries y"
  using log_join_converges [OF log_wf_demo log_wf_side causal_demo demo_join] by blast

subsection \<open>Bounded join\<close>

lemma truncate_log_facts:
  fixes n :: nat
  assumes "log_wf l" "causal l" "log_sort_fn l = no_zeroes last_write_wins"
  defines "vs \<equiv> take n (traverse l (log_heads l) None None)"
  shows "stored (truncate_log n l) = set vs" "log_length (truncate_log n l) = min n (card (stored l))"
    "log_length (truncate_log n l) = length (log_entries (truncate_log n l))" "set vs \<subseteq> stored l"
    "\<And>e d. e \<in> set vs \<Longrightarrow> d \<in> stored l \<Longrightarrow> d \<notin> set vs \<Longrightarrow> clock d \<le> clock e"
proof -
  let ?tr = "traverse l (log_heads l) None None"
  note full = traverse_complete [OF assms(1,2)]
  have vs: "take n (rev (log_values l)) = vs" by (simp add: log_values_def vs_def)
  have dist: "distinct (map hash vs)" using full(2) by (simp add: vs_def take_map [symmetric])
  have get: "log_get (truncate_log n l) h = find (\<lambda>e. hash e = h) vs" for h
    by (simp add: log_get_def truncate_log_def vs Let_def map_of_insert_entries [OF dist])
  show "stored (truncate_log n l) = set vs"
    by (auto simp: stored_def ran_def get find_hash_iff [OF dist])
  have "length ?tr = card (stored l)"
    using full by (metis distinct_card distinct_map)
  then show "log_length (truncate_log n l) = min n (card (stored l))"
    by (simp add: truncate_log_def vs Let_def length_insert_entries [OF dist]) (simp add: vs_def min.commute)
  show "log_length (truncate_log n l) = length (log_entries (truncate_log n l))"
    by (simp add: truncate_log_def Let_def)
  show "set vs \<subseteq> stored l" unfolding vs_def full(1) [symmetric] by (rule set_take_subset)
  show "clock d \<le> clock e" if "e \<in> set vs" "d \<in> stored l" "d \<notin> set vs" for e d
  proof -
    have "d \<in> set (drop n ?tr)"
      using that(2,3) unfolding full(1) [symmetric] vs_def
      by (metis UnE append_take_drop_id set_append)
    moreover have "newest_first clock (take n ?tr @ drop n ?tr)"
      using traverse_newest_first [OF assms(1-3)] by simp
    ultimately show ?thesis using that(1) by (simp add: sorted_wrt_append vs_def del: append_take_drop_id)
  qed
qed

text \<open>
  A join bounded by \<open>n\<close> keeps exactly \<open>n\<close> entries (or all, when there are fewer), and every
  entry it drops is not newer than any entry it keeps.
\<close>

theorem log_join_bounded:
  assumes "log_wf a" "log_wf b" "causal a" "causal b" "closed a" "closed b" "mergeable a b"
    "log_sort_fn a = no_zeroes last_write_wins"
  shows "\<exists>x. log_join a b (Some n) = Some x \<and> log_length x = min n (card (stored a \<union> stored b)) \<and>
    length (log_entries x) = log_length x \<and> stored x \<subseteq> stored a \<union> stored b \<and>
    (\<forall>e\<in>stored x. \<forall>d\<in>(stored a \<union> stored b) - stored x. clock d \<le> clock e)"
proof -
  define m where "m = join_merge a b"
  have wf: "log_wf m" unfolding m_def using assms by (intro log_wf_join_merge)
  have st: "stored m = stored a \<union> stored b"
    unfolding m_def by (rule stored_join_union [OF assms(1,2,7,5,4)])
  have sf: "log_sort_fn m = no_zeroes last_write_wins"
    using assms(8) by (simp add: m_def join_merge_def Let_def)
  note tr = truncate_log_facts [OF wf causal_union(1) [OF assms(7,3,4,5,6) st] sf, where n = n]
  have "log_join a b (Some n) = Some ((truncate_log n m)\<lparr>log_clock :=
      set_time (max_time 0 (log_heads (truncate_log n m))) (clock_new (clock_id (log_clock (truncate_log n m))))\<rparr>)"
    using assms(7) by (simp add: log_join_def mergeable_def Let_def m_def)
  then show ?thesis using tr unfolding st by simp
qed

theorem log_join_bounded_witness:
  "\<exists>x. log_join demo_log demo_side (Some 2) = Some x \<and> log_length x = 2"
proof -
  have "card (stored demo_log \<union> stored demo_side) = 4"
    by (simp add: stored_demo stored_side entry_empty_def card_insert_if)
  then show ?thesis
    using log_join_bounded [OF log_wf_demo log_wf_side causal_demo demo_join sort_fn_demo, of 2] by auto
qed

subsection \<open>Joining into a log with gaps\<close>

text \<open>
  \<^verbatim>\<open>diff\<close> walks from the heads and stops at every entry the other log already has: an entry that
  is missing behind one the other log has (a gap) is never reported, though the documentation of
  \<^verbatim>\<open>diff\<close> promises all entries contained in one log but not in the other.
\<close>

definition demo_gap :: oplog where
  "demo_gap = add_entries
     [entry_empty\<lparr>hash := 4, next_hashes := [1], clock := LamportClock ''c'' 5\<rparr>] empty_log"

lemma diff_misses_gap:
  "log_diff demo_side demo_gap = []" "log_get demo_side 1 \<noteq> None" "log_get demo_gap 1 = None"
  by code_simp+

end
