(* ===== verification/Guardian_Text.thy ===== *)
theory Guardian_Text
  imports Guardian_Prelude
begin

text \<open>
  Text operations of the Rust standard library that several components share: decimal printing
  and reading of integers, \<^verbatim>\<open>str::split\<close> at a character and \<^verbatim>\<open>join\<close>, with their round trips.
\<close>

subsection \<open>Decimal numbers\<close>

definition digit_char :: "nat \<Rightarrow> char" where
  "digit_char d = char_of (48 + d)"

fun show_nat :: "nat \<Rightarrow> string" where
  "show_nat n = (if n < 10 then [digit_char n] else show_nat (n div 10) @ [digit_char (n mod 10)])"

declare show_nat.simps [simp del]

definition show_int :: "int \<Rightarrow> string" where
  "show_int i = (if i < 0 then CHR ''-'' # show_nat (nat (- i)) else show_nat (nat i))"

definition is_digit :: "char \<Rightarrow> bool" where
  "is_digit c \<longleftrightarrow> 48 \<le> (of_char c :: nat) \<and> (of_char c :: nat) \<le> 57"

definition digit_value :: "char \<Rightarrow> nat" where
  "digit_value c = of_char c - 48"

definition read_nat :: "string \<Rightarrow> nat" where
  "read_nat s = foldl (\<lambda>n c. n * 10 + digit_value c) 0 s"

lemma digit_char [simp]:
  assumes "d < 10"
  shows "is_digit (digit_char d)" "digit_value (digit_char d) = d"
  using assms by (simp_all add: is_digit_def digit_value_def digit_char_def)

lemma read_show_nat [simp]: "read_nat (show_nat n) = n"
proof (induction n rule: show_nat.induct)
  case (1 n)
  show ?case
  proof (cases "n < 10")
    case True
    then show ?thesis by (subst show_nat.simps) (simp add: read_nat_def)
  next
    case False
    then have "read_nat (show_nat n) = read_nat (show_nat (n div 10)) * 10 + n mod 10"
      by (subst show_nat.simps) (simp add: read_nat_def)
    with 1 False show ?thesis by simp
  qed
qed

lemma show_nat_inj [simp]: "show_nat m = show_nat n \<longleftrightarrow> m = n"
  by (metis read_show_nat)

lemma show_nat_digits: "c \<in> set (show_nat n) \<Longrightarrow> is_digit c"
proof (induction n rule: show_nat.induct)
  case (1 n)
  from 1(2) show ?case
    by (subst (asm) show_nat.simps) (auto split: if_splits intro: 1(1))
qed

lemma show_nat_nonempty [simp]: "show_nat n \<noteq> []"
  by (subst show_nat.simps) simp

subsection \<open>Splitting and joining\<close>

fun split_char :: "char \<Rightarrow> string \<Rightarrow> string list" where
  "split_char c [] = [[]]"
| "split_char c (x # xs) =
     (if x = c then [] # split_char c xs
      else case split_char c xs of [] \<Rightarrow> [[x]] | w # ws \<Rightarrow> (x # w) # ws)"

fun join_char :: "char \<Rightarrow> string list \<Rightarrow> string" where
  "join_char c [] = []"
| "join_char c [w] = w"
| "join_char c (w # v # ws) = w @ c # join_char c (v # ws)"

lemma split_char_nonempty [simp]: "split_char c s \<noteq> []"
  by (induction s) (auto split: list.splits)

lemma join_split_char [simp]: "join_char c (split_char c s) = s"
proof (induction s)
  case (Cons x xs)
  obtain w ws where ws: "split_char c xs = w # ws" by (cases "split_char c xs") auto
  with Cons show ?case by (cases ws) auto
qed simp

lemma split_char_free: "w \<in> set (split_char c s) \<Longrightarrow> c \<notin> set w"
proof (induction s arbitrary: w)
  case (Cons x xs)
  then show ?case by (auto split: if_splits list.splits)
qed simp

lemma split_char_append: "c \<notin> set w \<Longrightarrow> split_char c (w @ c # s) = w # split_char c s"
  by (induction w) auto

lemma split_char_id: "c \<notin> set w \<Longrightarrow> split_char c w = [w]"
  by (induction w) auto

lemma split_join_char:
  "ws \<noteq> [] \<Longrightarrow> \<forall>w\<in>set ws. c \<notin> set w \<Longrightarrow> split_char c (join_char c ws) = ws"
  by (induction c ws rule: join_char.induct) (simp_all add: split_char_append split_char_id)

subsection \<open>ASCII characters\<close>

text \<open>
  Texts are ASCII strings: on these the Unicode-aware methods of \<^verbatim>\<open>char\<close> and \<^verbatim>\<open>str\<close> answer as the
  definitions below do.
\<close>

definition is_whitespace :: "char \<Rightarrow> bool" where
  "is_whitespace c \<longleftrightarrow> (9 \<le> (of_char c :: nat) \<and> (of_char c :: nat) \<le> 13) \<or> (of_char c :: nat) = 32"

definition is_upper :: "char \<Rightarrow> bool" where
  "is_upper c \<longleftrightarrow> 65 \<le> (of_char c :: nat) \<and> (of_char c :: nat) \<le> 90"

definition is_lower :: "char \<Rightarrow> bool" where
  "is_lower c \<longleftrightarrow> 97 \<le> (of_char c :: nat) \<and> (of_char c :: nat) \<le> 122"

definition is_alphanumeric :: "char \<Rightarrow> bool" where
  "is_alphanumeric c \<longleftrightarrow> is_upper c \<or> is_lower c \<or> is_digit c"

definition lower_char :: "char \<Rightarrow> char" where
  "lower_char c = (if is_upper c then char_of ((of_char c :: nat) + 32) else c)"

definition to_lowercase :: "string \<Rightarrow> string" where
  "to_lowercase s = map lower_char s"

definition eq_ignore_ascii_case :: "string \<Rightarrow> string \<Rightarrow> bool" where
  "eq_ignore_ascii_case s t \<longleftrightarrow> to_lowercase s = to_lowercase t"

lemma lower_char_lower [simp]: "\<not> is_upper (lower_char c)"
  by (simp add: lower_char_def is_upper_def)

lemma lower_char_idem [simp]: "lower_char (lower_char c) = lower_char c"
  by (subst lower_char_def) simp

lemma to_lowercase_idem [simp]: "to_lowercase (to_lowercase s) = to_lowercase s"
  by (simp add: to_lowercase_def)

lemma digit_plain:
  assumes "is_digit c"
  shows "\<not> is_whitespace c" "\<not> is_upper c" "lower_char c = c" "is_alphanumeric c"
  using assms by (auto simp: is_digit_def is_whitespace_def is_upper_def lower_char_def is_alphanumeric_def)

lemma alphanumeric_not_whitespace: "is_alphanumeric c \<Longrightarrow> \<not> is_whitespace c"
  by (auto simp: is_alphanumeric_def is_whitespace_def is_upper_def is_lower_def is_digit_def)

subsection \<open>Trimming, prefixes and suffixes\<close>

definition trim :: "string \<Rightarrow> string" where
  "trim s = rev (dropWhile is_whitespace (rev (dropWhile is_whitespace s)))"

definition strip_prefix :: "string \<Rightarrow> string \<Rightarrow> string option" where
  "strip_prefix p s = (if take (length p) s = p then Some (drop (length p) s) else None)"

definition strip_suffix :: "string \<Rightarrow> string \<Rightarrow> string option" where
  "strip_suffix p s = map_option rev (strip_prefix (rev p) (rev s))"

definition trim_end_matches :: "char \<Rightarrow> string \<Rightarrow> string" where
  "trim_end_matches c s = rev (dropWhile (\<lambda>x. x = c) (rev s))"

definition split_once :: "char \<Rightarrow> string \<Rightarrow> (string \<times> string) option" where
  "split_once c s =
     (case dropWhile (\<lambda>x. x \<noteq> c) s of [] \<Rightarrow> None | _ # rest \<Rightarrow> Some (takeWhile (\<lambda>x. x \<noteq> c) s, rest))"

lemma dropWhile_same: "s = [] \<or> \<not> P (hd s) \<Longrightarrow> dropWhile P s = s"
  by (cases s) auto

lemma trim_same: "s = [] \<or> (\<not> is_whitespace (hd s) \<and> \<not> is_whitespace (last s)) \<Longrightarrow> trim s = s"
  by (auto simp: trim_def dropWhile_same hd_rev)

lemma trim_free: "\<forall>c\<in>set s. \<not> is_whitespace c \<Longrightarrow> trim s = s"
  by (rule trim_same) (cases s; auto)

lemma hd_trim: "trim s \<noteq> [] \<Longrightarrow> \<not> is_whitespace (hd (trim s)) \<and> \<not> is_whitespace (last (trim s))"
proof -
  define t where "t = dropWhile is_whitespace s"
  assume "trim s \<noteq> []"
  then have ne: "dropWhile is_whitespace (rev t) \<noteq> []" by (simp add: trim_def t_def)
  then have l: "\<not> is_whitespace (hd (dropWhile is_whitespace (rev t)))" by (rule hd_dropWhile)
  have "t \<noteq> []" using ne by auto
  then have h: "\<not> is_whitespace (hd t)" unfolding t_def by (rule hd_dropWhile)
  obtain u where u: "t = rev (dropWhile is_whitespace (rev t)) @ u"
    by (metis rev_append rev_rev_ident takeWhile_dropWhile_id)
  then have "hd (rev (dropWhile is_whitespace (rev t))) = hd t"
    using ne by (metis hd_append2 rev_is_Nil_conv)
  with h l ne show ?thesis by (simp add: trim_def t_def [symmetric] last_rev)
qed

lemma trim_trim [simp]: "trim (trim s) = trim s"
  using hd_trim by (intro trim_same) blast

lemma length_trim: "length (trim s) \<le> length s"
  unfolding trim_def by (metis le_trans length_dropWhile_le length_rev)

lemma set_trim: "set (trim s) \<subseteq> set s"
  unfolding trim_def by (auto dest!: set_dropWhileD)

lemma strip_prefix_append [simp]: "strip_prefix p (p @ s) = Some s"
  by (simp add: strip_prefix_def)

lemma strip_suffix_append [simp]: "strip_suffix p (s @ p) = Some s"
  by (simp add: strip_suffix_def strip_prefix_def)

lemma strip_prefix_SomeD: "strip_prefix p s = Some t \<Longrightarrow> s = p @ t"
  unfolding strip_prefix_def by (metis append_take_drop_id option.discI option.inject)

lemma strip_suffix_SomeD: "strip_suffix p s = Some t \<Longrightarrow> s = t @ p"
  by (auto simp: strip_suffix_def dest!: strip_prefix_SomeD) (metis rev_append rev_swap)

lemma strip_suffix_last: "p \<noteq> [] \<Longrightarrow> s \<noteq> [] \<Longrightarrow> last s \<noteq> last p \<Longrightarrow> strip_suffix p s = None"
  by (metis last_appendR not_None_eq strip_suffix_SomeD)

lemma split_once_append [simp]: "c \<notin> set s \<Longrightarrow> split_once c (s @ c # t) = Some (s, t)"
  by (auto simp: split_once_def split: list.splits dest: takeWhile_eq_all_conv [THEN iffD2]
      simp: dropWhile_append takeWhile_append)

lemma split_once_None: "c \<notin> set s \<Longrightarrow> split_once c s = None"
  by (auto simp: split_once_def split: list.splits) (metis (mono_tags, lifting) dropWhile_eq_Nil_conv list.discI)

subsection \<open>Reading unsigned integers\<close>

text \<open>\<^verbatim>\<open>str::parse\<close> at an unsigned type with largest value \<open>mx\<close>: an optional plus sign and digits.\<close>

definition parse_unsigned :: "nat \<Rightarrow> string \<Rightarrow> nat option" where
  "parse_unsigned mx s =
     (let ds = (case s of [] \<Rightarrow> [] | c # r \<Rightarrow> if c = CHR ''+'' then r else s)
      in if ds \<noteq> [] \<and> list_all is_digit ds \<and> read_nat ds \<le> mx then Some (read_nat ds) else None)"

lemma parse_unsigned_show [simp]: "n \<le> mx \<Longrightarrow> parse_unsigned mx (show_nat n) = Some n"
proof -
  assume "n \<le> mx"
  moreover have all: "list_all is_digit (show_nat n)" by (simp add: list_all_iff show_nat_digits)
  moreover have "\<not> is_digit CHR ''+''" by (simp add: is_digit_def)
  then have "hd (show_nat n) \<noteq> CHR ''+''" using all by (cases "show_nat n") auto
  then have "(case show_nat n of [] \<Rightarrow> [] | c # r \<Rightarrow> if c = CHR ''+'' then r else show_nat n) = show_nat n"
    by (cases "show_nat n") auto
  ultimately show ?thesis by (simp add: parse_unsigned_def)
qed

text \<open>\<^verbatim>\<open>str::parse\<close> at a signed type with values from \<open>lo\<close> to \<open>hi\<close>.\<close>

definition parse_signed :: "int \<Rightarrow> int \<Rightarrow> string \<Rightarrow> int option" where
  "parse_signed lo hi s =
     (let (neg, ds) = (case s of [] \<Rightarrow> (False, [])
            | c # r \<Rightarrow> if c = CHR ''-'' then (True, r) else if c = CHR ''+'' then (False, r) else (False, s));
          v = (if neg then - int (read_nat ds) else int (read_nat ds))
      in if ds \<noteq> [] \<and> list_all is_digit ds \<and> lo \<le> v \<and> v \<le> hi then Some v else None)"

lemma parse_signed_show [simp]: "lo \<le> i \<Longrightarrow> i \<le> hi \<Longrightarrow> parse_signed lo hi (show_int i) = Some i"
proof -
  assume b: "lo \<le> i" "i \<le> hi"
  have all: "list_all is_digit (show_nat n)" for n by (simp add: list_all_iff show_nat_digits)
  show ?thesis
  proof (cases "i < 0")
    case True
    with b all show ?thesis by (simp add: parse_signed_def show_int_def)
  next
    case False
    have "hd (show_nat (nat i)) \<noteq> CHR ''-''" "hd (show_nat (nat i)) \<noteq> CHR ''+''"
      using show_nat_digits [of "hd (show_nat (nat i))" "nat i"] by (auto simp: is_digit_def)
    then obtain c r where "show_nat (nat i) = c # r" "c \<noteq> CHR ''-''" "c \<noteq> CHR ''+''"
      by (cases "show_nat (nat i)") auto
    with False b all [of "nat i"] read_show_nat [of "nat i"] show ?thesis
      by (simp add: parse_signed_def show_int_def del: read_show_nat)
  qed
qed

subsection \<open>Replacing\<close>

definition replace_char :: "char \<Rightarrow> string \<Rightarrow> string \<Rightarrow> string" where
  "replace_char c r s = concat (map (\<lambda>x. if x = c then r else [x]) s)"

text \<open>\<^verbatim>\<open>str::replace\<close> of a two-character pattern.\<close>

fun replace_pair :: "char \<Rightarrow> char \<Rightarrow> string \<Rightarrow> string \<Rightarrow> string" where
  "replace_pair a b r (x # y # s) =
     (if x = a \<and> y = b then r @ replace_pair a b r s else x # replace_pair a b r (y # s))"
| "replace_pair a b r s = s"

definition trim_matches :: "char \<Rightarrow> string \<Rightarrow> string" where
  "trim_matches c s = trim_end_matches c (dropWhile (\<lambda>x. x = c) s)"

lemma replace_char_simps [simp]:
  "replace_char c r [] = []"
  "replace_char c r (x # s) = (if x = c then r else [x]) @ replace_char c r s"
  "replace_char c r (s @ t) = replace_char c r s @ replace_char c r t"
  by (simp_all add: replace_char_def)

end
