(* ===== verification/Sql_Error.thy ===== *)
theory Sql_Error
  imports Guardian_Text
begin

text \<open>
  The error type of the relational layer (\<^verbatim>\<open>src/relational/error.rs\<close>), shared by the SQL lock
  manager, the type system, the value model and the extensions, with its SQLSTATE codes.
\<close>

datatype (plugins only: code size) rel_error =
    UndefinedTable string
  | DuplicateTable string
  | UndefinedColumn string
  | DuplicateColumn string string
  | UndefinedSchema string
  | DuplicateSchema string
  | UndefinedIndex string
  | DuplicateIndex string
  | UniqueViolation string string
  | NotNullViolation string string
  | ForeignKeyViolation string string string
  | ForeignKeyViolationReferenced string string string string
  | DependentObjectsStillExist string string
  | CheckViolation string string
  | DatatypeMismatch string string string
  | InvalidTextRepresentation string string
  | NumericValueOutOfRange string
  | DivisionByZero
  | CannotCoerce string string
  | UndefinedType string
  | UndefinedObject string
  | UndefinedTsConfig string
  | DuplicateObject string
  | UndefinedFunction string
  | DuplicateFunction string
  | AmbiguousFunction string
  | InvalidFunctionDefinition string
  | InvalidObjectDefinition string
  | ObjectNotInPrerequisiteState string
  | Syntax string
  | FeatureNotSupported string
  | WindowingError string
  | InvalidRecursion string
  | RaisedException string
  | WrongObjectType string
  | StatementTooComplex string
  | InvalidParameter string
  | InvalidConstraint string
  | InsufficientPrivilege string
  | DeadlockDetected string
  | LockNotAvailable string
  | InFailedTransaction
  | Storage string
  | Internal string
  | Sidecar string string

fun sqlstate :: "rel_error \<Rightarrow> string" where
  "sqlstate (UndefinedTable _) = ''42P01''"
| "sqlstate (DuplicateTable _) = ''42P07''"
| "sqlstate (UndefinedColumn _) = ''42703''"
| "sqlstate (DuplicateColumn _ _) = ''42701''"
| "sqlstate (UndefinedSchema _) = ''3F000''"
| "sqlstate (DuplicateSchema _) = ''42P06''"
| "sqlstate (UndefinedIndex _) = ''42704''"
| "sqlstate (DuplicateIndex _) = ''42P07''"
| "sqlstate (UniqueViolation _ _) = ''23505''"
| "sqlstate (NotNullViolation _ _) = ''23502''"
| "sqlstate (ForeignKeyViolation _ _ _) = ''23503''"
| "sqlstate (ForeignKeyViolationReferenced _ _ _ _) = ''23503''"
| "sqlstate (DependentObjectsStillExist _ _) = ''2BP01''"
| "sqlstate (CheckViolation _ _) = ''23514''"
| "sqlstate (DatatypeMismatch _ _ _) = ''42804''"
| "sqlstate (InvalidTextRepresentation _ _) = ''22P02''"
| "sqlstate (NumericValueOutOfRange _) = ''22003''"
| "sqlstate DivisionByZero = ''22012''"
| "sqlstate (CannotCoerce _ _) = ''42846''"
| "sqlstate (UndefinedType _) = ''42704''"
| "sqlstate (UndefinedObject _) = ''42704''"
| "sqlstate (UndefinedTsConfig _) = ''42704''"
| "sqlstate (DuplicateObject _) = ''42710''"
| "sqlstate (UndefinedFunction _) = ''42883''"
| "sqlstate (DuplicateFunction _) = ''42723''"
| "sqlstate (AmbiguousFunction _) = ''42725''"
| "sqlstate (InvalidFunctionDefinition _) = ''42P13''"
| "sqlstate (InvalidObjectDefinition _) = ''42P17''"
| "sqlstate (ObjectNotInPrerequisiteState _) = ''55000''"
| "sqlstate (Syntax _) = ''42601''"
| "sqlstate (FeatureNotSupported _) = ''0A000''"
| "sqlstate (WindowingError _) = ''42P20''"
| "sqlstate (InvalidRecursion _) = ''42P19''"
| "sqlstate (RaisedException _) = ''P0001''"
| "sqlstate (WrongObjectType _) = ''42809''"
| "sqlstate (StatementTooComplex _) = ''54001''"
| "sqlstate (InvalidParameter _) = ''22023''"
| "sqlstate (InvalidConstraint _) = ''42P10''"
| "sqlstate (InsufficientPrivilege _) = ''42501''"
| "sqlstate (DeadlockDetected _) = ''40P01''"
| "sqlstate (LockNotAvailable _) = ''55P03''"
| "sqlstate InFailedTransaction = ''25P02''"
| "sqlstate (Storage _) = ''58030''"
| "sqlstate (Internal _) = ''XX000''"
| "sqlstate (Sidecar s _) = s"

definition severity :: "rel_error \<Rightarrow> string" where
  "severity e = ''ERROR''"

end
