(* ===== verification/Lock_Manager.thy ===== *)
theory Lock_Manager
  imports Sql_Error
begin

text \<open>
  The lock manager of the SQL gateway (src/sql/lock.rs): lock objects and modes with the conflict
  matrix, the table of granted locks and of blocked sessions (\<^verbatim>\<open>Inner\<close>), deadlock detection, the
  acquire loop and the release operations.  The mutex makes every operation below one atomic
  step; \<^verbatim>\<open>notify_waiters\<close> is a counter of notifications.
\<close>

unbundle bit_operations_syntax

type_synonym session_id = u64

subsection \<open>Objects and modes\<close>

datatype lock_object = Table u32 | Row u32 string | Advisory "64 word"

fun kind :: "lock_object \<Rightarrow> string" where
  "kind (Table _) = ''relation''"
| "kind (Row _ _) = ''tuple''"
| "kind (Advisory _) = ''advisory''"

fun describe :: "lock_object \<Rightarrow> string" where
  "describe (Table oid) = ''relation '' @ show_nat (unat oid)"
| "describe (Row oid rid) = ''row ('' @ show_nat (unat oid) @ '','' @ rid @ '')''"
| "describe (Advisory key) = ''advisory '' @ show_int (sint key)"

datatype lock_mode =
    AccessShare | RowShare | RowExclusive | ShareUpdateExclusive
  | Share | ShareRowExclusive | Exclusive | AccessExclusive
  | ForKeyShare | ForShare | ForNoKeyUpdate | ForUpdate
  | AdvisoryShared | AdvisoryExclusive

fun table_index :: "lock_mode \<Rightarrow> nat option" where
  "table_index AccessShare = Some 0"
| "table_index RowShare = Some 1"
| "table_index RowExclusive = Some 2"
| "table_index ShareUpdateExclusive = Some 3"
| "table_index Share = Some 4"
| "table_index ShareRowExclusive = Some 5"
| "table_index Exclusive = Some 6"
| "table_index AccessExclusive = Some 7"
| "table_index _ = None"

fun row_index :: "lock_mode \<Rightarrow> nat option" where
  "row_index ForKeyShare = Some 0"
| "row_index ForShare = Some 1"
| "row_index ForNoKeyUpdate = Some 2"
| "row_index ForUpdate = Some 3"
| "row_index _ = None"

fun pg_name :: "lock_mode \<Rightarrow> string" where
  "pg_name AccessShare = ''AccessShareLock''"
| "pg_name RowShare = ''RowShareLock''"
| "pg_name RowExclusive = ''RowExclusiveLock''"
| "pg_name ShareUpdateExclusive = ''ShareUpdateExclusiveLock''"
| "pg_name Share = ''ShareLock''"
| "pg_name ShareRowExclusive = ''ShareRowExclusiveLock''"
| "pg_name Exclusive = ''ExclusiveLock''"
| "pg_name AccessExclusive = ''AccessExclusiveLock''"
| "pg_name ForKeyShare = ''KeyShareLock''"
| "pg_name ForShare = ''ShareLock''"
| "pg_name ForNoKeyUpdate = ''NoKeyUpdateLock''"
| "pg_name ForUpdate = ''ExclusiveLock''"
| "pg_name AdvisoryShared = ''AdvisoryLock''"
| "pg_name AdvisoryExclusive = ''AdvisoryLock''"

definition bits :: "nat list \<Rightarrow> u8" where
  "bits is = fold (\<lambda>i w. w OR push_bit i 1) is 0"

definition TABLE :: "u8 list" where
  "TABLE =
     [bits [7],
      bits [6, 7],
      bits [4, 5, 6, 7],
      bits [3, 4, 5, 6, 7],
      bits [2, 3, 5, 6, 7],
      bits [2, 3, 4, 5, 6, 7],
      bits [1, 2, 3, 4, 5, 6, 7],
      0xFF]"

definition ROW :: "u8 list" where
  "ROW = [bits [3], bits [2, 3], bits [1, 2, 3], bits [0, 1, 2, 3]]"

definition conflicts :: "lock_mode \<Rightarrow> lock_mode \<Rightarrow> bool" where
  "conflicts m other =
     (case (table_index m, table_index other) of
        (Some a, Some b) \<Rightarrow> drop_bit b (TABLE ! a) AND 1 = 1
      | _ \<Rightarrow>
        (case (row_index m, row_index other) of
           (Some a, Some b) \<Rightarrow> drop_bit b (ROW ! a) AND 1 = 1
         | _ \<Rightarrow> m = AdvisoryExclusive \<or> other = AdvisoryExclusive))"

datatype lock_scope = Transaction | Session

datatype wait_policy = Wait | NoWait | SkipLocked

datatype acquired = Granted | Skipped

subsection \<open>The lock table\<close>

record holding =
  holder :: session_id
  mode :: lock_mode
  scope :: lock_scope

record inner =
  granted :: "(lock_object, holding list) hash_map"
  waiting :: "(session_id, lock_object \<times> lock_mode) hash_map"

definition grantable :: "inner \<Rightarrow> lock_object \<Rightarrow> lock_mode \<Rightarrow> session_id \<Rightarrow> bool" where
  "grantable s obj m h =
     (case map_of (granted s) obj of
        None \<Rightarrow> True
      | Some hs \<Rightarrow> list_all (\<lambda>x. holder x = h \<or> \<not> conflicts m (mode x)) hs)"

definition grant :: "lock_object \<Rightarrow> lock_mode \<Rightarrow> session_id \<Rightarrow> lock_scope \<Rightarrow> inner \<Rightarrow> inner" where
  "grant obj m h sc s =
     s\<lparr>granted := AList.update obj
         ((case map_of (granted s) obj of None \<Rightarrow> [] | Some hs \<Rightarrow> hs) @
          [\<lparr>holder = h, mode = m, scope = sc\<rparr>]) (granted s)\<rparr>"

definition blockers :: "inner \<Rightarrow> session_id \<Rightarrow> session_id list" where
  "blockers s who =
     (case map_of (waiting s) who of
        None \<Rightarrow> []
      | Some (obj, m) \<Rightarrow>
          (case map_of (granted s) obj of
             None \<Rightarrow> []
           | Some hs \<Rightarrow>
               remdups_adj (sort (map holder
                 (filter (\<lambda>x. holder x \<noteq> who \<and> conflicts m (mode x)) hs)))))"

lemma blockers_not_waiting: "who \<notin> fst ` set (waiting s) \<Longrightarrow> blockers s who = []"
  by (simp add: blockers_def map_of_eq_None_iff [THEN iffD2])

function deadlock_loop :: "inner \<Rightarrow> session_id \<Rightarrow> session_id set \<Rightarrow> session_id list \<Rightarrow> bool" where
  "deadlock_loop s start visited [] = False"
| "deadlock_loop s start visited (node # stack) =
     (if node = start then True
      else if node \<in> visited then deadlock_loop s start visited stack
      else deadlock_loop s start (insert node visited) (rev (blockers s node) @ stack))"
  by pat_completeness auto
termination
proof (relation "measures [\<lambda>(s, start, visited, stack). card (fst ` set (waiting s) - visited),
    \<lambda>(s, start, visited, stack). length stack]", goal_cases)
  case (3 s start visited node stack)
  show ?case
  proof (cases "node \<in> fst ` set (waiting s)")
    case True
    with 3 have "fst ` set (waiting s) - insert node visited \<subset> fst ` set (waiting s) - visited" by blast
    then have "card (fst ` set (waiting s) - insert node visited) < card (fst ` set (waiting s) - visited)"
      by (intro psubset_card_mono) simp_all
    then show ?thesis by simp
  next
    case False
    then have "fst ` set (waiting s) - insert node visited = fst ` set (waiting s) - visited" by blast
    with blockers_not_waiting [OF False] show ?thesis by simp
  qed
qed simp_all

definition deadlocked :: "inner \<Rightarrow> session_id \<Rightarrow> bool" where
  "deadlocked s start = deadlock_loop s start {} (rev (blockers s start))"

definition release_where :: "(holding \<Rightarrow> bool) \<Rightarrow> inner \<Rightarrow> inner" where
  "release_where pred s =
     s\<lparr>granted := filter (\<lambda>(obj, hs). hs \<noteq> [])
         (map (\<lambda>(obj, hs). (obj, filter (\<lambda>h. \<not> pred h) hs)) (granted s))\<rparr>"

subsection \<open>The lock manager\<close>

record lock_manager =
  inner_of :: inner
  notify :: nat
  next_session :: u64

definition lock_manager_new :: lock_manager where
  "lock_manager_new = \<lparr>inner_of = \<lparr>granted = [], waiting = []\<rparr>, notify = 0, next_session = 1\<rparr>"

definition new_session :: "lock_manager \<Rightarrow> session_id \<times> lock_manager" where
  "new_session lm = (next_session lm, lm\<lparr>next_session := next_session lm + 1\<rparr>)"

definition try_acquire ::
  "session_id \<Rightarrow> lock_object \<Rightarrow> lock_mode \<Rightarrow> lock_scope \<Rightarrow> lock_manager \<Rightarrow> bool \<times> lock_manager" where
  "try_acquire h obj m sc lm =
     (if grantable (inner_of lm) obj m h
      then (True, lm\<lparr>inner_of := grant obj m h sc (inner_of lm)\<rparr>) else (False, lm))"

definition is_conflicting :: "session_id \<Rightarrow> lock_object \<Rightarrow> lock_mode \<Rightarrow> lock_manager \<Rightarrow> bool" where
  "is_conflicting h obj m lm \<longleftrightarrow> \<not> grantable (inner_of lm) obj m h"

definition stop_waiting :: "session_id \<Rightarrow> inner \<Rightarrow> inner" where
  "stop_waiting h s = s\<lparr>waiting := AList.delete h (waiting s)\<rparr>"

definition start_waiting :: "session_id \<Rightarrow> lock_object \<Rightarrow> lock_mode \<Rightarrow> inner \<Rightarrow> inner" where
  "start_waiting h obj m s = s\<lparr>waiting := AList.update h (obj, m) (waiting s)\<rparr>"

text \<open>
  One iteration of the acquire loop under the mutex: the result when the loop returns there, and
  None when the session goes on to await a notification.
\<close>

definition acquire_attempt ::
  "session_id \<Rightarrow> lock_object \<Rightarrow> lock_mode \<Rightarrow> lock_scope \<Rightarrow> wait_policy \<Rightarrow> lock_manager \<Rightarrow>
   (rel_error + acquired) option \<times> lock_manager" where
  "acquire_attempt h obj m sc wait lm =
     (let s = inner_of lm in
      if grantable s obj m h
      then (Some (Inr Granted), lm\<lparr>inner_of := stop_waiting h (grant obj m h sc s)\<rparr>)
      else case wait of
        NoWait \<Rightarrow> (Some (Inl (LockNotAvailable (describe obj))), lm\<lparr>inner_of := stop_waiting h s\<rparr>)
      | SkipLocked \<Rightarrow> (Some (Inr Skipped), lm\<lparr>inner_of := stop_waiting h s\<rparr>)
      | Wait \<Rightarrow>
          (let s' = start_waiting h obj m s in
           if deadlocked s' h
           then (Some (Inl (DeadlockDetected
                   (''process '' @ show_nat (unat h) @ '' waits for '' @ describe obj @
                    ''; a cycle was found''))),
                 lm\<lparr>inner_of := stop_waiting h s'\<rparr>)
           else (None, lm\<lparr>inner_of := s'\<rparr>)))"

definition acquire_timeout ::
  "session_id \<Rightarrow> lock_object \<Rightarrow> lock_manager \<Rightarrow> (rel_error + acquired) option \<times> lock_manager" where
  "acquire_timeout h obj lm =
     (Some (Inl (LockNotAvailable (''lock timeout on '' @ describe obj))),
      lm\<lparr>inner_of := stop_waiting h (inner_of lm)\<rparr>)"

text \<open>
  The acquire loop.  The list says what happens at each await: None when the deadline has passed,
  Some \<open>f\<close> when the session is woken after the other sessions changed the manager by \<open>f\<close>.
  The result None means that the session is still blocked when the list ends.
\<close>

fun acquire ::
  "session_id \<Rightarrow> lock_object \<Rightarrow> lock_mode \<Rightarrow> lock_scope \<Rightarrow> wait_policy \<Rightarrow>
   (lock_manager \<Rightarrow> lock_manager) option list \<Rightarrow> lock_manager \<Rightarrow>
   (rel_error + acquired) option \<times> lock_manager" where
  "acquire h obj m sc wait [] lm = acquire_attempt h obj m sc wait lm"
| "acquire h obj m sc wait (a # awaits) lm =
     (case acquire_attempt h obj m sc wait lm of
        (Some r, lm') \<Rightarrow> (Some r, lm')
      | (None, lm') \<Rightarrow>
          (case a of
             None \<Rightarrow> acquire_timeout h obj lm'
           | Some f \<Rightarrow> acquire h obj m sc wait awaits (f lm')))"

definition notify_waiters :: "lock_manager \<Rightarrow> lock_manager" where
  "notify_waiters lm = lm\<lparr>notify := notify lm + 1\<rparr>"

fun remove_first :: "('a \<Rightarrow> bool) \<Rightarrow> 'a list \<Rightarrow> 'a list" where
  "remove_first p [] = []"
| "remove_first p (x # xs) = (if p x then xs else x # remove_first p xs)"

definition release_one ::
  "session_id \<Rightarrow> lock_object \<Rightarrow> lock_mode \<Rightarrow> lock_manager \<Rightarrow> bool \<times> lock_manager" where
  "release_one h obj m lm =
     (case map_of (granted (inner_of lm)) obj of
        None \<Rightarrow> (False, lm)
      | Some hs \<Rightarrow>
          (let mine = (\<lambda>x. holder x = h \<and> mode x = m);
               removed = list_ex mine hs;
               hs' = remove_first mine hs;
               g = (if hs' = [] then AList.delete obj (granted (inner_of lm))
                    else AList.update obj hs' (granted (inner_of lm)));
               lm' = lm\<lparr>inner_of := (inner_of lm)\<lparr>granted := g\<rparr>\<rparr>
           in (removed, if removed then notify_waiters lm' else lm')))"

definition release_transaction :: "session_id \<Rightarrow> lock_manager \<Rightarrow> lock_manager" where
  "release_transaction h lm =
     notify_waiters (lm\<lparr>inner_of := stop_waiting h
       (release_where (\<lambda>x. holder x = h \<and> scope x = Transaction) (inner_of lm))\<rparr>)"

definition release_session_advisory :: "session_id \<Rightarrow> lock_manager \<Rightarrow> lock_manager" where
  "release_session_advisory h lm =
     notify_waiters (lm\<lparr>inner_of :=
       release_where (\<lambda>x. holder x = h \<and> scope x = Session) (inner_of lm)\<rparr>)"

definition release_session :: "session_id \<Rightarrow> lock_manager \<Rightarrow> lock_manager" where
  "release_session h lm =
     notify_waiters (lm\<lparr>inner_of := stop_waiting h
       (release_where (\<lambda>x. holder x = h) (inner_of lm))\<rparr>)"

record lock_record =
  rec_locktype :: string
  rec_object :: string
  rec_mode :: string
  rec_holder :: session_id
  rec_granted :: bool

definition snapshot :: "lock_manager \<Rightarrow> lock_record list" where
  "snapshot lm =
     concat (map (\<lambda>(obj, hs). map (\<lambda>h.
       \<lparr>rec_locktype = kind obj, rec_object = describe obj, rec_mode = pg_name (mode h),
        rec_holder = holder h, rec_granted = True\<rparr>) hs) (granted (inner_of lm))) @
     map (\<lambda>(h, obj, m).
       \<lparr>rec_locktype = kind obj, rec_object = describe obj, rec_mode = pg_name m,
        rec_holder = h, rec_granted = False\<rparr>) (waiting (inner_of lm))"

end
