(* ===== verification/Lock_Correct.thy ===== *)
theory Lock_Correct
  imports Lock_Manager
begin

text \<open>
  Correctness of the lock manager: the conflict matrix is PostgreSQL's and is symmetric; no two
  sessions ever hold conflicting locks; the deadlock search decides membership in a cycle of the
  wait-for graph, which stays acyclic; releases wake the waiters and free what they promise.
\<close>

subsection \<open>The conflict matrix\<close>

text \<open>
  The tables of the PostgreSQL documentation (explicit locking): for each mode, the modes it
  conflicts with.
\<close>

fun pg_conflicts :: "lock_mode \<Rightarrow> lock_mode list" where
  "pg_conflicts AccessShare = [AccessExclusive]"
| "pg_conflicts RowShare = [Exclusive, AccessExclusive]"
| "pg_conflicts RowExclusive = [Share, ShareRowExclusive, Exclusive, AccessExclusive]"
| "pg_conflicts ShareUpdateExclusive =
     [ShareUpdateExclusive, Share, ShareRowExclusive, Exclusive, AccessExclusive]"
| "pg_conflicts Share =
     [RowExclusive, ShareUpdateExclusive, ShareRowExclusive, Exclusive, AccessExclusive]"
| "pg_conflicts ShareRowExclusive =
     [RowExclusive, ShareUpdateExclusive, Share, ShareRowExclusive, Exclusive, AccessExclusive]"
| "pg_conflicts Exclusive =
     [RowShare, RowExclusive, ShareUpdateExclusive, Share, ShareRowExclusive, Exclusive, AccessExclusive]"
| "pg_conflicts AccessExclusive =
     [AccessShare, RowShare, RowExclusive, ShareUpdateExclusive, Share, ShareRowExclusive, Exclusive,
      AccessExclusive]"
| "pg_conflicts ForKeyShare = [ForUpdate]"
| "pg_conflicts ForShare = [ForNoKeyUpdate, ForUpdate]"
| "pg_conflicts ForNoKeyUpdate = [ForShare, ForNoKeyUpdate, ForUpdate]"
| "pg_conflicts ForUpdate = [ForKeyShare, ForShare, ForNoKeyUpdate, ForUpdate]"
| "pg_conflicts AdvisoryShared = [AdvisoryExclusive]"
| "pg_conflicts AdvisoryExclusive = [AdvisoryShared, AdvisoryExclusive]"

fun mode_class :: "lock_mode \<Rightarrow> nat" where
  "mode_class m = (if table_index m \<noteq> None then 0 else if row_index m \<noteq> None then 1 else 2)"

lemma TABLE_values: "TABLE = [128, 192, 240, 248, 236, 252, 254, 255]"
  by (simp add: TABLE_def bits_def)

lemma ROW_values: "ROW = [8, 12, 14, 15]"
  by (simp add: ROW_def bits_def)

lemma conflicts_table:
  "mode_class a = mode_class b \<Longrightarrow> conflicts a b = (b \<in> set (pg_conflicts a))"
  by (cases a; cases b; simp add: conflicts_def TABLE_values ROW_values)

lemma conflicts_sym: "conflicts a b = conflicts b a"
  by (cases a; cases b; simp add: conflicts_def TABLE_values ROW_values)

text \<open>
  On modes of one kind (table, row or advisory) the bit tables of \<^verbatim>\<open>conflicts\<close> are exactly
  PostgreSQL's conflict tables, and \<^verbatim>\<open>conflicts\<close> is symmetric on all modes.
\<close>

theorem conflicts_postgres:
  "(mode_class a = mode_class b \<longrightarrow> conflicts a b = (b \<in> set (pg_conflicts a))) \<and>
   conflicts a b = conflicts b a"
  using conflicts_table conflicts_sym by blast

theorem conflicts_postgres_witness:
  "conflicts Share RowExclusive \<and> conflicts RowExclusive Share"
  using conflicts_postgres [of Share RowExclusive] by auto

subsection \<open>Locks held on an object\<close>

definition held :: "inner \<Rightarrow> lock_object \<Rightarrow> holding list" where
  "held s obj = (case map_of (granted s) obj of None \<Rightarrow> [] | Some hs \<Rightarrow> hs)"

definition lock_wf :: "inner \<Rightarrow> bool" where
  "lock_wf s \<longleftrightarrow> hash_wf (granted s) \<and> hash_wf (waiting s) \<and> (\<forall>(obj, hs)\<in>set (granted s). hs \<noteq> [])"

definition exclusive :: "inner \<Rightarrow> bool" where
  "exclusive s \<longleftrightarrow>
     (\<forall>obj. \<forall>x\<in>set (held s obj). \<forall>y\<in>set (held s obj). holder x \<noteq> holder y \<longrightarrow> \<not> conflicts (mode x) (mode y))"

lemma lock_wfD:
  assumes "lock_wf s"
  shows "hash_wf (granted s)" "hash_wf (waiting s)" "(obj, hs) \<in> set (granted s) \<Longrightarrow> hs \<noteq> []"
  using assms by (auto simp: lock_wf_def)

lemma grantable_iff:
  "grantable s obj m h \<longleftrightarrow> (\<forall>x\<in>set (held s obj). holder x = h \<or> \<not> conflicts m (mode x))"
  by (auto simp: grantable_def held_def list_all_iff split: option.splits)

lemma held_grant:
  "held (grant obj m h sc s) obj' =
     (if obj' = obj then held s obj @ [\<lparr>holder = h, mode = m, scope = sc\<rparr>] else held s obj')"
  by (simp add: held_def grant_def update_conv')

lemma held_waiting [simp]:
  "held (stop_waiting h s) = held s" "held (start_waiting h obj m s) = held s"
  by (simp_all add: held_def fun_eq_iff stop_waiting_def start_waiting_def)

lemma map_of_filter_wf:
  "hash_wf m \<Longrightarrow> map_of (filter (\<lambda>(k, v). p v) m) k =
     (case map_of m k of None \<Rightarrow> None | Some v \<Rightarrow> if p v then Some v else None)"
proof (induction m)
  case (Cons x m)
  then have "map_of m (fst x) = None" by (auto simp: hash_wf_def map_of_eq_None_iff)
  with Cons show ?case by (auto simp: hash_wf_def split: option.splits)
qed simp

lemma fst_map_snd: "map fst (map (\<lambda>(k, v). (k, f v)) m) = map fst m"
  by (induction m) auto

lemma held_release_where:
  assumes "hash_wf (granted s)"
  shows "held (release_where p s) obj = filter (\<lambda>h. \<not> p h) (held s obj)"
proof -
  let ?m = "map (\<lambda>(obj, hs). (obj, filter (\<lambda>h. \<not> p h) hs)) (granted s)"
  have "hash_wf ?m" using assms unfolding hash_wf_def fst_map_snd .
  then show ?thesis
    by (simp add: held_def release_where_def map_of_filter_wf map_of_map split: option.splits)
qed

lemma set_remove_first: "set (remove_first p xs) \<subseteq> set xs"
  by (induction xs) auto

lemma held_release_one:
  "held (inner_of (snd (release_one h obj m lm))) obj' =
    (if obj' = obj then remove_first (\<lambda>x. holder x = h \<and> mode x = m) (held (inner_of lm) obj)
     else held (inner_of lm) obj')"
  by (auto simp: release_one_def held_def Let_def notify_waiters_def update_conv' delete_conv'
      split: option.splits)

subsection \<open>Every operation keeps the table well-formed\<close>

lemma lock_wf_grant: "lock_wf s \<Longrightarrow> lock_wf (grant obj m h sc s)"
proof -
  have set_update: "set (AList.update k v xs) \<subseteq> insert (k, v) (set xs)" for k v and xs :: "('x \<times> 'y) list"
    by (induction xs) auto
  assume "lock_wf s"
  then show ?thesis
    using set_update [of obj "held s obj @ [\<lparr>holder = h, mode = m, scope = sc\<rparr>]" "granted s"]
    by (auto simp: lock_wf_def grant_def held_def)
qed

lemma lock_wf_stop_waiting [simp]: "lock_wf s \<Longrightarrow> lock_wf (stop_waiting h s)"
  by (simp add: lock_wf_def stop_waiting_def)

lemma lock_wf_start_waiting [simp]: "lock_wf s \<Longrightarrow> lock_wf (start_waiting h obj m s)"
  by (simp add: lock_wf_def start_waiting_def)

lemma lock_wf_release_where: "lock_wf s \<Longrightarrow> lock_wf (release_where p s)"
proof -
  assume "lock_wf s"
  then have "hash_wf (map (\<lambda>(obj, hs). (obj, filter (\<lambda>h. \<not> p h) hs)) (granted s))"
    unfolding lock_wf_def hash_wf_def fst_map_snd by blast
  with \<open>lock_wf s\<close> show ?thesis
    by (auto simp: lock_wf_def release_where_def hash_wf_def distinct_map_filter)
qed

subsection \<open>The wait-for graph\<close>

definition waits_for :: "inner \<Rightarrow> (session_id \<times> session_id) set" where
  "waits_for s = {(w, b). b \<in> set (blockers s w)}"

lemma waits_for_iff:
  "(w, b) \<in> waits_for s \<longleftrightarrow>
     (\<exists>obj m. map_of (waiting s) w = Some (obj, m) \<and> b \<noteq> w \<and>
        (\<exists>x\<in>set (held s obj). holder x = b \<and> conflicts m (mode x)))"
proof (cases "map_of (waiting s) w")
  case (Some p)
  obtain obj m where "p = (obj, m)" by (cases p)
  with Some show ?thesis
    by (cases "map_of (granted s) obj") (auto simp: waits_for_def blockers_def held_def)
qed (simp add: waits_for_def blockers_def)

lemma closed_set_escape:
  assumes "R `` A \<subseteq> A \<union> S" "x \<in> A" "(x, t) \<in> R\<^sup>*" "t \<notin> A"
  shows "\<exists>y\<in>S. (y, t) \<in> R\<^sup>*"
  using assms(3,2)
proof (induction rule: converse_rtrancl_induct)
  case base
  with assms(4) show ?case by simp
next
  case (step y z)
  with assms(1) show ?case by blast
qed

lemma deadlock_loop_iff:
  assumes "start \<notin> visited" "waits_for s `` visited \<subseteq> visited \<union> set stack"
  shows "deadlock_loop s start visited stack \<longleftrightarrow> (\<exists>x\<in>set stack. (x, start) \<in> (waits_for s)\<^sup>*)"
  using assms
proof (induction s start visited stack rule: deadlock_loop.induct)
  case (2 s start visited node stack)
  show ?case
  proof (cases "node = start")
    case True
    then show ?thesis by simp
  next
    case ne: False
    show ?thesis
    proof (cases "node \<in> visited")
      case True
      then have inv: "waits_for s `` visited \<subseteq> visited \<union> set stack" using 2(4) by auto
      have "\<exists>y\<in>set stack. (y, start) \<in> (waits_for s)\<^sup>*" if "(node, start) \<in> (waits_for s)\<^sup>*"
        using closed_set_escape [OF inv True that 2(3)] .
      then show ?thesis using ne True 2(1) [OF ne True 2(3) inv] by auto
    next
      case False
      let ?stack = "rev (blockers s node) @ stack"
      have "waits_for s `` insert node visited \<subseteq> insert node visited \<union> set ?stack"
        using 2(4) by (auto simp: waits_for_def)
      from 2(2) [OF ne False _ this] ne 2(3)
      have "deadlock_loop s start (insert node visited) ?stack \<longleftrightarrow>
          (\<exists>x\<in>set ?stack. (x, start) \<in> (waits_for s)\<^sup>*)" by simp
      moreover have "(node, start) \<in> (waits_for s)\<^sup>* \<longleftrightarrow>
          (\<exists>x\<in>set (blockers s node). (x, start) \<in> (waits_for s)\<^sup>*)"
        using ne by (auto simp: waits_for_def elim: converse_rtranclE intro: converse_rtrancl_into_rtrancl)
      ultimately show ?thesis using ne False by auto
    qed
  qed
qed simp

lemma deadlocked_iff: "deadlocked s start \<longleftrightarrow> (start, start) \<in> (waits_for s)\<^sup>+"
  unfolding deadlocked_def
  by (subst deadlock_loop_iff)
    (auto simp: waits_for_def elim: converse_tranclE intro: rtrancl_into_trancl2 dest: tranclD)

text \<open>
  C20: the deadlock search answers true exactly when the session is on a cycle of the wait-for
  graph (it is reachable from one of the sessions it waits behind).
\<close>

theorem deadlock_search_correct:
  "deadlocked s start \<longleftrightarrow> (\<exists>b. (start, b) \<in> waits_for s \<and> (b, start) \<in> (waits_for s)\<^sup>*)"
  by (metis deadlocked_iff rtrancl_into_trancl2 tranclD)

lemma acyclic_sink:
  assumes "acyclic R" "S \<subseteq> R \<union> UNIV \<times> {h}" "h \<notin> Domain S"
  shows "acyclic S"
proof (rule acyclicI, intro allI notI)
  fix x
  assume cyc: "(x, x) \<in> S\<^sup>+"
  have "y = h \<or> (x, y) \<in> R\<^sup>+" if "(x, y) \<in> S\<^sup>+" for y
    using that
  proof induction
    case (step y z)
    then have "y \<noteq> h" using assms(3) by blast
    with step assms(2) show ?case by (auto intro: trancl_into_trancl)
  qed (use assms(2) in auto)
  from this [OF cyc] show False
  proof
    assume "x = h"
    then show False using cyc assms(3) by (metis Domain.intros tranclD)
  next
    assume "(x, x) \<in> R\<^sup>+"
    then show False using assms(1) by (simp add: acyclic_def)
  qed
qed

lemma acyclic_source:
  assumes "acyclic R" "S \<subseteq> R \<union> {h} \<times> UNIV" "(h, h) \<notin> S\<^sup>+"
  shows "acyclic S"
proof (rule acyclicI, intro allI notI)
  fix x
  assume cyc: "(x, x) \<in> S\<^sup>+"
  have "(x, y) \<in> R\<^sup>+ \<or> (x, h) \<in> S\<^sup>* \<and> (h, y) \<in> S\<^sup>+" if "(x, y) \<in> S\<^sup>+" for y
    using that
  proof induction
    case (step y z)
    show ?case
    proof (cases "y = h")
      case True
      with step.hyps show ?thesis by (meson r_into_trancl' trancl_into_rtrancl)
    next
      case False
      with step.hyps(2) assms(2) have "(y, z) \<in> R" by blast
      with step show ?thesis by (meson trancl_into_trancl)
    qed
  qed (use assms(2) in auto)
  from this [OF cyc] assms(1,3) show False
    by (meson acyclic_def trancl_rtrancl_trancl)
qed

subsection \<open>Reachable states\<close>

text \<open>
  The steps of the manager, in any interleaving of the sessions.  A session runs one statement at
  a time: while it waits it only retries that request, times out, or is torn down.
\<close>

inductive lock_step :: "lock_manager \<Rightarrow> lock_manager \<Rightarrow> bool" where
  step_new_session: "lock_step lm (snd (new_session lm))"
| step_try_acquire: "map_of (waiting (inner_of lm)) h = None \<Longrightarrow>
    lock_step lm (snd (try_acquire h obj m sc lm))"
| step_attempt: "map_of (waiting (inner_of lm)) h \<in> {None, Some (obj, m)} \<Longrightarrow>
    lock_step lm (snd (acquire_attempt h obj m sc wait lm))"
| step_timeout: "lock_step lm (snd (acquire_timeout h obj lm))"
| step_release_one: "lock_step lm (snd (release_one h obj m lm))"
| step_release_transaction: "lock_step lm (release_transaction h lm)"
| step_release_session_advisory: "lock_step lm (release_session_advisory h lm)"
| step_release_session: "lock_step lm (release_session h lm)"

inductive lock_reachable :: "lock_manager \<Rightarrow> bool" where
  lock_init: "lock_reachable lock_manager_new"
| lock_steps: "lock_reachable lm \<Longrightarrow> lock_step lm lm' \<Longrightarrow> lock_reachable lm'"

inductive_cases lock_stepE: "lock_step lm lm'"

definition lock_inv :: "inner \<Rightarrow> bool" where
  "lock_inv s \<longleftrightarrow> lock_wf s \<and> exclusive s \<and> acyclic (waits_for s)"

lemma exclusive_mono:
  assumes "exclusive s" "\<And>obj. set (held s' obj) \<subseteq> set (held s obj)"
  shows "exclusive s'"
  using assms unfolding exclusive_def by blast

lemma waits_for_mono:
  assumes "\<And>obj. set (held s' obj) \<subseteq> set (held s obj)"
    "\<And>w p. map_of (waiting s') w = Some p \<Longrightarrow> map_of (waiting s) w = Some p"
  shows "waits_for s' \<subseteq> waits_for s"
  using assms unfolding waits_for_iff subset_eq by (auto simp: waits_for_iff) blast

text \<open>Releasing locks or leaving the queue never hurts.\<close>

lemma lock_inv_shrink:
  assumes "lock_inv s" "lock_wf s'" "\<And>obj. set (held s' obj) \<subseteq> set (held s obj)"
    "\<And>w p. map_of (waiting s') w = Some p \<Longrightarrow> map_of (waiting s) w = Some p"
  shows "lock_inv s'"
  using assms(1,2) exclusive_mono [OF _ assms(3)] acyclic_subset [OF _ waits_for_mono [OF assms(3,4)]]
  by (simp add: lock_inv_def)

lemma lock_inv_stop_waiting: "lock_inv s \<Longrightarrow> lock_inv (stop_waiting h s)"
  by (rule lock_inv_shrink, assumption)
    (auto simp: lock_inv_def stop_waiting_def held_def delete_conv' lock_wf_def split: if_splits)

lemma lock_inv_release_where: "lock_inv s \<Longrightarrow> lock_inv (release_where p s)"
  by (rule lock_inv_shrink, assumption)
    (auto simp: lock_inv_def lock_wf_release_where held_release_where lock_wfD(1),
     simp add: release_where_def)

lemma exclusive_grant:
  assumes "exclusive s" "grantable s obj m h"
  shows "exclusive (grant obj m h sc s)"
  using assms unfolding exclusive_def held_grant grantable_iff by (auto simp: conflicts_sym)

lemma lock_inv_grant:
  assumes "lock_inv s" "grantable s obj m h" "map_of (waiting s) h \<in> {None, Some (obj, m)}"
  shows "lock_inv (stop_waiting h (grant obj m h sc s))"
proof -
  let ?s = "stop_waiting h (grant obj m h sc s)"
  have wait: "map_of (waiting ?s) w = (if w = h then None else map_of (waiting s) w)" for w
    by (simp add: stop_waiting_def grant_def delete_conv')
  have held: "set (held ?s o') \<subseteq> insert \<lparr>holder = h, mode = m, scope = sc\<rparr> (set (held s o'))" for o'
    by (auto simp: held_grant)
  have edges: "waits_for ?s \<subseteq> waits_for s \<union> UNIV \<times> {h}"
  proof (rule subrelI)
    fix w b
    assume "(w, b) \<in> waits_for ?s"
    then obtain o' m' x where w: "map_of (waiting s) w = Some (o', m')" "b \<noteq> w" "x \<in> set (held ?s o')"
        "holder x = b" "conflicts m' (mode x)"
      unfolding waits_for_iff wait by (auto split: if_splits)
    from held w(3) consider "holder x = h" | "x \<in> set (held s o')" by fastforce
    then show "(w, b) \<in> waits_for s \<union> UNIV \<times> {h}"
    proof cases
      case 2
      with w have "(w, b) \<in> waits_for s" unfolding waits_for_iff by blast
      then show ?thesis by simp
    qed (simp add: w(4) [symmetric])
  qed
  have sink: "h \<notin> Domain (waits_for ?s)"
    unfolding Domain_iff waits_for_iff wait by simp
  have "acyclic (waits_for s)" using assms(1) by (simp add: lock_inv_def)
  from acyclic_sink [OF this edges sink] have "acyclic (waits_for ?s)" .
  moreover have "exclusive (grant obj m h sc s)"
    using exclusive_grant [OF _ assms(2)] assms(1) by (simp add: lock_inv_def)
  then have "exclusive ?s" by (simp add: exclusive_def)
  ultimately show ?thesis using assms(1) by (simp add: lock_inv_def lock_wf_grant)
qed

lemma lock_inv_start_waiting:
  assumes "lock_inv s" "\<not> deadlocked (start_waiting h obj m s) h"
  shows "lock_inv (start_waiting h obj m s)"
proof -
  let ?s = "start_waiting h obj m s"
  have wait: "map_of (waiting ?s) w = (if w = h then Some (obj, m) else map_of (waiting s) w)" for w
    by (simp add: start_waiting_def update_conv')
  have edges: "waits_for ?s \<subseteq> waits_for s \<union> {h} \<times> UNIV"
    by (rule subrelI) (simp add: waits_for_iff wait split: if_splits)
  have "acyclic (waits_for s)" "(h, h) \<notin> (waits_for ?s)\<^sup>+"
    using assms by (simp_all add: lock_inv_def deadlocked_iff)
  from acyclic_source [OF this(1) edges this(2)] show ?thesis
    using assms(1) by (simp add: lock_inv_def exclusive_def)
qed

lemma set_alist_update: "set (AList.update k v xs) \<subseteq> insert (k, v) (set xs)"
  by (induction xs) auto

lemma set_alist_delete: "set (AList.delete k xs) \<subseteq> set xs"
  by (auto simp: AList.delete_eq)

lemma lock_inv_release_one: "lock_inv (inner_of lm) \<Longrightarrow> lock_inv (inner_of (snd (release_one h obj m lm)))"
proof (rule lock_inv_shrink, assumption)
  assume inv: "lock_inv (inner_of lm)"
  let ?s = "inner_of lm" and ?s' = "inner_of (snd (release_one h obj m lm))"
  show "set (held ?s' o') \<subseteq> set (held ?s o')" for o'
    by (simp add: held_release_one set_remove_first)
  have wait: "waiting ?s' = waiting ?s"
    by (simp add: release_one_def Let_def notify_waiters_def split: option.splits)
  then show "map_of (waiting ?s') w = Some p \<Longrightarrow> map_of (waiting ?s) w = Some p" for w p
    by simp
  have wf: "lock_wf ?s" using inv by (simp add: lock_inv_def)
  define hs' where "hs' = remove_first (\<lambda>x. holder x = h \<and> mode x = m) (held ?s obj)"
  have "granted ?s' = granted ?s \<or> granted ?s' = AList.delete obj (granted ?s) \<or>
      hs' \<noteq> [] \<and> granted ?s' = AList.update obj hs' (granted ?s)"
    by (simp add: release_one_def Let_def notify_waiters_def held_def hs'_def split: option.splits)
  then show "lock_wf ?s'"
    using wf wait set_alist_update [of obj hs' "granted ?s"] set_alist_delete [of obj "granted ?s"]
    unfolding lock_wf_def by (elim disjE conjE) (auto simp: wait)
qed

lemma inner_notify [simp]: "inner_of (notify_waiters lm) = inner_of lm"
  by (simp add: notify_waiters_def)

lemma stop_waiting_id: "map_of (waiting s) h = None \<Longrightarrow> stop_waiting h s = s"
  by (simp add: stop_waiting_def delete_id map_of_eq_None_iff)

lemma stop_start_waiting [simp]: "stop_waiting h (start_waiting h obj m s) = stop_waiting h s"
  by (simp add: stop_waiting_def start_waiting_def delete_update_same)

lemma lock_inv_step:
  assumes "lock_step lm lm'" "lock_inv (inner_of lm)"
  shows "lock_inv (inner_of lm')"
  using assms(1)
proof cases
  case step_new_session
  then show ?thesis using assms(2) by (simp add: new_session_def)
next
  case (step_try_acquire h obj m sc)
  then have "stop_waiting h (grant obj m h sc (inner_of lm)) = grant obj m h sc (inner_of lm)"
    by (intro stop_waiting_id) (simp add: grant_def)
  then show ?thesis
    using assms(2) step_try_acquire lock_inv_grant [of "inner_of lm" obj m h sc] by (simp add: try_acquire_def)
next
  case (step_attempt h obj m sc wait)
  then show ?thesis
    using assms(2) lock_inv_grant [OF assms(2) _ step_attempt(2)] lock_inv_stop_waiting
      lock_inv_start_waiting [OF assms(2)]
    by (simp add: acquire_attempt_def Let_def split: wait_policy.splits)
next
  case (step_timeout h obj)
  then show ?thesis using assms(2) lock_inv_stop_waiting by (simp add: acquire_timeout_def)
next
  case (step_release_one h obj m)
  then show ?thesis using lock_inv_release_one [OF assms(2)] by simp
qed (simp_all add: assms(2) release_transaction_def release_session_advisory_def release_session_def
      lock_inv_stop_waiting lock_inv_release_where)

lemma lock_inv_reachable: "lock_reachable lm \<Longrightarrow> lock_inv (inner_of lm)"
proof (induction rule: lock_reachable.induct)
  case lock_init
  show ?case
    by (simp add: lock_manager_new_def lock_inv_def lock_wf_def exclusive_def held_def acyclic_def
        waits_for_def blockers_def)
next
  case (lock_steps lm lm')
  then show ?case by (blast intro: lock_inv_step)
qed

subsection \<open>Safety, deadlock freedom and progress\<close>

definition demo_locks :: lock_manager where
  "demo_locks = snd (acquire_attempt 2 (Table 5) Share Transaction Wait
     (snd (try_acquire 1 (Table 5) RowExclusive Transaction lock_manager_new)))"

lemma demo_locks_reachable: "lock_reachable demo_locks"
  unfolding demo_locks_def
  by (rule lock_steps [OF lock_steps [OF lock_init step_try_acquire] step_attempt])
    (simp_all add: lock_manager_new_def try_acquire_def grantable_def grant_def)

lemma demo_locks_value:
  "demo_locks = \<lparr>inner_of =
     \<lparr>granted = [(Table 5, [\<lparr>holder = 1, mode = RowExclusive, scope = Transaction\<rparr>])],
      waiting = [(2, Table 5, Share)]\<rparr>, notify = 0, next_session = 1\<rparr>"
  by code_simp

text \<open>
  C3: in every reachable state, two different sessions never hold conflicting locks on one object.
\<close>

theorem locks_exclusive:
  assumes "lock_reachable lm" "map_of (granted (inner_of lm)) obj = Some hs"
    "x \<in> set hs" "y \<in> set hs" "conflicts (mode x) (mode y)"
  shows "holder x = holder y"
proof -
  have "held (inner_of lm) obj = hs" using assms(2) by (simp add: held_def)
  with lock_inv_reachable [OF assms(1)] assms(3-) show ?thesis
    unfolding lock_inv_def exclusive_def by blast
qed

theorem locks_exclusive_witness:
  "\<exists>hs. map_of (granted (inner_of (snd (try_acquire 1 (Table 5) Share Transaction demo_locks)))) (Table 5) = Some hs \<and>
     length hs = 2 \<and> holder (hs ! 0) = holder (hs ! 1)"
proof -
  let ?x = "\<lparr>holder = 1, mode = RowExclusive, scope = Transaction\<rparr>"
  let ?y = "\<lparr>holder = 1, mode = Share, scope = Transaction\<rparr>"
  let ?lm = "snd (try_acquire 1 (Table 5) Share Transaction demo_locks)"
  have v: "map_of (granted (inner_of ?lm)) (Table 5) = Some [?x, ?y]"
    by (simp add: try_acquire_def grantable_def grant_def demo_locks_value)
  have "lock_reachable ?lm"
    by (rule lock_steps [OF demo_locks_reachable], rule step_try_acquire) (simp add: demo_locks_value)
  from locks_exclusive [OF this v, of ?x ?y] show ?thesis
    using v by (simp add: conflicts_table)
qed

text \<open>
  C5: in every reachable state no session is on a cycle of the wait-for graph: every deadlock is
  broken by the request that would close the cycle, also when locks are granted past the queue.
\<close>

theorem no_standing_deadlock:
  assumes "lock_reachable lm"
  shows "\<not> deadlocked (inner_of lm) h \<and> acyclic (waits_for (inner_of lm))"
  using lock_inv_reachable [OF assms] by (simp add: lock_inv_def deadlocked_iff acyclic_def)

theorem no_standing_deadlock_witness: "\<not> deadlocked (inner_of demo_locks) 2"
  using no_standing_deadlock [OF demo_locks_reachable, of 2] by blast

lemma finite_waits_for: "finite (waits_for s)"
proof -
  have "waits_for s \<subseteq> (\<Union>w\<in>fst ` set (waiting s). {w} \<times> set (blockers s w))"
  proof (rule subrelI)
    fix w b
    assume e: "(w, b) \<in> waits_for s"
    then obtain p where "map_of (waiting s) w = Some p" unfolding waits_for_iff by blast
    from map_of_SomeD [OF this] have "w \<in> fst ` set (waiting s)" by force
    with e show "(w, b) \<in> (\<Union>w\<in>fst ` set (waiting s). {w} \<times> set (blockers s w))"
      unfolding waits_for_def by blast
  qed
  then show ?thesis by (rule finite_subset) simp
qed

text \<open>
  C21: progress.  In every reachable state, following the sessions a waiting session waits behind
  leads to one that can move: it is not waiting, or its own request can be granted now.
\<close>

theorem waiting_progress:
  assumes "lock_reachable lm"
  defines "s \<equiv> inner_of lm"
  shows "\<exists>b. (w, b) \<in> (waits_for s)\<^sup>* \<and>
    (case map_of (waiting s) b of None \<Rightarrow> True | Some (obj, m) \<Rightarrow> grantable s obj m b)"
proof -
  have "acyclic (waits_for s)"
    using lock_inv_reachable [OF assms(1)] by (simp add: lock_inv_def s_def)
  then have "wf ((waits_for s)\<inverse>)" by (rule finite_acyclic_wf_converse [OF finite_waits_for])
  then show ?thesis
  proof (induction w rule: wf_induct_rule)
    case (less w)
    show ?case
    proof (cases "\<exists>b. (w, b) \<in> waits_for s")
      case True
      with less show ?thesis by (meson converse_iff converse_rtrancl_into_rtrancl)
    next
      case False
      then have "case map_of (waiting s) w of None \<Rightarrow> True | Some (obj, m) \<Rightarrow> grantable s obj m w"
        unfolding waits_for_iff grantable_iff by (auto split: option.splits)
      then show ?thesis by blast
    qed
  qed
qed

theorem waiting_progress_witness:
  "\<exists>b. (2, b) \<in> (waits_for (inner_of demo_locks))\<^sup>* \<and>
    (case map_of (waiting (inner_of demo_locks)) b of None \<Rightarrow> True
     | Some (obj, m) \<Rightarrow> grantable (inner_of demo_locks) obj m b)"
  by (rule waiting_progress [OF demo_locks_reachable])

text \<open>
  C22: no lost wake-up.  A step after which a blocked request can be granted has notified the
  waiters.
\<close>

theorem no_lost_wakeup:
  assumes "lock_step lm lm'" "\<not> grantable (inner_of lm) obj m h" "grantable (inner_of lm') obj m h"
  shows "notify lm < notify lm'"
  using assms(1)
proof cases
  case (step_release_one h' obj' m')
  show ?thesis
  proof (cases "fst (release_one h' obj' m' lm)")
    case True
    then show ?thesis using step_release_one
      by (auto simp: release_one_def Let_def notify_waiters_def split: option.splits)
  next
    case False
    have "remove_first p xs = xs" if "\<not> list_ex p xs" for p and xs :: "holding list"
      using that by (induction xs) auto
    with False have "held (inner_of lm') o' = held (inner_of lm) o'" for o'
      using step_release_one
      by (auto simp: held_release_one) (auto simp: release_one_def held_def Let_def split: option.splits)
    with assms(2,3) show ?thesis unfolding grantable_iff by metis
  qed
next
  case (step_try_acquire h' obj' m' sc)
  then show ?thesis using assms(2,3)
    by (auto simp: try_acquire_def grantable_iff held_grant split: if_splits)
next
  case (step_attempt h' obj' m' sc wait)
  then show ?thesis using assms(2,3)
    by (auto simp: acquire_attempt_def Let_def grantable_iff held_grant split: if_splits wait_policy.splits)
qed (use assms(2,3) in \<open>auto simp: release_transaction_def release_session_def notify_waiters_def
      release_session_advisory_def new_session_def acquire_timeout_def grantable_iff\<close>)

theorem no_lost_wakeup_witness:
  "notify demo_locks < notify (release_transaction 1 demo_locks)"
  by (rule no_lost_wakeup [OF step_release_transaction, of _ "Table 5" Share 2])
    (simp_all add: demo_locks_value grantable_def conflicts_table release_transaction_def
      release_where_def stop_waiting_def notify_waiters_def)

subsection \<open>The outcome of acquire and of the releases\<close>

definition acquire_post ::
  "session_id \<Rightarrow> lock_object \<Rightarrow> lock_mode \<Rightarrow> lock_scope \<Rightarrow> wait_policy \<Rightarrow> (rel_error + acquired) option \<Rightarrow> inner \<Rightarrow> bool" where
  "acquire_post h obj m sc wait r s \<longleftrightarrow>
     (case r of
        None \<Rightarrow> wait = Wait \<and> map_of (waiting s) h = Some (obj, m) \<and> \<not> grantable s obj m h
      | Some res \<Rightarrow> map_of (waiting s) h = None \<and>
          (case res of
             Inr Granted \<Rightarrow> \<lparr>holder = h, mode = m, scope = sc\<rparr> \<in> set (held s obj)
           | Inr Skipped \<Rightarrow> wait = SkipLocked \<and> \<not> grantable s obj m h
           | Inl (LockNotAvailable msg) \<Rightarrow> wait \<noteq> SkipLocked \<and> \<not> grantable s obj m h
           | Inl (DeadlockDetected msg) \<Rightarrow> wait = Wait \<and> (h, h) \<in> (waits_for (start_waiting h obj m s))\<^sup>+
           | Inl _ \<Rightarrow> False))"

lemma waiting_stop [simp]: "map_of (waiting (stop_waiting h s)) h = None"
  by (simp add: stop_waiting_def delete_conv')

lemma waiting_start [simp]: "map_of (waiting (start_waiting h obj m s)) h = Some (obj, m)"
  by (simp add: start_waiting_def update_conv')

lemma grantable_waiting [simp]:
  "grantable (stop_waiting h s) obj m h' = grantable s obj m h'"
  "grantable (start_waiting h obj' m' s) obj m h' = grantable s obj m h'"
  by (simp_all add: grantable_iff)

lemma waits_for_start_stop: "waits_for (start_waiting h obj m (stop_waiting h s)) = waits_for (start_waiting h obj m s)"
proof -
  have "map_of (waiting (start_waiting h obj m (stop_waiting h s))) w = map_of (waiting (start_waiting h obj m s)) w" for w
    by (simp add: start_waiting_def stop_waiting_def update_conv' delete_conv')
  then show ?thesis by (auto simp: waits_for_iff)
qed

lemma acquire_attempt_post:
  "acquire_post h obj m sc wait (fst (acquire_attempt h obj m sc wait lm)) (inner_of (snd (acquire_attempt h obj m sc wait lm)))"
  by (auto simp: acquire_attempt_def acquire_post_def Let_def held_grant deadlocked_iff
      waits_for_start_stop split: wait_policy.splits)


text \<open>
  What the releases free.  \<^verbatim>\<open>release_session\<close> frees every lock of the session,
  \<^verbatim>\<open>release_transaction\<close> its transaction-scoped ones and \<^verbatim>\<open>release_session_advisory\<close> its
  session-scoped ones; no other lock is touched, on any object.
\<close>

theorem releases_free:
  assumes "lock_reachable lm"
  shows "held (inner_of (release_session h lm)) obj = filter (\<lambda>x. holder x \<noteq> h) (held (inner_of lm) obj) \<and>
    held (inner_of (release_transaction h lm)) obj =
      filter (\<lambda>x. holder x \<noteq> h \<or> scope x = Session) (held (inner_of lm) obj) \<and>
    held (inner_of (release_session_advisory h lm)) obj =
      filter (\<lambda>x. holder x \<noteq> h \<or> scope x = Transaction) (held (inner_of lm) obj)"
proof -
  have "hash_wf (granted (inner_of lm))"
    using lock_inv_reachable [OF assms] by (simp add: lock_inv_def lock_wf_def)
  note rel = held_release_where [OF this]
  have "(\<not> (holder x = h \<and> scope x = Transaction)) = (holder x \<noteq> h \<or> scope x = Session)"
    "(\<not> (holder x = h \<and> scope x = Session)) = (holder x \<noteq> h \<or> scope x = Transaction)" for x :: holding
    by (cases "scope x"; simp)+
  moreover have "inner_of (lm\<lparr>inner_of := s\<rparr>) = s" for s by simp
  ultimately show ?thesis
    unfolding release_session_def release_transaction_def release_session_advisory_def
    by (simp only: inner_notify held_waiting rel)
qed

theorem releases_free_witness:
  "held (inner_of (release_session 1 demo_locks)) (Table 5) = []"
  using releases_free [OF demo_locks_reachable, of 1 "Table 5"]
  by (simp add: demo_locks_value held_def)

lemma remove_first_mset:
  "list_ex p xs \<Longrightarrow> \<forall>x\<in>set xs. p x \<longrightarrow> f x = f y \<Longrightarrow>
     image_mset f (mset (remove_first p xs)) + {#f y#} = image_mset f (mset xs)"
  by (induction xs) (auto simp: add.commute)

text \<open>
  Locks are counted.  Releasing one lock by mode undoes exactly one grant of that mode: after
  a successful request and its release the locks held on every object are as before.
\<close>

theorem acquire_release_roundtrip:
  assumes "fst (try_acquire h obj m sc lm)"
  shows "fst (release_one h obj m (snd (try_acquire h obj m sc lm))) \<and>
    image_mset (\<lambda>x. (holder x, mode x))
      (mset (held (inner_of (snd (release_one h obj m (snd (try_acquire h obj m sc lm))))) obj')) =
    image_mset (\<lambda>x. (holder x, mode x)) (mset (held (inner_of lm) obj'))"
proof -
  let ?new = "\<lparr>holder = h, mode = m, scope = sc\<rparr>"
  let ?mine = "\<lambda>x :: holding. holder x = h \<and> mode x = m"
  define lm1 where "lm1 = snd (try_acquire h obj m sc lm)"
  have inner: "inner_of lm1 = grant obj m h sc (inner_of lm)"
    using assms by (simp add: lm1_def try_acquire_def split: if_splits)
  then have "map_of (granted (inner_of lm1)) obj = Some (held (inner_of lm) obj @ [?new])"
    by (simp add: grant_def held_def update_conv')
  then have "fst (release_one h obj m lm1)"
    by (simp add: release_one_def Let_def)
  moreover have "image_mset (\<lambda>x. (holder x, mode x)) (mset (remove_first ?mine (held (inner_of lm) obj @ [?new]))) +
      {#(h, m)#} = image_mset (\<lambda>x. (holder x, mode x)) (mset (held (inner_of lm) obj @ [?new]))"
    using remove_first_mset [of ?mine "held (inner_of lm) obj @ [?new]" "\<lambda>x. (holder x, mode x)" ?new] by simp
  ultimately show ?thesis
    unfolding lm1_def [symmetric] held_release_one inner held_grant by simp
qed

theorem acquire_release_roundtrip_witness:
  "fst (release_one 1 (Table 5) Share (snd (try_acquire 1 (Table 5) Share Transaction demo_locks)))"
  using acquire_release_roundtrip [of 1 "Table 5" Share Transaction demo_locks]
  by (simp add: try_acquire_def demo_locks_value grantable_def)

end
