(* ===== verification/Task_Ledger.thy ===== *)
theory Task_Ledger
  imports Guardian_Prelude
begin

text \<open>
  The task ledger and the reactive trigger engine of the compute layer (src/compute/ledger.rs,
  src/compute/triggers.rs).  The ledger runs over any \<^verbatim>\<open>LedgerStore\<close>: the trait is a record of
  operations, its exact contract the locale \<open>exact_store\<close>, and \<^verbatim>\<open>MemoryLedger\<close> an
  interpretation.  The wire codec (postcard) is a parameter and the stored form a type variable.

  Every await of the asynchronous code is a point where other tasks may change the store; where
  that matters the definition takes the change as a function argument.
\<close>

subsection \<open>Records\<close>

type_synonym node_id = "256 word"
type_synonym task_key = string

datatype task_class = General | Media | Analytics | Inference

record resource_limits =
  max_memory_bytes :: u64
  fuel :: u64
  timeout_ms :: u64

record exec_metrics =
  fuel_consumed :: u64
  duration_ms :: u64
  peak_memory_bytes :: u64

record completed_task =
  task_output :: bytes
  metrics :: exec_metrics

datatype task_state = Pending | Running (deadline_unix: u64) | Done (done_executor: node_id) | Failed (fail_error: string)

record task_record =
  tr_key :: task_key
  wasm_hash :: hash
  entrypoint :: string
  tr_class :: task_class
  tr_limits :: resource_limits
  tr_input :: bytes
  required_model :: "string option"
  tr_state :: task_state
  attempts :: u32
  created_at_unix :: u64
  updated_at_unix :: u64
  tr_result :: "completed_task option"

definition task_pending ::
  "task_key \<Rightarrow> hash \<Rightarrow> string \<Rightarrow> task_class \<Rightarrow> resource_limits \<Rightarrow> bytes \<Rightarrow> string option \<Rightarrow> u64 \<Rightarrow> task_record" where
  "task_pending k wh ep cl lim inp model now =
     \<lparr> tr_key = k, wasm_hash = wh, entrypoint = ep, tr_class = cl, tr_limits = lim, tr_input = inp,
       required_model = model, tr_state = Pending, attempts = 0, created_at_unix = now,
       updated_at_unix = now, tr_result = None \<rparr>"

definition needs_dispatch :: "task_record \<Rightarrow> u64 \<Rightarrow> bool" where
  "needs_dispatch r now =
     (case tr_state r of
        Pending \<Rightarrow> True
      | Running deadline \<Rightarrow> deadline < now
      | Done _ \<Rightarrow> False
      | Failed _ \<Rightarrow> False)"

subsection \<open>Stores\<close>

record ('s, 'b) ledger_store =
  ls_get :: "string \<Rightarrow> 's \<Rightarrow> string + 'b option"
  ls_put :: "string \<Rightarrow> 'b \<Rightarrow> 's \<Rightarrow> (string + unit) \<times> 's"
  ls_create_if_absent :: "string \<Rightarrow> 'b \<Rightarrow> 's \<Rightarrow> (string + bool) \<times> 's"
  ls_compare_and_swap :: "string \<Rightarrow> 'b option \<Rightarrow> 'b \<Rightarrow> 's \<Rightarrow> (string + bool) \<times> 's"
  ls_list :: "'s \<Rightarrow> string + 'b list"

definition memory_get :: "string \<Rightarrow> (string, 'b) hash_map \<Rightarrow> string + 'b option" where
  "memory_get k m = Inr (map_of m k)"

definition memory_put :: "string \<Rightarrow> 'b \<Rightarrow> (string, 'b) hash_map \<Rightarrow> (string + unit) \<times> (string, 'b) hash_map" where
  "memory_put k v m = (Inr (), AList.update k v m)"

definition memory_create_if_absent ::
  "string \<Rightarrow> 'b \<Rightarrow> (string, 'b) hash_map \<Rightarrow> (string + bool) \<times> (string, 'b) hash_map" where
  "memory_create_if_absent k v m =
     (if map_of m k \<noteq> None then (Inr False, m) else (Inr True, AList.update k v m))"

definition memory_compare_and_swap ::
  "string \<Rightarrow> 'b option \<Rightarrow> 'b \<Rightarrow> (string, 'b) hash_map \<Rightarrow> (string + bool) \<times> (string, 'b) hash_map" where
  "memory_compare_and_swap k expected v m =
     (if map_of m k = expected then (Inr True, AList.update k v m) else (Inr False, m))"

definition memory_list :: "(string, 'b) hash_map \<Rightarrow> string + 'b list" where
  "memory_list m = Inr (map snd m)"

definition memory_ledger :: "((string, 'b) hash_map, 'b) ledger_store" where
  "memory_ledger =
     \<lparr> ls_get = memory_get, ls_put = memory_put, ls_create_if_absent = memory_create_if_absent,
       ls_compare_and_swap = memory_compare_and_swap, ls_list = memory_list \<rparr>"

subsection \<open>The ledger\<close>

record 'b codec =
  to_stdvec :: "task_record \<Rightarrow> string + 'b"
  from_bytes :: "'b \<Rightarrow> string + task_record"

definition claim ::
  "'b codec \<Rightarrow> ('s, 'b) ledger_store \<Rightarrow> task_record \<Rightarrow> 's \<Rightarrow> (string + bool) \<times> 's" where
  "claim c ls r s =
     (case to_stdvec c r of
        Inl e \<Rightarrow> (Inl e, s)
      | Inr bs \<Rightarrow> ls_create_if_absent ls (tr_key r) bs s)"

definition ledger_get ::
  "'b codec \<Rightarrow> ('s, 'b) ledger_store \<Rightarrow> string \<Rightarrow> 's \<Rightarrow> string + task_record option" where
  "ledger_get c ls k s =
     (case ls_get ls k s of
        Inl e \<Rightarrow> Inl e
      | Inr None \<Rightarrow> Inr None
      | Inr (Some bs) \<Rightarrow> map_sum id Some (from_bytes c bs))"

definition running :: "u64 \<Rightarrow> u64 \<Rightarrow> task_record \<Rightarrow> task_record" where
  "running deadline now r =
     r\<lparr>attempts := attempts r + 1, tr_state := Running deadline, updated_at_unix := now\<rparr>"

text \<open>
  The retry loop of the dispatch claim.  Each round of the list gives the time read at its start
  and what the other tasks do to the store between the read and the compare-and-swap; the result
  None means that every round lost its race.
\<close>

fun claim_for_dispatch ::
  "'b codec \<Rightarrow> ('s, 'b) ledger_store \<Rightarrow> string \<Rightarrow> u64 \<Rightarrow> (u64 \<times> ('s \<Rightarrow> 's)) list \<Rightarrow> 's \<Rightarrow>
   (string + task_record option) option \<times> 's" where
  "claim_for_dispatch c ls k deadline [] s = (None, s)"
| "claim_for_dispatch c ls k deadline ((now, others) # rounds) s =
     (case ls_get ls k s of
        Inl e \<Rightarrow> (Some (Inl e), s)
      | Inr None \<Rightarrow> (Some (Inr None), s)
      | Inr (Some bs) \<Rightarrow>
          (case from_bytes c bs of
             Inl e \<Rightarrow> (Some (Inl e), s)
           | Inr r \<Rightarrow>
               (if \<not> needs_dispatch r now then (Some (Inr None), s)
                else case to_stdvec c (running deadline now r) of
                  Inl e \<Rightarrow> (Some (Inl e), s)
                | Inr new \<Rightarrow>
                    (case ls_compare_and_swap ls k (Some bs) new (others s) of
                       (Inl e, s') \<Rightarrow> (Some (Inl e), s')
                     | (Inr True, s') \<Rightarrow> (Some (Inr (Some (running deadline now r))), s')
                     | (Inr False, s') \<Rightarrow> claim_for_dispatch c ls k deadline rounds s'))))"

text \<open>Read-modify-write: the others may run between the read and the write.\<close>

definition ledger_update ::
  "'b codec \<Rightarrow> ('s, 'b) ledger_store \<Rightarrow> string \<Rightarrow> (task_record \<Rightarrow> task_record) \<Rightarrow> u64 \<Rightarrow> ('s \<Rightarrow> 's) \<Rightarrow> 's \<Rightarrow>
   (string + task_record option) \<times> 's" where
  "ledger_update c ls k mutate now others s =
     (case ledger_get c ls k s of
        Inl e \<Rightarrow> (Inl e, s)
      | Inr None \<Rightarrow> (Inr None, s)
      | Inr (Some r) \<Rightarrow>
          (let r' = (mutate r)\<lparr>updated_at_unix := now\<rparr>
           in case to_stdvec c r' of
                Inl e \<Rightarrow> (Inl e, s)
              | Inr bs \<Rightarrow>
                  (case ls_put ls k bs (others s) of
                     (Inl e, s') \<Rightarrow> (Inl e, s')
                   | (Inr _, s') \<Rightarrow> (Inr (Some r'), s'))))"

fun collect_results :: "(string + 'a) list \<Rightarrow> string + 'a list" where
  "collect_results [] = Inr []"
| "collect_results (Inl e # xs) = Inl e"
| "collect_results (Inr x # xs) = map_sum id (Cons x) (collect_results xs)"

definition ledger_all :: "'b codec \<Rightarrow> ('s, 'b) ledger_store \<Rightarrow> 's \<Rightarrow> string + task_record list" where
  "ledger_all c ls s =
     (case ls_list ls s of
        Inl e \<Rightarrow> Inl e
      | Inr bss \<Rightarrow> collect_results (map (from_bytes c) bss))"

definition needing_dispatch ::
  "'b codec \<Rightarrow> ('s, 'b) ledger_store \<Rightarrow> u64 \<Rightarrow> 's \<Rightarrow> string + task_record list" where
  "needing_dispatch c ls now s = map_sum id (filter (\<lambda>r. needs_dispatch r now)) (ledger_all c ls s)"

subsection \<open>Triggers\<close>

datatype placement = BestAvailable | Node node_id | Local

record task_spec =
  spec_wasm_hash :: hash
  spec_entrypoint :: string
  spec_class :: task_class
  spec_limits :: resource_limits
  spec_placement :: placement
  spec_required_model :: "string option"

record trigger_rule =
  rule_id :: string
  store_address :: string
  rule_spec :: task_spec

record dispatch_error =
  permanent :: bool
  message :: string

record delegated =
  executor :: node_id
  completed :: completed_task

record execute_request =
  req_wasm_hash :: hash
  req_entrypoint :: string
  req_class :: task_class
  req_limits :: resource_limits
  req_input :: bytes
  req_required_model :: "string option"

record trigger_config =
  max_attempts :: u32
  task_deadline :: u64

definition trigger_config_default :: trigger_config where
  "trigger_config_default = \<lparr> max_attempts = 3, task_deadline = 300 \<rparr>"

definition add_rule :: "trigger_rule \<Rightarrow> trigger_rule list \<Rightarrow> trigger_rule list" where
  "add_rule r rules = rules @ [r]"

definition remove_rule :: "string \<Rightarrow> trigger_rule list \<Rightarrow> trigger_rule list" where
  "remove_rule i rules = filter (\<lambda>r. rule_id r \<noteq> i) rules"

definition starts_with :: "string \<Rightarrow> string \<Rightarrow> bool" where
  "starts_with s p \<longleftrightarrow> take (length p) s = p"

definition dedup_key :: "(bytes \<Rightarrow> string) \<Rightarrow> string \<Rightarrow> bytes \<Rightarrow> task_key" where
  "dedup_key hex_blake3 i ev = hex_blake3 (i @ [char_of (0x1f :: nat)] @ ev)"

definition rule_record :: "(bytes \<Rightarrow> string) \<Rightarrow> bytes \<Rightarrow> bytes \<Rightarrow> u64 \<Rightarrow> trigger_rule \<Rightarrow> task_record" where
  "rule_record hex_blake3 ev data now rule =
     task_pending (dedup_key hex_blake3 (rule_id rule) ev) (spec_wasm_hash (rule_spec rule))
       (spec_entrypoint (rule_spec rule)) (spec_class (rule_spec rule)) (spec_limits (rule_spec rule))
       data (spec_required_model (rule_spec rule)) now"

fun claim_rules ::
  "'b codec \<Rightarrow> ('s, 'b) ledger_store \<Rightarrow> (bytes \<Rightarrow> string) \<Rightarrow> bytes \<Rightarrow> bytes \<Rightarrow> u64 \<Rightarrow> trigger_rule list \<Rightarrow> 's \<Rightarrow>
   task_key list \<times> 's" where
  "claim_rules c ls hx ev data now [] s = ([], s)"
| "claim_rules c ls hx ev data now (rule # rules) s =
     (case claim c ls (rule_record hx ev data now rule) s of
        (Inr True, s') \<Rightarrow>
          (let (ks, s'') = claim_rules c ls hx ev data now rules s'
           in (dedup_key hx (rule_id rule) ev # ks, s''))
      | (_, s') \<Rightarrow> claim_rules c ls hx ev data now rules s')"

text \<open>The keys it returns are the ones for which the engine spawns \<^verbatim>\<open>run_task\<close>.\<close>

definition notify_replicated ::
  "'b codec \<Rightarrow> ('s, 'b) ledger_store \<Rightarrow> (bytes \<Rightarrow> string) \<Rightarrow> trigger_rule list \<Rightarrow>
   string \<Rightarrow> bytes \<Rightarrow> bytes \<Rightarrow> u64 \<Rightarrow> 's \<Rightarrow> task_key list \<times> 's" where
  "notify_replicated c ls hx rules addr ev data now s =
     claim_rules c ls hx ev data now (filter (\<lambda>r. starts_with addr (store_address r)) rules) s"

definition request_of :: "task_record \<Rightarrow> execute_request" where
  "request_of r =
     \<lparr> req_wasm_hash = wasm_hash r, req_entrypoint = entrypoint r, req_class = tr_class r,
       req_limits = tr_limits r, req_input = tr_input r, req_required_model = required_model r \<rparr>"

definition finish_task :: "trigger_config \<Rightarrow> task_record \<Rightarrow> dispatch_error + delegated \<Rightarrow> task_record \<Rightarrow> task_record" where
  "finish_task cfg claimed outcome r =
     (case outcome of
        Inr d \<Rightarrow> r\<lparr>tr_state := Done (executor d), tr_result := Some (completed d), tr_input := []\<rparr>
      | Inl e \<Rightarrow>
          (let spent = attempts claimed \<ge> max_attempts cfg;
               final_failure = permanent e \<or> spent
           in if final_failure then r\<lparr>tr_state := Failed (message e), tr_input := []\<rparr>
              else r\<lparr>tr_state := Pending\<rparr>))"

text \<open>
  One task run: the claim, the dispatch (an external call, with what the others do meanwhile) and
  the record of its outcome.
\<close>

definition run_task ::
  "'b codec \<Rightarrow> ('s, 'b) ledger_store \<Rightarrow> trigger_config \<Rightarrow> (execute_request \<Rightarrow> dispatch_error + delegated) \<Rightarrow>
   string \<Rightarrow> u64 \<Rightarrow> (u64 \<times> ('s \<Rightarrow> 's)) list \<Rightarrow> ('s \<Rightarrow> 's) \<Rightarrow> u64 \<Rightarrow> ('s \<Rightarrow> 's) \<Rightarrow> 's \<Rightarrow> 's" where
  "run_task c ls cfg dispatch k now rounds meanwhile later others s =
     (case claim_for_dispatch c ls k (now + task_deadline cfg) rounds s of
        (Some (Inr (Some r)), s') \<Rightarrow>
          snd (ledger_update c ls k (finish_task cfg r (dispatch (request_of r))) later others (meanwhile s'))
      | (_, s') \<Rightarrow> s')"

definition give_up :: "task_record \<Rightarrow> task_record" where
  "give_up r = r\<lparr>tr_state := Failed ''retry budget exhausted'', tr_input := []\<rparr>"

fun requeue_records ::
  "'b codec \<Rightarrow> ('s, 'b) ledger_store \<Rightarrow> trigger_config \<Rightarrow> u64 \<Rightarrow> task_record list \<Rightarrow> 's \<Rightarrow> task_key list \<times> 's" where
  "requeue_records c ls cfg now [] s = ([], s)"
| "requeue_records c ls cfg now (r # rs) s =
     (if attempts r \<ge> max_attempts cfg
      then requeue_records c ls cfg now rs (snd (ledger_update c ls (tr_key r) give_up now id s))
      else let (ks, s') = requeue_records c ls cfg now rs s in (tr_key r # ks, s'))"

text \<open>
  One requeue pass: the scan, what the others do before the loop reaches the records, the loop.
  The keys it returns are the ones for which the engine spawns \<^verbatim>\<open>run_task\<close>.
\<close>

definition requeue_due ::
  "'b codec \<Rightarrow> ('s, 'b) ledger_store \<Rightarrow> trigger_config \<Rightarrow> u64 \<Rightarrow> ('s \<Rightarrow> 's) \<Rightarrow> 's \<Rightarrow> task_key list \<times> 's" where
  "requeue_due c ls cfg now others s =
     (case needing_dispatch c ls now s of
        Inl _ \<Rightarrow> ([], s)
      | Inr due \<Rightarrow> requeue_records c ls cfg now due (others s))"

end
