(* ===== verification/Ledger_Correct.thy ===== *)
theory Ledger_Correct
  imports Task_Ledger
begin

text \<open>
  Correctness of the task ledger.  A store with exact conditional writes (locale \<open>exact_store\<close>,
  interpreted by \<^verbatim>\<open>MemoryLedger\<close>) makes the ledger refine an abstract map from keys to task
  records: claims are deduplicated, a dispatch claim takes effect in one step on the record it
  read, and a task that keeps failing is given up after its budget of attempts.
\<close>

subsection \<open>The contract of a store\<close>

locale exact_store =
  fixes ls :: "('s, 'b) ledger_store"
    and view :: "'s \<Rightarrow> string \<Rightarrow> 'b option"
    and ok :: "'s \<Rightarrow> bool"
  assumes get_view: "ok s \<Longrightarrow> ls_get ls k s = Inr (view s k)"
    and put_view: "ok s \<Longrightarrow>
      \<exists>s'. ls_put ls k v s = (Inr (), s') \<and> ok s' \<and> view s' = (view s)(k \<mapsto> v)"
    and create_view: "ok s \<Longrightarrow>
      \<exists>s'. ls_create_if_absent ls k v s = (Inr (view s k = None), s') \<and> ok s' \<and>
        view s' = (if view s k = None then (view s)(k \<mapsto> v) else view s)"
    and swap_view: "ok s \<Longrightarrow>
      \<exists>s'. ls_compare_and_swap ls k e v s = (Inr (view s k = e), s') \<and> ok s' \<and>
        view s' = (if view s k = e then (view s)(k \<mapsto> v) else view s) \<and> (view s k \<noteq> e \<longrightarrow> s' = s)"
    and list_view: "ok s \<Longrightarrow> \<exists>bs. ls_list ls s = Inr bs \<and> set bs = ran (view s)"

text \<open>
  What the code relies on of the wire codec: every record encodes, and decodes to itself.
\<close>

definition postcard_ok :: "'b codec \<Rightarrow> bool" where
  "postcard_ok c \<longleftrightarrow> (\<forall>r. \<exists>bs. to_stdvec c r = Inr bs \<and> from_bytes c bs = Inr r)"

text \<open>The abstract ledger: the records behind the stored bytes.\<close>

definition ledger_records :: "'b codec \<Rightarrow> (string \<Rightarrow> 'b option) \<Rightarrow> string \<Rightarrow> task_record option" where
  "ledger_records c m k =
     (case m k of None \<Rightarrow> None | Some bs \<Rightarrow> (case from_bytes c bs of Inl _ \<Rightarrow> None | Inr r \<Rightarrow> Some r))"

definition encoded :: "'b codec \<Rightarrow> (string \<Rightarrow> 'b option) \<Rightarrow> bool" where
  "encoded c m \<longleftrightarrow> (\<forall>k bs. m k = Some bs \<longrightarrow> (\<exists>r. to_stdvec c r = Inr bs))"

lemma postcardE:
  assumes "postcard_ok c"
  obtains bs where "to_stdvec c r = Inr bs" "from_bytes c bs = Inr r"
  using assms by (auto simp: postcard_ok_def)

lemma postcard_decode: "postcard_ok c \<Longrightarrow> to_stdvec c r = Inr bs \<Longrightarrow> from_bytes c bs = Inr r"
  by (metis postcard_ok_def sum.inject(2))

lemma ledger_records_upd:
  "postcard_ok c \<Longrightarrow> to_stdvec c r = Inr bs \<Longrightarrow>
     ledger_records c (m(k \<mapsto> bs)) = (ledger_records c m)(k \<mapsto> r)"
  by (auto simp: ledger_records_def fun_eq_iff postcard_decode)

lemma encoded_upd: "encoded c m \<Longrightarrow> to_stdvec c r = Inr bs \<Longrightarrow> encoded c (m(k \<mapsto> bs))"
  by (auto simp: encoded_def)

lemma encoded_cases:
  assumes "postcard_ok c" "encoded c m"
  obtains "m k = None" "ledger_records c m k = None"
  | bs r where "m k = Some bs" "from_bytes c bs = Inr r" "to_stdvec c r = Inr bs" "ledger_records c m k = Some r"
proof (cases "m k")
  case None
  then show ?thesis using that(1) by (simp add: ledger_records_def)
next
  case (Some bs)
  with assms(2) obtain r where "to_stdvec c r = Inr bs" by (auto simp: encoded_def)
  with postcard_decode [OF assms(1) this] Some show ?thesis using that(2) by (simp add: ledger_records_def)
qed

lemma records_None_iff: "postcard_ok c \<Longrightarrow> encoded c m \<Longrightarrow> ledger_records c m k = None \<longleftrightarrow> m k = None"
  by (erule (1) encoded_cases [of c m k]) simp_all

context exact_store
begin

lemma claim_refines:
  assumes "postcard_ok c" "ok s" "encoded c (view s)"
  shows "\<exists>s'. claim c ls r s = (Inr (ledger_records c (view s) (tr_key r) = None), s') \<and> ok s' \<and>
    encoded c (view s') \<and>
    ledger_records c (view s') =
      (if ledger_records c (view s) (tr_key r) = None then (ledger_records c (view s))(tr_key r \<mapsto> r)
       else ledger_records c (view s))"
proof -
  obtain bs where bs: "to_stdvec c r = Inr bs" using assms(1) by (rule postcardE)
  from create_view [OF assms(2), of "tr_key r" bs] show ?thesis
    using assms(3) by (auto simp: claim_def bs records_None_iff [OF assms(1,3)]
        ledger_records_upd [OF assms(1) bs] encoded_upd [OF _ bs])
qed

lemma get_refines:
  assumes "postcard_ok c" "ok s" "encoded c (view s)"
  shows "ledger_get c ls k s = Inr (ledger_records c (view s) k)"
  using assms(1,3) by (cases rule: encoded_cases [of c "view s" k]) (simp_all add: ledger_get_def get_view [OF assms(2)])

lemma update_refines:
  fixes mutate :: "task_record \<Rightarrow> task_record" and now :: u64
  assumes "postcard_ok c" "ok s" "encoded c (view s)"
  defines "upd \<equiv> \<lambda>r. (mutate r)\<lparr>updated_at_unix := now\<rparr>"
  shows "\<exists>s'. ledger_update c ls k mutate now id s = (Inr (map_option upd (ledger_records c (view s) k)), s') \<and>
    ok s' \<and> encoded c (view s') \<and>
    ledger_records c (view s') =
      (case ledger_records c (view s) k of
         None \<Rightarrow> ledger_records c (view s)
       | Some r \<Rightarrow> (ledger_records c (view s))(k \<mapsto> upd r))"
proof (cases "ledger_records c (view s) k")
  case None
  then show ?thesis using assms by (simp add: ledger_update_def get_refines)
next
  case (Some r)
  obtain bs where bs: "to_stdvec c (upd r) = Inr bs" using assms(1) by (rule postcardE)
  from put_view [OF assms(2), of k bs] obtain s' where
    "ls_put ls k bs s = (Inr (), s')" "ok s'" "view s' = (view s)(k \<mapsto> bs)" by blast
  with Some bs show ?thesis
    using encoded_upd [OF assms(3) bs] ledger_records_upd [OF assms(1) bs]
    by (simp add: ledger_update_def get_refines [OF assms(1-3)] upd_def)
qed

text \<open>
  A dispatch claim that wins took effect in one step, on the record stored at that moment.
\<close>

lemma claim_for_dispatch_linear:
  assumes "postcard_ok c"
    and "\<forall>f\<in>snd ` set rounds. \<forall>s. ok s \<and> encoded c (view s) \<longrightarrow> ok (f s) \<and> encoded c (view (f s))"
    and "ok s" "encoded c (view s)"
    and "claim_for_dispatch c ls k deadline rounds s = (Some (Inr (Some r')), s')"
  shows "\<exists>s1 r now. ok s1 \<and> encoded c (view s1) \<and> now \<in> fst ` set rounds \<and>
    ledger_records c (view s1) k = Some r \<and> needs_dispatch r now \<and> r' = running deadline now r \<and>
    ok s' \<and> encoded c (view s') \<and> ledger_records c (view s') = (ledger_records c (view s1))(k \<mapsto> r')"
  using assms(2-)
proof (induction rounds arbitrary: s)
  case (Cons round rounds)
  obtain now f where round: "round = (now, f)" by fastforce
  from assms(1) Cons.prems(3) show ?case
  proof (cases rule: encoded_cases [of c "view s" k])
    case 1
    with Cons.prems show ?thesis by (simp add: round get_view)
  next
    case (2 bs r)
    note run = Cons.prems(4)
    show ?thesis
    proof (cases "needs_dispatch r now")
      case False
      with run 2 Cons.prems(2) show ?thesis by (simp add: round get_view)
    next
      case True
      obtain new where new: "to_stdvec c (running deadline now r) = Inr new" using assms(1) by (rule postcardE)
      have s1: "ok (f s)" "encoded c (view (f s))" using Cons.prems(1-3) by (auto simp: round)
      obtain s2 where s2: "ls_compare_and_swap ls k (Some bs) new (f s) = (Inr (view (f s) k = Some bs), s2)"
          "ok s2" "view s2 = (if view (f s) k = Some bs then (view (f s))(k \<mapsto> new) else view (f s))"
        using swap_view [OF s1(1)] by blast
      show ?thesis
      proof (cases "view (f s) k = Some bs")
        case win: True
        with run 2 True new s2 Cons.prems(2) have "r' = running deadline now r" "s' = s2"
          by (simp_all add: round get_view)
        moreover have "ledger_records c (view (f s)) k = Some r"
          using win 2(2) by (simp add: ledger_records_def)
        moreover have "view s2 = (view (f s))(k \<mapsto> new)" using s2(3) win by simp
        then have "encoded c (view s2)"
            "ledger_records c (view s2) = (ledger_records c (view (f s)))(k \<mapsto> running deadline now r)"
          using ledger_records_upd [OF assms(1) new] encoded_upd [OF s1(2) new] by simp_all
        moreover have "now \<in> fst ` set (round # rounds)" by (simp add: round)
        ultimately show ?thesis using s1 s2(2) True by blast
      next
        case lost: False
        with s2 s1 have enc: "encoded c (view s2)" by simp
        have rest: "claim_for_dispatch c ls k deadline rounds s2 = (Some (Inr (Some r')), s')"
          using run 2 True new s2(1) lost Cons.prems(2) by (simp add: round get_view)
        have sub: "fst ` set rounds \<subseteq> fst ` set (round # rounds)" by auto
        have polite: "\<forall>f\<in>snd ` set rounds. \<forall>s. ok s \<and> encoded c (view s) \<longrightarrow> ok (f s) \<and> encoded c (view (f s))"
          using Cons.prems(1) by simp
        show ?thesis using Cons.IH [OF polite s2(2) enc rest] sub by blast
      qed
    qed
  qed
qed simp

text \<open>A claim on a record that is not due (any more) changes nothing.\<close>

lemma claim_for_dispatch_refused:
  assumes "postcard_ok c" "ok s" "encoded c (view s)"
    "case ledger_records c (view s) k of None \<Rightarrow> True | Some r \<Rightarrow> \<not> needs_dispatch r now"
  shows "claim_for_dispatch c ls k deadline ((now, f) # rounds) s = (Some (Inr None), s)"
  using assms(1,3) by (cases rule: encoded_cases [of c "view s" k]) (use assms(2,4) in \<open>simp_all add: get_view\<close>)

lemma claim_for_dispatch_alone:
  assumes "postcard_ok c" "ok s" "encoded c (view s)" "ledger_records c (view s) k = Some r" "needs_dispatch r now"
  shows "\<exists>s'. claim_for_dispatch c ls k deadline [(now, id)] s = (Some (Inr (Some (running deadline now r))), s') \<and>
    ok s' \<and> encoded c (view s') \<and>
    ledger_records c (view s') = (ledger_records c (view s))(k \<mapsto> running deadline now r)"
proof -
  obtain new where new: "to_stdvec c (running deadline now r) = Inr new" using assms(1) by (rule postcardE)
  from assms(1,3) show ?thesis
  proof (cases rule: encoded_cases [of c "view s" k])
    case (2 bs r')
    with assms(4) have "r' = r" by simp
    with 2 assms(5) new swap_view [OF assms(2), of k "Some bs" new] show ?thesis
      using ledger_records_upd [OF assms(1) new] encoded_upd [OF assms(3) new]
      by (auto simp: get_view [OF assms(2)])
  qed (use assms(4) in simp)
qed

lemma claim_for_dispatch_single:
  assumes "postcard_ok c" "ok s" "encoded c (view s)"
    "claim_for_dispatch c ls k deadline [(now, id)] s = (Some (Inr (Some r')), s')"
  shows "\<exists>r. ledger_records c (view s) k = Some r \<and> r' = running deadline now r \<and> ok s' \<and> encoded c (view s') \<and>
    ledger_records c (view s') = (ledger_records c (view s))(k \<mapsto> r')"
proof -
  have due: "\<not> (case ledger_records c (view s) k of None \<Rightarrow> True | Some r \<Rightarrow> \<not> needs_dispatch r now)"
    using claim_for_dispatch_refused [OF assms(1-3), of now k deadline id "[]"] assms(4) by auto
  then obtain r where r: "ledger_records c (view s) k = Some r" "needs_dispatch r now"
    by (auto split: option.splits)
  from claim_for_dispatch_alone [OF assms(1-3) this, of deadline] assms(4) show ?thesis
    using r(1) by (elim exE conjE) simp
qed

text \<open>A claim whose record changed since it was read goes on with the next round.\<close>

lemma claim_for_dispatch_stale:
  assumes "postcard_ok c" "ok s" "encoded c (view s)"
    "ledger_records c (view s1) k \<noteq> ledger_records c (view s) k" "ok s1"
    "fst (claim_for_dispatch c ls k deadline rounds s1) = Some (Inr None)"
  shows "fst (claim_for_dispatch c ls k deadline ((now, \<lambda>_. s1) # rounds) s) = Some (Inr None)"
  using assms(1,3)
proof (cases rule: encoded_cases [of c "view s" k])
  case 1
  then show ?thesis using assms(2) by (simp add: get_view)
next
  case (2 bs r)
  obtain new where new: "to_stdvec c (running deadline now r) = Inr new" using assms(1) by (rule postcardE)
  have ne: "view s1 k \<noteq> Some bs" using assms(4) 2 by (auto simp: ledger_records_def)
  have lost: "ls_compare_and_swap ls k (Some bs) new s1 = (Inr False, s1)"
    using swap_view [OF assms(5), of k "Some bs" new] ne by auto
  show ?thesis
  proof (cases "needs_dispatch r now")
    case True
    with 2 new lost assms(2,6) show ?thesis by (simp add: get_view)
  next
    case False
    then show ?thesis using 2 assms(2) by (simp add: get_view)
  qed
qed

end

interpretation mem: exact_store memory_ledger map_of hash_wf
proof (unfold_locales, goal_cases)
  case (5 s)
  then show ?case by (simp add: memory_ledger_def memory_list_def hash_wf_def ran_distinct)
qed (auto simp: memory_ledger_def memory_get_def memory_put_def memory_create_if_absent_def
      memory_compare_and_swap_def update_conv')

subsection \<open>Deduplication of triggers\<close>

definition ledger_wf :: "'b codec \<Rightarrow> (string, 'b) hash_map \<Rightarrow> bool" where
  "ledger_wf c m \<longleftrightarrow> hash_wf m \<and> encoded c (map_of m)"

abbreviation records_of :: "'b codec \<Rightarrow> (string, 'b) hash_map \<Rightarrow> string \<Rightarrow> task_record option" where
  "records_of c m \<equiv> ledger_records c (map_of m)"

lemma rule_record_key [simp]: "tr_key (rule_record hx ev data now rule) = dedup_key hx (rule_id rule) ev"
  by (simp add: rule_record_def task_pending_def)

lemma claim_mem:
  assumes "postcard_ok c" "ledger_wf c m"
  obtains m' where "claim c memory_ledger r m = (Inr (records_of c m (tr_key r) = None), m')" "ledger_wf c m'"
    "dom (records_of c m') = insert (tr_key r) (dom (records_of c m))"
    "\<forall>k\<in>dom (records_of c m). records_of c m' k = records_of c m k"
proof -
  have "hash_wf m" "encoded c (map_of m)" using assms(2) by (simp_all add: ledger_wf_def)
  from mem.claim_refines [OF assms(1) this, of r] obtain m' where m':
    "claim c memory_ledger r m = (Inr (records_of c m (tr_key r) = None), m')" "hash_wf m'" "encoded c (map_of m')"
    "records_of c m' = (if records_of c m (tr_key r) = None then (records_of c m)(tr_key r \<mapsto> r) else records_of c m)"
    by blast
  then have "ledger_wf c m'" by (simp add: ledger_wf_def)
  moreover have "dom (records_of c m') = insert (tr_key r) (dom (records_of c m))"
    unfolding m'(4) by (cases "records_of c m (tr_key r)") (simp_all add: insert_absorb domIff)
  moreover have "\<forall>k\<in>dom (records_of c m). records_of c m' k = records_of c m k"
    unfolding m'(4) by (cases "records_of c m (tr_key r)") auto
  ultimately show thesis using m'(1) by (intro that)
qed

lemma claim_rules_facts:
  assumes "postcard_ok c" "ledger_wf c m"
  shows "\<exists>ks m'. claim_rules c memory_ledger hx ev data now rules m = (ks, m') \<and> ledger_wf c m' \<and>
    distinct ks \<and> set ks = (\<lambda>r. dedup_key hx (rule_id r) ev) ` set rules - dom (records_of c m) \<and>
    dom (records_of c m') = dom (records_of c m) \<union> (\<lambda>r. dedup_key hx (rule_id r) ev) ` set rules"
  using assms(2)
proof (induction rules arbitrary: m)
  case (Cons rule rules)
  let ?k = "dedup_key hx (rule_id rule) ev"
  obtain m1 where m1: "claim c memory_ledger (rule_record hx ev data now rule) m = (Inr (records_of c m ?k = None), m1)"
      "ledger_wf c m1" "dom (records_of c m1) = insert ?k (dom (records_of c m))"
      and "\<forall>k\<in>dom (records_of c m). records_of c m1 k = records_of c m k"
    by (rule claim_mem [OF assms(1) Cons.prems, of "rule_record hx ev data now rule", unfolded rule_record_key])
  obtain ks m2 where m2:
      "claim_rules c memory_ledger hx ev data now rules m1 = (ks, m2)" "ledger_wf c m2" "distinct ks"
      "set ks = (\<lambda>r. dedup_key hx (rule_id r) ev) ` set rules - dom (records_of c m1)"
      "dom (records_of c m2) = dom (records_of c m1) \<union> (\<lambda>r. dedup_key hx (rule_id r) ev) ` set rules"
    using Cons.IH [OF m1(2)] by (elim exE conjE) (rule that)
  show ?case
    using m1 m2 by (cases "records_of c m ?k") (auto simp: domIff)
qed simp

text \<open>
  C37: triggers fire once.  A replication event claims, in an in-memory ledger, exactly the keys of
  the matching rules that were not claimed before, each once; the same event (with any payload, at
  any later time, as long as no record is removed) claims nothing.
\<close>

theorem notify_dedup:
  assumes "postcard_ok c" "ledger_wf c m"
    "notify_replicated c memory_ledger hx rules addr ev data now m = (ks, m')"
  shows "distinct ks \<and>
    set ks = {dedup_key hx (rule_id r) ev |r. r \<in> set rules \<and> starts_with addr (store_address r)} - dom (records_of c m) \<and>
    (\<forall>m2. ledger_wf c m2 \<longrightarrow> dom (records_of c m') \<subseteq> dom (records_of c m2) \<longrightarrow>
       fst (notify_replicated c memory_ledger hx rules addr ev data2 now2 m2) = [])"
proof -
  let ?rs = "filter (\<lambda>r. starts_with addr (store_address r)) rules"
  let ?keys = "(\<lambda>r. dedup_key hx (rule_id r) ev) ` set ?rs"
  from claim_rules_facts [OF assms(1,2), of hx ev data now ?rs] assms(3)
  have 1: "distinct ks" "set ks = ?keys - dom (records_of c m)" "?keys \<subseteq> dom (records_of c m')"
    by (auto simp: notify_replicated_def)
  have "fst (notify_replicated c memory_ledger hx rules addr ev data2 now2 m2) = []"
    if "ledger_wf c m2" "dom (records_of c m') \<subseteq> dom (records_of c m2)" for m2
  proof -
    from claim_rules_facts [OF assms(1) that(1), of hx ev data2 now2 ?rs] obtain ks2 m3
      where "notify_replicated c memory_ledger hx rules addr ev data2 now2 m2 = (ks2, m3)"
        "set ks2 = ?keys - dom (records_of c m2)"
      by (auto simp: notify_replicated_def)
    moreover have "?keys - dom (records_of c m2) = {}" using 1(3) that(2) by blast
    ultimately have "set ks2 = {}" "fst (notify_replicated c memory_ledger hx rules addr ev data2 now2 m2) = ks2"
      by (simp_all only: fst_conv)
    then show ?thesis by simp
  qed
  moreover have "?keys = {dedup_key hx (rule_id r) ev |r. r \<in> set rules \<and> starts_with addr (store_address r)}"
    by auto
  ultimately show ?thesis using 1(1,2) by simp
qed

text \<open>The codec that stores the record itself.\<close>

definition plain_codec :: "task_record codec" where
  "plain_codec = \<lparr>to_stdvec = Inr, from_bytes = Inr\<rparr>"

lemma postcard_ok_plain: "postcard_ok plain_codec"
  by (simp add: postcard_ok_def plain_codec_def)

lemma ledger_wf_plain: "hash_wf m \<Longrightarrow> ledger_wf plain_codec m"
  by (simp add: ledger_wf_def encoded_def plain_codec_def)

definition demo_rule :: trigger_rule where
  "demo_rule = \<lparr>rule_id = ''thumbs'', store_address = ''/fotos'',
     rule_spec = \<lparr>spec_wasm_hash = 7, spec_entrypoint = ''run'', spec_class = Media,
       spec_limits = \<lparr>max_memory_bytes = 1, fuel = 1, timeout_ms = 1\<rparr>,
       spec_placement = BestAvailable, spec_required_model = None\<rparr>\<rparr>"

definition demo_ledger :: "(string, task_record) hash_map" where
  "demo_ledger = snd (notify_replicated plain_codec memory_ledger id [demo_rule] ''/fotos/a'' ''e1'' ''jpeg'' 100 [])"

definition demo_key :: string where
  "demo_key = dedup_key id ''thumbs'' ''e1''"

theorem notify_dedup_witness:
  "fst (notify_replicated plain_codec memory_ledger id [demo_rule] ''/fotos/a'' ''e1'' ''again'' 200 demo_ledger) = []"
proof -
  obtain ks m' where n: "notify_replicated plain_codec memory_ledger id [demo_rule] ''/fotos/a'' ''e1'' ''jpeg'' 100 [] = (ks, m')"
    by fastforce
  have wf: "ledger_wf plain_codec []" by (rule ledger_wf_plain) simp
  have m': "m' = demo_ledger" by (simp add: demo_ledger_def n)
  have "hash_wf demo_ledger"
    by (simp add: demo_ledger_def notify_replicated_def claim_def plain_codec_def memory_ledger_def
        memory_create_if_absent_def demo_rule_def starts_with_def hash_wf_def)
  then have "ledger_wf plain_codec demo_ledger" by (rule ledger_wf_plain)
  with notify_dedup [OF postcard_ok_plain wf n, of "''again''" 200] show ?thesis
    unfolding m' by blast
qed

subsection \<open>Dispatch ownership\<close>

lemma ledger_wfD: "ledger_wf c m \<Longrightarrow> hash_wf m" "ledger_wf c m \<Longrightarrow> encoded c (map_of m)"
  by (simp_all add: ledger_wf_def)


definition demo_task :: task_record where
  "demo_task = task_pending ''k'' 7 ''run'' Media \<lparr>max_memory_bytes = 1, fuel = 1, timeout_ms = 1\<rparr> ''jpeg'' None 100"

lemmas ledger_eval = demo_task_def task_pending_def plain_codec_def memory_ledger_def memory_get_def
  memory_put_def memory_compare_and_swap_def needs_dispatch_def running_def ledger_records_def

lemma demo_task_wf: "ledger_wf plain_codec [(''k'', demo_task)]"
  by (rule ledger_wf_plain) (simp add: hash_wf_def)


lemma running_neq: "running deadline now r \<noteq> r"
proof
  assume "running deadline now r = r"
  then have "attempts (running deadline now r) = attempts r" by simp
  moreover have "attempts (running deadline now r) = attempts r + 1" by (simp add: running_def)
  ultimately show False by simp
qed



subsection \<open>The retry budget\<close>

text \<open>One run of a task whose dispatch fails, with no other task interfering.\<close>

definition failing_run ::
  "'b codec \<Rightarrow> trigger_config \<Rightarrow> dispatch_error \<Rightarrow> string \<Rightarrow> u64 \<Rightarrow> (string, 'b) hash_map \<Rightarrow> (string, 'b) hash_map" where
  "failing_run c cfg e k now m = run_task c memory_ledger cfg (\<lambda>_. Inl e) k now [(now, id)] id now id m"

lemma run_task_due:
  fixes cfg :: trigger_config
  assumes "postcard_ok c" "ledger_wf c m" "records_of c m k = Some r" "needs_dispatch r now"
  defines "r' \<equiv> running (now + task_deadline cfg) now r"
  shows "ledger_wf c (run_task c memory_ledger cfg dispatch k now [(now, id)] id later id m) \<and>
    records_of c (run_task c memory_ledger cfg dispatch k now [(now, id)] id later id m) =
      (records_of c m)(k \<mapsto> (finish_task cfg r' (dispatch (request_of r')) r')\<lparr>updated_at_unix := later\<rparr>)"
proof -
  obtain m1 where m1: "claim_for_dispatch c memory_ledger k (now + task_deadline cfg) [(now, id)] m = (Some (Inr (Some r')), m1)"
      "hash_wf m1" "encoded c (map_of m1)" "records_of c m1 = (records_of c m)(k \<mapsto> r')"
    using mem.claim_for_dispatch_alone [OF assms(1) ledger_wfD [OF assms(2)] assms(3,4), where deadline = "now + task_deadline cfg", folded r'_def]
    by (elim exE conjE) (rule that)
  define mutate where "mutate = finish_task cfg r' (dispatch (request_of r'))"
  obtain m2 where m2: "ledger_update c memory_ledger k mutate later id m1 =
        (Inr (map_option (\<lambda>r. (mutate r)\<lparr>updated_at_unix := later\<rparr>) (records_of c m1 k)), m2)"
      "hash_wf m2" "encoded c (map_of m2)"
      "records_of c m2 = (case records_of c m1 k of None \<Rightarrow> records_of c m1
         | Some r \<Rightarrow> (records_of c m1)(k \<mapsto> (mutate r)\<lparr>updated_at_unix := later\<rparr>))"
    using mem.update_refines [OF assms(1) m1(2,3), where mutate = mutate and now = later and k = k]
    by (elim exE conjE) (rule that)
  have "run_task c memory_ledger cfg dispatch k now [(now, id)] id later id m = m2"
    using m2(1) by (simp only: run_task_def m1(1) prod.case option.case sum.case id_apply
        mutate_def [symmetric] snd_conv)
  then show ?thesis using m2(2-4) unfolding m1(4) by (simp add: ledger_wf_def mutate_def)
qed

lemma failing_run_step:
  assumes "postcard_ok c" "ledger_wf c m" "records_of c m k = Some r" "tr_state r = Pending" "\<not> permanent e"
  shows "\<exists>r'. ledger_wf c (failing_run c cfg e k now m) \<and> records_of c (failing_run c cfg e k now m) k = Some r' \<and>
    attempts r' = attempts r + 1 \<and>
    (if attempts r + 1 < max_attempts cfg then tr_state r' = Pending \<and> tr_input r' = tr_input r
     else tr_state r' = Failed (message e))"
proof -
  have "needs_dispatch r now" by (simp add: needs_dispatch_def assms(4))
  from run_task_due [OF assms(1-3) this, of cfg "\<lambda>_. Inl e" now] show ?thesis
    unfolding failing_run_def
    by (cases "max_attempts cfg \<le> attempts r + 1")
      (simp_all add: finish_task_def Let_def running_def assms(5) leD not_le [symmetric])
qed

lemma failing_run_terminal:
  assumes "postcard_ok c" "ledger_wf c m" "records_of c m k = Some r" "tr_state r = Failed msg"
  shows "failing_run c cfg e k now m = m"
proof -
  have "case records_of c m k of None \<Rightarrow> True | Some r \<Rightarrow> \<not> needs_dispatch r now"
    by (simp add: assms(3,4) needs_dispatch_def)
  from mem.claim_for_dispatch_refused [OF assms(1) ledger_wfD [OF assms(2)] this] show ?thesis
    by (simp only: failing_run_def run_task_def prod.case option.case sum.case)
qed

lemma unat_u32_less: "unat (x :: u32) < 2 ^ 32"
proof -
  have "unat x < 2 ^ LENGTH(32)" by (rule unsigned_less)
  then show ?thesis by simp
qed

lemma unat_u32_of_nat: "n < 2 ^ 32 \<Longrightarrow> unat (of_nat n :: u32) = n"
  by (simp add: unsigned_of_nat take_bit_nat_eq_self)

text \<open>
  C38: the retry budget.  A fresh task whose dispatch keeps failing transiently is dispatched once
  per run and stays pending, its input kept, until its budget of attempts is spent; it is then
  failed, and every later run leaves it untouched.
\<close>

theorem retry_budget:
  assumes "postcard_ok c" "ledger_wf c m" "records_of c m k = Some r" "tr_state r = Pending" "attempts r = 0"
    "\<not> permanent e" "0 < max_attempts cfg"
  shows "\<exists>r'. records_of c ((failing_run c cfg e k now ^^ n) m) k = Some r' \<and>
    attempts r' = of_nat (min n (unat (max_attempts cfg))) \<and>
    (if n < unat (max_attempts cfg) then tr_state r' = Pending \<and> tr_input r' = tr_input r
     else tr_state r' = Failed (message e))"
proof -
  let ?N = "unat (max_attempts cfg)"
  have "\<exists>r'. ledger_wf c ((failing_run c cfg e k now ^^ n) m) \<and>
    records_of c ((failing_run c cfg e k now ^^ n) m) k = Some r' \<and> attempts r' = of_nat (min n ?N) \<and>
    (if n < ?N then tr_state r' = Pending \<and> tr_input r' = tr_input r else tr_state r' = Failed (message e))"
  proof (induction n)
    case 0
    show ?case using assms by (simp add: unat_gt_0)
  next
    case (Suc n)
    define m1 where "m1 = (failing_run c cfg e k now ^^ n) m"
    from Suc [folded m1_def] obtain r1 where r1: "ledger_wf c m1" "records_of c m1 k = Some r1" "attempts r1 = of_nat (min n ?N)"
        "if n < ?N then tr_state r1 = Pending \<and> tr_input r1 = tr_input r else tr_state r1 = Failed (message e)"
      by (elim exE conjE) (rule that)
    have step: "(failing_run c cfg e k now ^^ Suc n) m = failing_run c cfg e k now m1" by (simp add: m1_def)
    show ?case
    proof (cases "n < ?N")
      case True
      with r1(4) have pend: "tr_state r1 = Pending" "tr_input r1 = tr_input r" by simp_all
      have next_attempt: "attempts r1 + 1 = of_nat (Suc n)" using True by (simp add: r1(3))
      have "unat (of_nat (Suc n) :: u32) = Suc n"
        using True unat_u32_less [of "max_attempts cfg"] by (intro unat_u32_of_nat) simp
      then have lt: "attempts r1 + 1 < max_attempts cfg \<longleftrightarrow> Suc n < ?N"
        unfolding next_attempt word_less_nat_alt by simp
      from failing_run_step [OF assms(1) r1(1,2) pend(1) assms(6), where cfg = cfg and now = now]
      obtain r2 where "ledger_wf c (failing_run c cfg e k now m1)"
          "records_of c (failing_run c cfg e k now m1) k = Some r2" "attempts r2 = of_nat (Suc n)"
          "if Suc n < ?N then tr_state r2 = Pending \<and> tr_input r2 = tr_input r else tr_state r2 = Failed (message e)"
        unfolding lt pend(2) unfolding next_attempt by (elim exE conjE) (rule that)
      moreover have "min (Suc n) ?N = Suc n" using True by simp
      ultimately show ?thesis unfolding step by (intro exI conjI) simp_all
    next
      case False
      with r1(4) have "tr_state r1 = Failed (message e)" by simp
      from failing_run_terminal [OF assms(1) r1(1,2) this] show ?thesis
        unfolding step using r1 False by simp
    qed
  qed
  then show ?thesis by (elim exE conjE) (intro exI conjI)
qed

theorem retry_budget_witness:
  "\<exists>r'. records_of plain_codec
      ((failing_run plain_codec trigger_config_default \<lparr>permanent = False, message = ''busy''\<rparr> ''k'' 200 ^^ 5)
         [(''k'', demo_task)]) ''k'' = Some r' \<and> tr_state r' = Failed ''busy''"
proof -
  let ?e = "\<lparr>permanent = False, message = ''busy''\<rparr>"
  have r: "records_of plain_codec [(''k'', demo_task)] ''k'' = Some demo_task"
    "tr_state demo_task = Pending" "attempts demo_task = 0"
    by (simp_all add: ledger_eval)
  have "\<not> permanent ?e" "0 < max_attempts trigger_config_default"
    by (simp_all add: trigger_config_default_def)
  from retry_budget [OF postcard_ok_plain demo_task_wf r this, where now = 200 and n = 5] show ?thesis
    by (auto simp: trigger_config_default_def)
qed

subsection \<open>The requeue pass\<close>

definition keyed_ledger :: "'b codec \<Rightarrow> (string, 'b) hash_map \<Rightarrow> bool" where
  "keyed_ledger c m \<longleftrightarrow> (\<forall>k r. records_of c m k = Some r \<longrightarrow> tr_key r = k)"

lemma collect_results_Inr: "\<forall>x\<in>set xs. g x = Inr (f x) \<Longrightarrow> collect_results (map g xs) = Inr (map f xs)"
  by (induction xs) simp_all

text \<open>The records of an in-memory ledger, in the order of its entries.\<close>

lemma ledger_all_memory:
  assumes "postcard_ok c" "ledger_wf c m"
  shows "ledger_all c memory_ledger m = Inr (map (\<lambda>x. the (records_of c m (fst x))) m)"
    "x \<in> set m \<Longrightarrow> records_of c m (fst x) \<noteq> None"
proof -
  have ok: "from_bytes c (snd x) = Inr (the (records_of c m (fst x))) \<and> records_of c m (fst x) \<noteq> None" if "x \<in> set m" for x
  proof -
    have get: "map_of m (fst x) = Some (snd x)"
      using that ledger_wfD(1) [OF assms(2)] by (simp add: hash_wf_def)
    obtain r where "to_stdvec c r = Inr (snd x)"
      using get ledger_wfD(2) [OF assms(2)] by (auto simp: encoded_def)
    then have "from_bytes c (snd x) = Inr r" using assms(1) by (simp add: postcard_decode)
    with get show ?thesis by (simp add: ledger_records_def)
  qed
  then have "collect_results (map (\<lambda>x. from_bytes c (snd x)) m) = Inr (map (\<lambda>x. the (records_of c m (fst x))) m)"
    by (intro collect_results_Inr) blast
  then show "ledger_all c memory_ledger m = Inr (map (\<lambda>x. the (records_of c m (fst x))) m)"
    by (simp add: ledger_all_def memory_ledger_def memory_list_def comp_def)
  show "x \<in> set m \<Longrightarrow> records_of c m (fst x) \<noteq> None" using ok by blast
qed

lemma give_up_update:
  assumes "postcard_ok c" "ledger_wf c m" "records_of c m k = Some r"
  shows "ledger_wf c (snd (ledger_update c memory_ledger k give_up now id m)) \<and>
    records_of c (snd (ledger_update c memory_ledger k give_up now id m)) =
      (records_of c m)(k \<mapsto> (give_up r)\<lparr>updated_at_unix := now\<rparr>)"
proof -
  from mem.update_refines [OF assms(1) ledger_wfD [OF assms(2)], where mutate = give_up and now = now and k = k]
  show ?thesis unfolding assms(3) by (elim exE conjE) (simp add: ledger_wf_def)
qed

definition spent :: "trigger_config \<Rightarrow> task_record list \<Rightarrow> task_key set" where
  "spent cfg rs = tr_key ` {r\<in>set rs. max_attempts cfg \<le> attempts r}"

lemma requeue_records_facts:
  assumes "postcard_ok c" "ledger_wf c m" "\<forall>r\<in>set rs. records_of c m (tr_key r) = Some r" "distinct (map tr_key rs)"
  shows "fst (requeue_records c memory_ledger cfg now rs m) =
      map tr_key (filter (\<lambda>r. attempts r < max_attempts cfg) rs) \<and>
    (\<forall>k. records_of c (snd (requeue_records c memory_ledger cfg now rs m)) k =
       (if k \<in> spent cfg rs then map_option (\<lambda>r. (give_up r)\<lparr>updated_at_unix := now\<rparr>) (records_of c m k)
        else records_of c m k))"
  using assms(2-)
proof (induction rs arbitrary: m)
  case Nil
  show ?case by (simp add: spent_def)
next
  case (Cons r rs)
  have r: "records_of c m (tr_key r) = Some r" using Cons.prems(2) by simp
  have fresh: "tr_key r \<notin> spent cfg rs" using Cons.prems(3) by (auto simp: spent_def)
  show ?case
  proof (cases "max_attempts cfg \<le> attempts r")
    case False
    then have "spent cfg (r # rs) = spent cfg rs" by (auto simp: spent_def)
    moreover have "\<forall>x\<in>set rs. records_of c m (tr_key x) = Some x" "distinct (map tr_key rs)"
      using Cons.prems by simp_all
    ultimately show ?thesis
      using Cons.IH [OF Cons.prems(1)] False by (simp add: split_beta Let_def)
  next
    case True
    define m1 where "m1 = snd (ledger_update c memory_ledger (tr_key r) give_up now id m)"
    note m1 = give_up_update [OF assms(1) Cons.prems(1) r, of now, folded m1_def]
    have sp: "spent cfg (r # rs) = insert (tr_key r) (spent cfg rs)" using True by (auto simp: spent_def)
    have "\<forall>x\<in>set rs. tr_key x \<noteq> tr_key r" using Cons.prems(3) by (auto simp: image_iff)
    then have "\<forall>x\<in>set rs. records_of c m1 (tr_key x) = Some x"
      using Cons.prems(2) by (simp add: conjunct2 [OF m1])
    from Cons.IH [OF conjunct1 [OF m1] this] Cons.prems(3) True show ?thesis
      unfolding sp by (simp add: m1_def [symmetric] conjunct2 [OF m1] fresh r)
  qed
qed

text \<open>
  A requeue pass without interference re-dispatches exactly the due tasks with attempts left,
  fails exactly the due tasks whose budget is spent, and leaves every other record as it was.
\<close>

theorem requeue_pass:
  assumes "postcard_ok c" "ledger_wf c m" "keyed_ledger c m"
  shows "\<exists>ks m'. requeue_due c memory_ledger cfg now id m = (ks, m') \<and>
    set ks = {k. \<exists>r. records_of c m k = Some r \<and> needs_dispatch r now \<and> attempts r < max_attempts cfg} \<and>
    (\<forall>k. records_of c m' k =
       (case records_of c m k of
          None \<Rightarrow> None
        | Some r \<Rightarrow> if needs_dispatch r now \<and> attempts r \<ge> max_attempts cfg
                    then Some ((give_up r)\<lparr>updated_at_unix := now\<rparr>) else Some r))"
proof -
  let ?all = "map (\<lambda>x. the (records_of c m (fst x))) m"
  define due where "due = filter (\<lambda>r. needs_dispatch r now) ?all"
  have scan: "needing_dispatch c memory_ledger now m = Inr due"
    by (simp add: needing_dispatch_def ledger_all_memory(1) [OF assms(1,2)] due_def)
  have key: "tr_key (the (records_of c m (fst x))) = fst x" if "x \<in> set m" for x
    using ledger_all_memory(2) [OF assms(1,2) that] assms(3) by (auto simp: keyed_ledger_def)
  then have "map tr_key ?all = map fst m" by simp
  then have dist: "distinct (map tr_key due)"
    using ledger_wfD(1) [OF assms(2)] by (metis due_def distinct_map_filter hash_wf_def)
  have mem: "r \<in> set due \<longleftrightarrow> (\<exists>k. records_of c m k = Some r \<and> needs_dispatch r now)" for r
  proof -
    have "k \<in> fst ` set m" if "records_of c m k = Some r" for k
      using that by (force simp: ledger_records_def dest: map_of_SomeD split: option.splits)
    then have "r \<in> set ?all \<longleftrightarrow> (\<exists>k. records_of c m k = Some r)"
      using ledger_all_memory(2) [OF assms(1,2)] by force
    then show ?thesis by (auto simp: due_def)
  qed
  have keyed: "records_of c m k = Some r \<Longrightarrow> tr_key r = k" for k r
    using assms(3) by (simp add: keyed_ledger_def)
  have own: "\<forall>r\<in>set due. records_of c m (tr_key r) = Some r"
    using mem keyed by blast
  have req: "requeue_due c memory_ledger cfg now id m = requeue_records c memory_ledger cfg now due m"
    by (simp add: requeue_due_def scan)
  have sp: "k \<in> spent cfg due \<longleftrightarrow> (\<exists>r. records_of c m k = Some r \<and> needs_dispatch r now \<and> max_attempts cfg \<le> attempts r)" for k
    unfolding spent_def using mem keyed by blast
  note facts = requeue_records_facts [OF assms(1,2) own dist, of cfg now]
  show ?thesis
  proof (intro exI conjI allI)
    show "requeue_due c memory_ledger cfg now id m =
        (fst (requeue_records c memory_ledger cfg now due m), snd (requeue_records c memory_ledger cfg now due m))"
      by (simp add: req)
  next
    show "set (fst (requeue_records c memory_ledger cfg now due m)) =
        {k. \<exists>r. records_of c m k = Some r \<and> needs_dispatch r now \<and> attempts r < max_attempts cfg}"
      unfolding conjunct1 [OF facts] set_map set_filter using mem keyed by blast
  next
    fix k
    show "records_of c (snd (requeue_records c memory_ledger cfg now due m)) k =
        (case records_of c m k of None \<Rightarrow> None
         | Some r \<Rightarrow> if needs_dispatch r now \<and> attempts r \<ge> max_attempts cfg
                     then Some ((give_up r)\<lparr>updated_at_unix := now\<rparr>) else Some r)"
      unfolding conjunct2 [OF facts, rule_format] sp by (cases "records_of c m k") simp_all
  qed
qed

theorem requeue_pass_witness:
  "\<exists>ks m'. requeue_due plain_codec memory_ledger trigger_config_default 300 id [(''k'', demo_task)] = (ks, m') \<and> set ks = {''k''}"
proof -
  have "keyed_ledger plain_codec [(''k'', demo_task)]"
    by (simp add: keyed_ledger_def ledger_eval split: if_splits)
  note pass = requeue_pass [OF postcard_ok_plain demo_task_wf this, of trigger_config_default 300]
  have "{k. \<exists>r. records_of plain_codec [(''k'', demo_task)] k = Some r \<and> needs_dispatch r 300 \<and>
      attempts r < max_attempts trigger_config_default} = {''k''}"
    by (auto simp: ledger_eval trigger_config_default_def split: if_splits)
  with pass show ?thesis by (elim exE conjE) (intro exI conjI, simp_all)
qed

subsection \<open>A completed task can be reopened\<close>

text \<open>
  The outcome of a run is written by \<^verbatim>\<open>update\<close>, a read followed by an unconditional write, and not
  by a compare-and-swap on the claimed record.  A run that outlives its deadline therefore
  overwrites what a later owner of the task recorded: below, while a first dispatch is still
  failing, a second owner completes the task; the first one then puts the record back to pending,
  with the empty input of a completed task, and the next requeue pass dispatches it again.
\<close>

definition finished_run :: "(string, task_record) hash_map \<Rightarrow> (string, task_record) hash_map" where
  "finished_run m = run_task plain_codec memory_ledger trigger_config_default
     (\<lambda>_. Inr \<lparr>executor = 9, completed = \<lparr>task_output = ''png'', metrics =
        \<lparr>fuel_consumed = 1, duration_ms = 1, peak_memory_bytes = 1\<rparr>\<rparr>\<rparr>)
     ''k'' 600 [(600, id)] id 601 id m"

definition late_run :: "(string, task_record) hash_map \<Rightarrow> (string, task_record) hash_map" where
  "late_run m = run_task plain_codec memory_ledger trigger_config_default
     (\<lambda>_. Inl \<lparr>permanent = False, message = ''busy''\<rparr>) ''k'' 200 [(200, id)] finished_run 700 id m"

lemma done_task_reopened:
  "map_option tr_state (map_of (finished_run [(''k'', running 500 200 demo_task)]) ''k'') = Some (Done 9)"
  "map_option tr_state (map_of (late_run [(''k'', demo_task)]) ''k'') = Some Pending"
  "map_option tr_input (map_of (late_run [(''k'', demo_task)]) ''k'') = Some ''''"
  "fst (requeue_due plain_codec memory_ledger trigger_config_default 800 id (late_run [(''k'', demo_task)])) = [''k'']"
  by (simp_all add: finished_run_def late_run_def run_task_def ledger_update_def ledger_get_def
      finish_task_def trigger_config_default_def requeue_due_def needing_dispatch_def ledger_all_def
      memory_list_def Let_def word_le_nat_alt ledger_eval)

subsection \<open>Task keys\<close>

text \<open>
  The key of a triggered task determines the rule and the event, when rule names do not
  contain the unit separator and the digest does not collide on the strings involved.
\<close>

theorem dedup_key_inj:
  assumes "inj_on hx {i @ [char_of (0x1f :: nat)] @ ev, j @ [char_of (0x1f :: nat)] @ ev'}"
    "char_of (0x1f :: nat) \<notin> set i" "char_of (0x1f :: nat) \<notin> set j"
  shows "dedup_key hx i ev = dedup_key hx j ev' \<longleftrightarrow> i = j \<and> ev = ev'"
proof
  assume "dedup_key hx i ev = dedup_key hx j ev'"
  then have "i @ [char_of (0x1f :: nat)] @ ev = j @ [char_of (0x1f :: nat)] @ ev'"
    unfolding dedup_key_def by (rule inj_onD [OF assms(1)]) (rule insertI1, rule insertI2, rule singletonI)
  then have eq: "i @ char_of (0x1f :: nat) # ev = j @ char_of (0x1f :: nat) # ev'" by (simp only: append_Cons append_Nil)
  have "takeWhile (\<lambda>x. x \<noteq> char_of (0x1f :: nat)) (s @ char_of (0x1f :: nat) # t) = s"
    if "char_of (0x1f :: nat) \<notin> set s" for s t :: string
    using that by (induction s) auto
  from this [OF assms(2), of ev] this [OF assms(3), of ev'] have "i = j" unfolding eq by simp
  with eq show "i = j \<and> ev = ev'" by simp
qed simp

theorem dedup_key_inj_witness: "dedup_key id ''a'' ''x'' \<noteq> dedup_key id ''b'' ''x''"
proof -
  have "char_of (0x1f :: nat) \<notin> set ''a''" "char_of (0x1f :: nat) \<notin> set ''b''"
    by (simp_all add: char_of_def)
  from dedup_key_inj [OF inj_on_id this, where ev = "''x''" and ev' = "''x''"] show ?thesis by simp
qed

end
