(* ===== verification/Sql_Types.thy ===== *)
theory Sql_Types
  imports Sql_Error
begin

text \<open>
  The SQL type system (\<^verbatim>\<open>src/relational/types.rs\<close>): the type enumeration, its PostgreSQL OIDs, names
  and classes, and the parser of type names.  Constructors that a value of the value model also has
  carry the suffix \<open>_type\<close>.
\<close>

datatype sql_type =
    Boolean | SmallInt | Integer | BigInt | Real | DoublePrecision
  | Numeric_type "u32 option" "u32 option"
  | Text_type | Varchar "u32 option" | Char_type "u32 option" | Bytea_type | Uuid_type
  | Date_type | Time_type | Timestamp_type | Timestamptz_type | Json_type | Jsonb
  | Array_type sql_type | Citext_type | Vector_type "u32 option" | HStore_type | Ltree_type
  | Cube_type | TsVector_type | TsQuery_type | Unknown

fun array_oid :: "sql_type \<Rightarrow> nat" where
  "array_oid Boolean = 1000"
| "array_oid Bytea_type = 1001"
| "array_oid (Char_type _) = 1014"
| "array_oid BigInt = 1016"
| "array_oid SmallInt = 1005"
| "array_oid Integer = 1007"
| "array_oid Text_type = 1009"
| "array_oid Json_type = 199"
| "array_oid Real = 1021"
| "array_oid DoublePrecision = 1022"
| "array_oid (Varchar _) = 1015"
| "array_oid Date_type = 1182"
| "array_oid Time_type = 1183"
| "array_oid Timestamp_type = 1115"
| "array_oid Timestamptz_type = 1185"
| "array_oid (Numeric_type _ _) = 1231"
| "array_oid Uuid_type = 2951"
| "array_oid TsVector_type = 3643"
| "array_oid TsQuery_type = 3645"
| "array_oid Jsonb = 3807"
| "array_oid _ = 1009"

fun oid :: "sql_type \<Rightarrow> nat" where
  "oid Boolean = 16"
| "oid Bytea_type = 17"
| "oid (Char_type _) = 1042"
| "oid BigInt = 20"
| "oid SmallInt = 21"
| "oid Integer = 23"
| "oid Text_type = 25"
| "oid Json_type = 114"
| "oid Real = 700"
| "oid DoublePrecision = 701"
| "oid (Varchar _) = 1043"
| "oid Date_type = 1082"
| "oid Time_type = 1083"
| "oid Timestamp_type = 1114"
| "oid Timestamptz_type = 1184"
| "oid (Numeric_type _ _) = 1700"
| "oid Uuid_type = 2950"
| "oid TsVector_type = 3614"
| "oid TsQuery_type = 3615"
| "oid Jsonb = 3802"
| "oid (Array_type t) = array_oid t"
| "oid Citext_type = 16390"
| "oid (Vector_type _) = 16388"
| "oid HStore_type = 16392"
| "oid Ltree_type = 16394"
| "oid Cube_type = 16396"
| "oid Unknown = 705"

definition type_len :: "sql_type \<Rightarrow> int" where
  "type_len t =
     (if t = Boolean then 1
      else if t = SmallInt then 2
      else if t \<in> {Integer, Real, Date_type} then 4
      else if t \<in> {BigInt, DoublePrecision, Time_type, Timestamp_type, Timestamptz_type} then 8
      else if t = Uuid_type then 16
      else -1)"

definition with_modifier :: "string \<Rightarrow> u32 option \<Rightarrow> string" where
  "with_modifier base m =
     (case m of None \<Rightarrow> base | Some n \<Rightarrow> base @ ''('' @ show_nat (unat n) @ '')'')"

fun type_name :: "sql_type \<Rightarrow> string" where
  "type_name Boolean = ''boolean''"
| "type_name SmallInt = ''smallint''"
| "type_name Integer = ''integer''"
| "type_name BigInt = ''bigint''"
| "type_name Real = ''real''"
| "type_name DoublePrecision = ''double precision''"
| "type_name (Numeric_type (Some p) (Some s)) =
     ''numeric('' @ show_nat (unat p) @ '','' @ show_nat (unat s) @ '')''"
| "type_name (Numeric_type (Some p) None) = ''numeric('' @ show_nat (unat p) @ '')''"
| "type_name (Numeric_type None _) = ''numeric''"
| "type_name Text_type = ''text''"
| "type_name (Varchar m) = with_modifier ''character varying'' m"
| "type_name (Char_type m) = with_modifier ''character'' m"
| "type_name Bytea_type = ''bytea''"
| "type_name Uuid_type = ''uuid''"
| "type_name Date_type = ''date''"
| "type_name Time_type = ''time without time zone''"
| "type_name Timestamp_type = ''timestamp without time zone''"
| "type_name Timestamptz_type = ''timestamp with time zone''"
| "type_name Json_type = ''json''"
| "type_name Jsonb = ''jsonb''"
| "type_name (Array_type t) = type_name t @ ''[]''"
| "type_name Citext_type = ''citext''"
| "type_name (Vector_type m) = with_modifier ''vector'' m"
| "type_name HStore_type = ''hstore''"
| "type_name Ltree_type = ''ltree''"
| "type_name Cube_type = ''cube''"
| "type_name TsVector_type = ''tsvector''"
| "type_name TsQuery_type = ''tsquery''"
| "type_name Unknown = ''unknown''"

fun information_schema_name :: "sql_type \<Rightarrow> string" where
  "information_schema_name (Varchar _) = ''character varying''"
| "information_schema_name (Char_type _) = ''character''"
| "information_schema_name (Array_type _) = ''ARRAY''"
| "information_schema_name t = type_name t"

fun udt_name :: "sql_type \<Rightarrow> string" where
  "udt_name Boolean = ''bool''"
| "udt_name SmallInt = ''int2''"
| "udt_name Integer = ''int4''"
| "udt_name BigInt = ''int8''"
| "udt_name Real = ''float4''"
| "udt_name DoublePrecision = ''float8''"
| "udt_name (Numeric_type _ _) = ''numeric''"
| "udt_name Text_type = ''text''"
| "udt_name (Varchar _) = ''varchar''"
| "udt_name (Char_type _) = ''bpchar''"
| "udt_name Bytea_type = ''bytea''"
| "udt_name Uuid_type = ''uuid''"
| "udt_name Date_type = ''date''"
| "udt_name Time_type = ''time''"
| "udt_name Timestamp_type = ''timestamp''"
| "udt_name Timestamptz_type = ''timestamptz''"
| "udt_name Json_type = ''json''"
| "udt_name Jsonb = ''jsonb''"
| "udt_name (Array_type t) = ''_'' @ udt_name t"
| "udt_name Citext_type = ''citext''"
| "udt_name (Vector_type _) = ''vector''"
| "udt_name HStore_type = ''hstore''"
| "udt_name Ltree_type = ''ltree''"
| "udt_name Cube_type = ''cube''"
| "udt_name TsVector_type = ''tsvector''"
| "udt_name TsQuery_type = ''tsquery''"
| "udt_name Unknown = ''unknown''"

fun is_numeric :: "sql_type \<Rightarrow> bool" where
  "is_numeric (Numeric_type _ _) = True"
| "is_numeric t = (t \<in> {SmallInt, Integer, BigInt, Real, DoublePrecision})"

definition is_integer :: "sql_type \<Rightarrow> bool" where
  "is_integer t \<longleftrightarrow> t \<in> {SmallInt, Integer, BigInt}"

fun is_string :: "sql_type \<Rightarrow> bool" where
  "is_string (Varchar _) = True"
| "is_string (Char_type _) = True"
| "is_string t = (t \<in> {Text_type, Citext_type})"

definition is_temporal :: "sql_type \<Rightarrow> bool" where
  "is_temporal t \<longleftrightarrow> t \<in> {Date_type, Time_type, Timestamp_type, Timestamptz_type}"

subsection \<open>The parser of type names\<close>

abbreviation "u32_max \<equiv> 2 ^ 32 - 1 :: nat"

definition parse_mods :: "string option \<Rightarrow> u32 list" where
  "parse_mods m =
     (case m of
        None \<Rightarrow> []
      | Some s \<Rightarrow> map of_nat (List.map_filter (\<lambda>x. parse_unsigned u32_max (trim x)) (split_char CHR '','' s)))"

definition nth_opt :: "'a list \<Rightarrow> nat \<Rightarrow> 'a option" where
  "nth_opt xs i = (if i < length xs then Some (xs ! i) else None)"

definition type_of_base :: "string \<Rightarrow> u32 list \<Rightarrow> rel_error + sql_type" where
  "type_of_base base mods =
     (if base \<in> {''bool'', ''boolean''} then Inr Boolean
      else if base \<in> {''int2'', ''smallint'', ''smallserial'', ''serial2''} then Inr SmallInt
      else if base \<in> {''int'', ''int4'', ''integer'', ''serial'', ''serial4''} then Inr Integer
      else if base \<in> {''int8'', ''bigint'', ''bigserial'', ''serial8''} then Inr BigInt
      else if base \<in> {''real'', ''float4''} then Inr Real
      else if base \<in> {''double precision'', ''float8'', ''double''} then Inr DoublePrecision
      else if base = ''float'' then Inr DoublePrecision
      else if base \<in> {''numeric'', ''decimal''} then Inr (Numeric_type (nth_opt mods 0) (nth_opt mods 1))
      else if base = ''text'' then Inr Text_type
      else if base \<in> {''varchar'', ''character varying''} then Inr (Varchar (nth_opt mods 0))
      else if base \<in> {''char'', ''character'', ''bpchar''} then Inr (Char_type (nth_opt mods 0))
      else if base = ''bytea'' then Inr Bytea_type
      else if base = ''uuid'' then Inr Uuid_type
      else if base = ''date'' then Inr Date_type
      else if base \<in> {''time'', ''time without time zone''} then Inr Time_type
      else if base \<in> {''timestamp'', ''timestamp without time zone''} then Inr Timestamp_type
      else if base \<in> {''timestamptz'', ''timestamp with time zone''} then Inr Timestamptz_type
      else if base = ''json'' then Inr Json_type
      else if base = ''jsonb'' then Inr Jsonb
      else if base \<in> {''oid'', ''regclass'', ''regtype'', ''regproc'', ''regrole'', ''regnamespace'',
        ''xid'', ''cid''} then Inr Integer
      else if base = ''name'' then Inr Text_type
      else if base = ''citext'' then Inr Citext_type
      else if base = ''vector'' then Inr (Vector_type (nth_opt mods 0))
      else if base = ''hstore'' then Inr HStore_type
      else if base = ''ltree'' then Inr Ltree_type
      else if base = ''cube'' then Inr Cube_type
      else if base = ''tsvector'' then Inr TsVector_type
      else if base = ''tsquery'' then Inr TsQuery_type
      else Inl (UndefinedType base))"

definition normal_name :: "string \<Rightarrow> string" where
  "normal_name name = to_lowercase (filter (\<lambda>c. c \<noteq> CHR 0x22) (trim name))"

definition parse_scalar :: "string \<Rightarrow> rel_error + sql_type" where
  "parse_scalar lower =
     (case split_once CHR ''('' lower of
        Some (b, rest) \<Rightarrow> type_of_base (trim b) (parse_mods (Some (trim_end_matches CHR '')'' rest)))
      | None \<Rightarrow> type_of_base lower (parse_mods None))"

lemma length_normal_name: "length (normal_name name) \<le> length name"
  unfolding normal_name_def to_lowercase_def length_map
  by (rule le_trans [OF length_filter_le length_trim])

function type_parse :: "string \<Rightarrow> rel_error + sql_type" where
  "type_parse name =
     (let lower = normal_name name
      in case strip_suffix ''[]'' lower of
           Some base \<Rightarrow> (case type_parse base of Inl e \<Rightarrow> Inl e | Inr t \<Rightarrow> Inr (Array_type t))
         | None \<Rightarrow> parse_scalar lower)"
  by pat_completeness auto
termination
proof (relation "measure length", goal_cases)
  case (2 name lower base)
  then have "length lower = length base + 2" by (auto dest!: strip_suffix_SomeD)
  with 2(1) length_normal_name [of name] show ?case by simp
qed simp

declare type_parse.simps [simp del]

definition is_serial_name :: "string \<Rightarrow> sql_type option" where
  "is_serial_name name =
     (let n = to_lowercase (trim name)
      in if n \<in> {''smallserial'', ''serial2''} then Some SmallInt
         else if n \<in> {''serial'', ''serial4''} then Some Integer
         else if n \<in> {''bigserial'', ''serial8''} then Some BigInt
         else None)"

subsection \<open>Type names and their parser\<close>

text \<open>The types whose name shows all of their modifiers.\<close>

fun printable :: "sql_type \<Rightarrow> bool" where
  "printable (Numeric_type None (Some _)) = False"
| "printable Unknown = False"
| "printable (Array_type t) = printable t"
| "printable _ = True"

definition name_char :: "char \<Rightarrow> bool" where
  "name_char c \<longleftrightarrow> lower_char c = c \<and> c \<noteq> CHR 0x22"

lemma name_char_digit: "is_digit c \<Longrightarrow> name_char c"
  by (auto simp: name_char_def digit_plain is_digit_def)

lemma name_chars: "\<forall>c\<in>set (type_name t). name_char c"
proof -
  have dig: "\<forall>c\<in>set (show_nat n). name_char c" for n
    by (blast intro: name_char_digit show_nat_digits)
  show ?thesis
    by (induction t rule: type_name.induct)
      (simp_all add: dig ball_Un with_modifier_def split: option.splits,
       simp_all add: name_char_def lower_char_def is_upper_def)
qed

lemma name_ends:
  "type_name t \<noteq> [] \<and> \<not> is_whitespace (hd (type_name t)) \<and> \<not> is_whitespace (last (type_name t))"
  by (induction t rule: type_name.induct)
    (simp_all add: with_modifier_def is_whitespace_def split: option.splits)

lemma normal_name_type_name [simp]: "normal_name (type_name t) = type_name t"
proof -
  have "trim (type_name t) = type_name t" using name_ends by (intro trim_same) blast
  moreover have "filter (\<lambda>c. c \<noteq> CHR 0x22) (type_name t) = type_name t"
    using name_chars by (simp add: filter_id_conv name_char_def)
  moreover have "map lower_char (type_name t) = type_name t"
    using name_chars by (simp add: map_idI name_char_def)
  ultimately show ?thesis by (simp add: normal_name_def to_lowercase_def)
qed

lemma show_nat_free:
  "\<not> is_digit c \<Longrightarrow> c \<notin> set (show_nat n)"
  using show_nat_digits by blast

lemma trim_show_nat [simp]: "trim (show_nat n) = show_nat n"
  by (intro trim_free ballI) (simp add: digit_plain show_nat_digits)

lemma u32_le [simp]: "unat (p :: u32) \<le> 4294967295"
  using unsigned_less [of p, where ?'a = nat] by simp

lemma parse_mods_one: "parse_mods (Some (show_nat (unat p))) = [p]"
  by (simp add: parse_mods_def split_char_id show_nat_free is_digit_def List.map_filter_def)

lemma parse_mods_two: "parse_mods (Some (show_nat (unat p) @ CHR '','' # show_nat (unat q))) = [p, q]"
  by (simp add: parse_mods_def split_char_append split_char_id show_nat_free is_digit_def List.map_filter_def)

lemma trim_end_paren:
  assumes "s \<noteq> []" "last s \<noteq> c"
  shows "trim_end_matches c (s @ [c]) = s"
  using assms by (simp add: trim_end_matches_def dropWhile_same hd_rev)

lemma last_show_nat: "\<not> is_digit c \<Longrightarrow> last (show_nat n) \<noteq> c"
  using show_nat_digits [of "last (show_nat n)" n] by auto

lemma parse_scalar_one:
  assumes "CHR ''('' \<notin> set b" "trim b = b"
  shows "parse_scalar (b @ CHR ''('' # show_nat (unat (p :: u32)) @ '')'') = type_of_base b [p]"
  using assms by (simp add: parse_scalar_def trim_end_paren last_show_nat is_digit_def parse_mods_one)

lemma parse_scalar_two:
  assumes "CHR ''('' \<notin> set b" "trim b = b"
  shows "parse_scalar (b @ CHR ''('' # show_nat (unat (p :: u32)) @ CHR '','' # show_nat (unat (q :: u32)) @ '')'') =
    type_of_base b [p, q]"
proof -
  have "trim_end_matches CHR '')'' ((show_nat (unat p) @ CHR '','' # show_nat (unat q)) @ '')'') =
      show_nat (unat p) @ CHR '','' # show_nat (unat q)"
    by (rule trim_end_paren) (simp_all add: last_show_nat is_digit_def)
  with assms show ?thesis by (simp add: parse_scalar_def parse_mods_two)
qed

lemma parse_scalar_plain: "CHR ''('' \<notin> set b \<Longrightarrow> parse_scalar b = type_of_base b []"
  by (simp add: parse_scalar_def split_once_None parse_mods_def)

lemma parse_scalar_name:
  assumes "\<forall>u. t \<noteq> Array_type u"
  shows "parse_scalar (type_name t) =
    (if t = Unknown then Inl (UndefinedType ''unknown'')
     else case t of Numeric_type None _ \<Rightarrow> Inr (Numeric_type None None) | _ \<Rightarrow> Inr t)"
proof (cases t rule: type_name.cases)
  case (7 p s)
  then show ?thesis using parse_scalar_two [of "''numeric''" p s]
    by (simp add: trim_free is_whitespace_def type_of_base_def nth_opt_def)
next
  case (8 p)
  then show ?thesis using parse_scalar_one [of "''numeric''" p]
    by (simp add: trim_free is_whitespace_def type_of_base_def nth_opt_def)
next
  case (11 m)
  then show ?thesis using parse_scalar_one [of "''character varying''"]
    by (cases m) (simp_all add: with_modifier_def trim_same is_whitespace_def type_of_base_def nth_opt_def parse_scalar_plain)
next
  case (12 m)
  then show ?thesis using parse_scalar_one [of "''character''"]
    by (cases m) (simp_all add: with_modifier_def trim_same is_whitespace_def type_of_base_def nth_opt_def parse_scalar_plain)
next
  case (23 m)
  then show ?thesis using parse_scalar_one [of "''vector''"]
    by (cases m) (simp_all add: with_modifier_def trim_same is_whitespace_def type_of_base_def nth_opt_def parse_scalar_plain)
qed (use assms in \<open>simp_all add: parse_scalar_plain type_of_base_def nth_opt_def\<close>)

lemma type_parse_scalar:
  assumes "\<forall>u. t \<noteq> Array_type u"
  shows "type_parse (type_name t) = parse_scalar (type_name t)"
proof -
  have "last (type_name t) \<noteq> CHR '']''" using assms
    by (cases t rule: type_name.cases) (simp_all add: with_modifier_def split: option.splits)
  then have "strip_suffix ''[]'' (type_name t) = None"
    using name_ends by (intro strip_suffix_last) simp_all
  then show ?thesis by (subst type_parse.simps) (simp add: Let_def)
qed

lemma type_parse_array:
  "type_parse (type_name (Array_type t)) =
     (case type_parse (type_name t) of Inl e \<Rightarrow> Inl e | Inr t \<Rightarrow> Inr (Array_type t))"
  by (subst type_parse.simps) (simp add: Let_def del: type_name.simps, simp)

text \<open>
  Reading back the name of a type gives the type, exactly for the types other than the
  placeholder \<^verbatim>\<open>unknown\<close> and numeric with a scale and no precision, and the arrays of these.
\<close>

theorem type_name_roundtrip: "type_parse (type_name t) = Inr t \<longleftrightarrow> printable t"
proof (induction t)
  case (Array_type t)
  then show ?case by (cases "type_parse (type_name t)") (simp_all add: type_parse_array del: type_name.simps)
next
  case (Numeric_type p s)
  then show ?case by (cases p; cases s) (simp_all add: type_parse_scalar parse_scalar_name del: type_name.simps)
qed (simp_all add: type_parse_scalar parse_scalar_name del: type_name.simps)

text \<open>A serial column name is parsed to the integer type the column gets.\<close>

lemma serial_parse: "is_serial_name n = Some t \<Longrightarrow> type_parse n = Inr t"
proof -
  assume s: "is_serial_name n = Some t"
  define l where "l = to_lowercase (trim n)"
  from s have l: "(l, t) \<in> {(''smallserial'', SmallInt), (''serial2'', SmallInt), (''serial'', Integer),
      (''serial4'', Integer), (''bigserial'', BigInt), (''serial8'', BigInt)}"
    unfolding is_serial_name_def l_def [symmetric] by (auto simp: Let_def split: if_splits)
  have "CHR 0x22 \<notin> set l" using l by auto
  then have "CHR 0x22 \<notin> set (trim n)"
    by (auto simp: l_def to_lowercase_def lower_char_def is_upper_def intro: image_eqI)
  then have "filter (\<lambda>c. c \<noteq> CHR 0x22) (trim n) = trim n" by (auto simp: filter_id_conv)
  then have "normal_name n = l" by (simp add: normal_name_def l_def)
  moreover have "strip_suffix ''[]'' l = None" using l by (auto intro!: strip_suffix_last)
  ultimately show ?thesis using l
    by (subst type_parse.simps) (auto simp: Let_def parse_scalar_plain type_of_base_def)
qed

text \<open>The OID of a type that is not an array determines its catalog name.\<close>

definition pg_types :: "(nat \<times> string) list" where
  "pg_types = map (\<lambda>t. (oid t, udt_name t))
     [Boolean, SmallInt, Integer, BigInt, Real, DoublePrecision, Numeric_type None None, Text_type,
      Varchar None, Char_type None, Bytea_type, Uuid_type, Date_type, Time_type, Timestamp_type,
      Timestamptz_type, Json_type, Jsonb, Citext_type, Vector_type None, HStore_type, Ltree_type,
      Cube_type, TsVector_type, TsQuery_type, Unknown]"

lemma oid_udt_name:
  assumes "\<forall>u. s \<noteq> Array_type u" "\<forall>u. t \<noteq> Array_type u" "oid s = oid t"
  shows "udt_name s = udt_name t"
proof -
  have "map_of pg_types (oid u) = Some (udt_name u)" if "\<forall>v. u \<noteq> Array_type v" for u
    using that by (cases u) (simp_all add: pg_types_def)
  from this [OF assms(1)] this [OF assms(2)] show ?thesis by (simp add: assms(3))
qed

end
