(* ===== verification/Sql_Value.thy ===== *)
theory Sql_Value
  imports Sql_Types "HOL-Library.Product_Lexorder" "HOL-Library.Option_ord"
begin

text \<open>
  The value model of the SQL layer (\<^verbatim>\<open>src/relational/value.rs\<close>): the values, their text form, the
  text parsers of booleans, integers, arrays, hstore and ltree, the comparison with SQL
  three-valued logic and the index key.

  Values whose representation is a floating-point number or a type of another crate (decimal,
  uuid, date and time, JSON) or whose text form is built by another module are \<open>Opaque\<close>: such a
  value is given by its type, its text form and its conversion to a 64-bit integer, which is all
  that the modelled code reads of it.
\<close>

subsection \<open>Values\<close>

type_synonym pairs = "(string, string option) btree_map"

datatype sql_value =
    Null
  | Bool bool
  | Int2 int
  | Int4 int
  | Int8 int
  | Text string
  | Array "sql_value list"
  | Citext string
  | HStore pairs
  | Ltree string
  | Opaque sql_type string "int option"

definition is_null :: "sql_value \<Rightarrow> bool" where
  "is_null v \<longleftrightarrow> v = Null"

fun type_of :: "sql_value \<Rightarrow> sql_type" where
  "type_of Null = Unknown"
| "type_of (Bool _) = Boolean"
| "type_of (Int2 _) = SmallInt"
| "type_of (Int4 _) = Integer"
| "type_of (Int8 _) = BigInt"
| "type_of (Text _) = Text_type"
| "type_of (Array []) = Array_type Text_type"
| "type_of (Array (v # _)) = Array_type (type_of v)"
| "type_of (Citext _) = Citext_type"
| "type_of (HStore _) = HStore_type"
| "type_of (Ltree _) = Ltree_type"
| "type_of (Opaque t _ _) = t"

fun as_i64 :: "sql_value \<Rightarrow> int option" where
  "as_i64 (Int2 n) = Some n"
| "as_i64 (Int4 n) = Some n"
| "as_i64 (Int8 n) = Some n"
| "as_i64 (Opaque _ _ n) = n"
| "as_i64 _ = None"

fun as_bool :: "sql_value \<Rightarrow> bool option" where
  "as_bool (Bool b) = Some b"
| "as_bool _ = None"

fun as_str :: "sql_value \<Rightarrow> string option" where
  "as_str (Text s) = Some s"
| "as_str (Citext s) = Some s"
| "as_str _ = None"

fun truthy :: "sql_value \<Rightarrow> bool option" where
  "truthy (Bool b) = Some b"
| "truthy Null = None"
| "truthy _ = None"

subsection \<open>Text output\<close>

abbreviation "dquote \<equiv> CHR 0x22"
abbreviation "backslash \<equiv> CHR 0x5C"

text \<open>The escaping of array elements and of hstore keys and values inside double quotes.\<close>

definition escape :: "string \<Rightarrow> string" where
  "escape t = replace_char dquote [backslash, dquote] (replace_char backslash [backslash, backslash] t)"

definition quote :: "string \<Rightarrow> string" where
  "quote t = [dquote] @ escape t @ [dquote]"

definition needs_quote :: "string \<Rightarrow> bool" where
  "needs_quote t \<longleftrightarrow> t = [] \<or>
     list_ex (\<lambda>c. c \<in> {CHR '','', CHR ''{'', CHR ''}'', dquote, backslash, CHR '' ''}) t \<or>
     eq_ignore_ascii_case t ''null''"

text \<open>One element: whether it is an array itself, and its text.\<close>

definition array_elem :: "bool \<times> string option \<Rightarrow> string" where
  "array_elem e =
     (case e of
        (_, None) \<Rightarrow> ''NULL''
      | (nested, Some t) \<Rightarrow> if nested then t else if needs_quote t then quote t else t)"

definition format_array :: "(bool \<times> string option) list \<Rightarrow> string" where
  "format_array items = ''{'' @ join_char CHR '','' (map array_elem items) @ ''}''"

definition hstore_cmp :: "string \<times> string option \<Rightarrow> string \<times> string option \<Rightarrow> ordering" where
  "hstore_cmp a b = then_with (cmp (length (fst a)) (length (fst b))) (cmp (fst a) (fst b))"

definition sorted_pairs :: "pairs \<Rightarrow> (string \<times> string option) list" where
  "sorted_pairs m = sort_by hstore_cmp m"

definition format_pair :: "string \<times> string option \<Rightarrow> string" where
  "format_pair p =
     (case p of
        (k, Some v) \<Rightarrow> quote k @ ''=>'' @ quote v
      | (k, None) \<Rightarrow> quote k @ ''=>NULL'')"

fun join_str :: "string \<Rightarrow> string list \<Rightarrow> string" where
  "join_str sep [] = []"
| "join_str sep [w] = w"
| "join_str sep (w # v # ws) = w @ sep @ join_str sep (v # ws)"

definition format_hstore :: "pairs \<Rightarrow> string" where
  "format_hstore m = join_str '', '' (map format_pair (sorted_pairs m))"

fun is_array :: "sql_value \<Rightarrow> bool" where
  "is_array (Array _) = True"
| "is_array _ = False"

fun to_text :: "sql_value \<Rightarrow> string option" where
  "to_text Null = None"
| "to_text (Bool b) = Some (if b then ''t'' else ''f'')"
| "to_text (Int2 n) = Some (show_int n)"
| "to_text (Int4 n) = Some (show_int n)"
| "to_text (Int8 n) = Some (show_int n)"
| "to_text (Text s) = Some s"
| "to_text (Array items) = Some (format_array (map (\<lambda>v. (is_array v, to_text v)) items))"
| "to_text (Citext s) = Some s"
| "to_text (HStore m) = Some (format_hstore m)"
| "to_text (Ltree p) = Some p"
| "to_text (Opaque _ s _) = Some s"

subsection \<open>Text input\<close>

fun sequence_results :: "('e + 'a) list \<Rightarrow> 'e + 'a list" where
  "sequence_results [] = Inr []"
| "sequence_results (Inl e # rs) = Inl e"
| "sequence_results (Inr x # rs) = (case sequence_results rs of Inl e \<Rightarrow> Inl e | Inr xs \<Rightarrow> Inr (x # xs))"

fun split_elems :: "bool \<Rightarrow> string \<Rightarrow> string \<Rightarrow> string list" where
  "split_elems in_quotes cur [] = [cur]"
| "split_elems in_quotes cur (c # cs) =
     (if c = dquote then split_elems (\<not> in_quotes) (cur @ [c]) cs
      else if c = backslash then
        (case cs of [] \<Rightarrow> [cur @ [c]] | n # cs' \<Rightarrow> split_elems in_quotes (cur @ [c, n]) cs')
      else if c = CHR '','' \<and> \<not> in_quotes then cur # split_elems in_quotes [] cs
      else split_elems in_quotes (cur @ [c]) cs)"

definition split_array_elems :: "string \<Rightarrow> string list" where
  "split_array_elems s = split_elems False [] s"

definition unquote :: "string \<Rightarrow> string" where
  "unquote raw =
     replace_pair backslash backslash [backslash]
       (replace_pair backslash dquote [dquote] (trim_matches dquote (trim raw)))"

definition parse_array_text ::
  "(string \<Rightarrow> rel_error + sql_value) \<Rightarrow> string \<Rightarrow> string \<Rightarrow> rel_error + sql_value" where
  "parse_array_text from_inner inner_name text =
     (case Option.bind (strip_prefix ''{'' (trim text)) (strip_suffix ''}'') of
        None \<Rightarrow> Inl (InvalidTextRepresentation (inner_name @ ''[]'') text)
      | Some inner_str \<Rightarrow>
          (if trim inner_str = [] then Inr (Array [])
           else case sequence_results (map (\<lambda>raw.
                    if eq_ignore_ascii_case raw ''null'' then Inr Null else from_inner (unquote raw))
                  (split_array_elems inner_str)) of
                Inl e \<Rightarrow> Inl e
              | Inr items \<Rightarrow> Inr (Array items)))"

definition skip_spaces :: "string \<Rightarrow> string" where
  "skip_spaces s = dropWhile is_whitespace s"

text \<open>A token scanner returns the token, whether it was quoted, and the rest of the input.\<close>

fun quoted_token :: "string \<Rightarrow> string \<Rightarrow> (string \<times> bool \<times> string) option" where
  "quoted_token out [] = None"
| "quoted_token out (c # cs) =
     (if c = dquote then Some (out, True, cs)
      else if c = backslash then (case cs of [] \<Rightarrow> None | d # ds \<Rightarrow> quoted_token (out @ [d]) ds)
      else quoted_token (out @ [c]) cs)"

definition bare_end :: "string \<Rightarrow> string \<Rightarrow> (string \<times> bool \<times> string) option" where
  "bare_end out rest = (if out = [] then None else Some (out, False, rest))"

fun bare_token :: "string \<Rightarrow> string \<Rightarrow> (string \<times> bool \<times> string) option" where
  "bare_token out [] = bare_end out []"
| "bare_token out (c # cs) =
     (if c = backslash then (case cs of [] \<Rightarrow> None | d # ds \<Rightarrow> bare_token (out @ [d]) ds)
      else if \<not> is_whitespace c \<and> c \<notin> {CHR '','', dquote, CHR ''=''} then bare_token (out @ [c]) cs
      else bare_end out (c # cs))"

definition hstore_token :: "string \<Rightarrow> (string \<times> bool \<times> string) option" where
  "hstore_token s =
     (case s of [] \<Rightarrow> bare_token [] s
      | c # cs \<Rightarrow> if c = dquote then quoted_token [] cs else bare_token [] s)"

lemma quoted_token_length: "quoted_token out s = Some (t, q, r) \<Longrightarrow> length r < length s"
proof (induction out s rule: quoted_token.induct)
  case (2 out c cs)
  show ?case
  proof (cases "c = dquote \<or> c \<noteq> backslash")
    case True
    with 2 show ?thesis by (auto split: if_splits)
  next
    case False
    with 2 obtain d ds where "cs = d # ds" by (cases cs) auto
    with 2 False show ?thesis by simp
  qed
qed simp

lemma bare_token_length: "bare_token out s = Some (t, q, r) \<Longrightarrow> length r \<le> length s"
proof (induction out s rule: bare_token.induct)
  case (2 out c cs)
  show ?case
  proof (cases "c = backslash")
    case True
    with 2 obtain d ds where "cs = d # ds" by (cases cs) auto
    with 2 True show ?thesis by simp
  next
    case False
    with 2 show ?thesis by (auto simp: bare_end_def split: if_splits)
  qed
qed (simp add: bare_end_def split: if_splits)

lemma hstore_token_cases:
  "hstore_token (dquote # cs) = quoted_token [] cs"
  "\<forall>cs. s \<noteq> dquote # cs \<Longrightarrow> hstore_token s = bare_token [] s"
  by (simp_all add: hstore_token_def split: list.split)

lemma hstore_token_length:
  assumes "hstore_token s = Some (t, q, r)"
  shows "length r \<le> length s"
proof (cases "\<exists>cs. s = dquote # cs")
  case True
  then obtain cs where "s = dquote # cs" by blast
  with assms show ?thesis using quoted_token_length [of "[]" cs t q r] by (simp only: hstore_token_cases) simp
next
  case False
  then have "hstore_token s = bare_token [] s" by (intro hstore_token_cases) blast
  with assms bare_token_length [of "[]" s t q r] show ?thesis by (simp only:)
qed

definition hstore_error :: "string \<Rightarrow> string \<Rightarrow> rel_error" where
  "hstore_error text what =
     Syntax (''syntax error in hstore: '' @ what @ '', in '' @ [dquote] @ text @ [dquote])"

definition or_insert :: "'k::linorder \<Rightarrow> 'v \<Rightarrow> ('k, 'v) btree_map \<Rightarrow> ('k, 'v) btree_map" where
  "or_insert k v m = (if map_of m k = None then btree_insert k v m else m)"

text \<open>One key and value: the pair, and the input behind the value.\<close>

definition hstore_pair :: "string \<Rightarrow> string \<Rightarrow> rel_error + (string \<times> string option) \<times> string" where
  "hstore_pair text s =
     (case hstore_token s of
        None \<Rightarrow> Inl (hstore_error text ''expected key'')
      | Some (key, _, s2) \<Rightarrow>
          (case strip_prefix ''=>'' (skip_spaces s2) of
             None \<Rightarrow> Inl (hstore_error text ''expected =>'')
           | Some s3 \<Rightarrow>
               (case hstore_token (skip_spaces s3) of
                  None \<Rightarrow> Inl (hstore_error text ''expected value'')
                | Some (val, quoted, s4) \<Rightarrow>
                    Inr ((key, if \<not> quoted \<and> eq_ignore_ascii_case val ''null'' then None else Some val), s4))))"

lemma length_skip_spaces: "length (skip_spaces s) \<le> length s"
  by (simp add: skip_spaces_def length_dropWhile_le)

lemma hstore_pair_length:
  assumes "hstore_pair text s = Inr (p, r)"
  shows "length r < length s"
proof -
  from assms obtain k q s2 s3 v q' where 1: "hstore_token s = Some (k, q, s2)"
    "strip_prefix ''=>'' (skip_spaces s2) = Some s3" "hstore_token (skip_spaces s3) = Some (v, q', r)"
    by (auto simp: hstore_pair_def split: option.splits prod.splits)
  have "length r \<le> length s3"
    using hstore_token_length [OF 1(3)] length_skip_spaces [of s3] by linarith
  moreover have "length s3 < length (skip_spaces s2)" using strip_prefix_SomeD [OF 1(2)] by simp
  ultimately show ?thesis
    using hstore_token_length [OF 1(1)] length_skip_spaces [of s2] by linarith
qed

function hstore_loop :: "string \<Rightarrow> string \<Rightarrow> pairs \<Rightarrow> rel_error + pairs" where
  "hstore_loop text s m =
     (let s1 = skip_spaces s in
      if s1 = [] then Inr m
      else case hstore_pair text s1 of
        Inl e \<Rightarrow> Inl e
      | Inr ((key, value), s4) \<Rightarrow>
          (let m' = or_insert key value m
           in case skip_spaces s4 of
                [] \<Rightarrow> Inr m'
              | c # s5 \<Rightarrow> if c = CHR '','' then hstore_loop text s5 m'
                          else Inl (hstore_error text ''expected , or end'')))"
  by pat_completeness auto
termination
proof (relation "measure (\<lambda>(text, s, m). length s)", goal_cases)
  case (2 input s m s1 y p s4 key val m' c s5)
  then have "length s4 < length s1" by (auto dest: hstore_pair_length)
  moreover have "length s5 < length s4" using 2 length_skip_spaces [of s4] by simp
  moreover have "length s1 \<le> length s" using 2 by (simp add: length_skip_spaces)
  ultimately show ?case by simp
qed simp

declare hstore_loop.simps [simp del]

definition parse_hstore_text :: "string \<Rightarrow> rel_error + sql_value" where
  "parse_hstore_text text = map_sum id HStore (hstore_loop text text [])"

definition ltree_labels :: "string \<Rightarrow> string list" where
  "ltree_labels path = (if path = [] then [] else split_char CHR ''.'' path)"

definition label_char :: "char \<Rightarrow> bool" where
  "label_char c \<longleftrightarrow> is_alphanumeric c \<or> c = CHR ''_'' \<or> c = CHR ''-''"

definition label_ok :: "string \<Rightarrow> bool" where
  "label_ok l \<longleftrightarrow> l \<noteq> [] \<and> length l \<le> 255 \<and> list_all label_char l"

definition parse_ltree_text :: "string \<Rightarrow> rel_error + sql_value" where
  "parse_ltree_text text =
     (let t = trim text in
      if t = [] then Inr (Ltree [])
      else if list_all label_ok (split_char CHR ''.'' t) then Inr (Ltree t)
      else Inl (Syntax (''ltree syntax error in '' @ [dquote] @ t @ [dquote])))"

definition checked :: "string \<Rightarrow> string \<Rightarrow> ('a \<Rightarrow> sql_value) \<Rightarrow> 'a option \<Rightarrow> rel_error + sql_value" where
  "checked ty text f r =
     (case r of None \<Rightarrow> Inl (InvalidTextRepresentation ty text) | Some x \<Rightarrow> Inr (f x))"

definition parse_bool :: "string \<Rightarrow> bool option" where
  "parse_bool t =
     (if t \<in> {''t'', ''true'', ''yes'', ''on'', ''1''} then Some True
      else if t \<in> {''f'', ''false'', ''no'', ''off'', ''0''} then Some False else None)"

text \<open>\<open>ext\<close> parses the types whose values are opaque.\<close>

fun from_text :: "(sql_type \<Rightarrow> string \<Rightarrow> rel_error + sql_value) \<Rightarrow> string \<Rightarrow> sql_type \<Rightarrow> rel_error + sql_value" where
  "from_text ext text Boolean = checked ''boolean'' text Bool (parse_bool (to_lowercase (trim text)))"
| "from_text ext text SmallInt = checked ''smallint'' text Int2 (parse_signed (- (2 ^ 15)) (2 ^ 15 - 1) (trim text))"
| "from_text ext text Integer = checked ''integer'' text Int4 (parse_signed (- (2 ^ 31)) (2 ^ 31 - 1) (trim text))"
| "from_text ext text BigInt = checked ''bigint'' text Int8 (parse_signed (- (2 ^ 63)) (2 ^ 63 - 1) (trim text))"
| "from_text ext text Text_type = Inr (Text text)"
| "from_text ext text (Varchar _) = Inr (Text text)"
| "from_text ext text (Char_type _) = Inr (Text text)"
| "from_text ext text (Array_type inner) =
     parse_array_text (\<lambda>t. from_text ext t inner) (type_name inner) text"
| "from_text ext text Citext_type = Inr (Citext text)"
| "from_text ext text HStore_type = parse_hstore_text text"
| "from_text ext text Ltree_type = parse_ltree_text text"
| "from_text ext text Unknown = Inr (Text text)"
| "from_text ext text ty = ext ty text"

subsection \<open>Comparison and index keys\<close>

text \<open>
  \<open>oc\<close> compares numeric values of which one is not an integer, and two opaque values.
\<close>

fun as_integer :: "sql_value \<Rightarrow> int option" where
  "as_integer (Int2 n) = Some n"
| "as_integer (Int4 n) = Some n"
| "as_integer (Int8 n) = Some n"
| "as_integer _ = None"

definition text_cmp :: "sql_value \<Rightarrow> sql_value \<Rightarrow> ordering option" where
  "text_cmp a b = (case (to_text a, to_text b) of (Some x, Some y) \<Rightarrow> Some (cmp x y) | _ \<Rightarrow> None)"

definition compare_scalar ::
  "(sql_value \<Rightarrow> sql_value \<Rightarrow> ordering option) \<Rightarrow> sql_value \<Rightarrow> sql_value \<Rightarrow> ordering option" where
  "compare_scalar oc a b =
     (if is_numeric (type_of a) \<and> is_numeric (type_of b)
      then (case (as_integer a, as_integer b) of (Some x, Some y) \<Rightarrow> Some (cmp x y) | _ \<Rightarrow> oc a b)
      else case (a, b) of
        (Bool x, Bool y) \<Rightarrow> Some (cmp x y)
      | (Text x, Text y) \<Rightarrow> Some (cmp x y)
      | (Citext x, Citext y) \<Rightarrow> Some (cmp (to_lowercase x) (to_lowercase y))
      | (Citext x, Text y) \<Rightarrow> Some (cmp (to_lowercase x) (to_lowercase y))
      | (Text x, Citext y) \<Rightarrow> Some (cmp (to_lowercase x) (to_lowercase y))
      | (Ltree x, Ltree y) \<Rightarrow> Some (cmp (ltree_labels x) (ltree_labels y))
      | (Ltree x, Text y) \<Rightarrow> Some (cmp (ltree_labels x) (ltree_labels y))
      | (Text x, Ltree y) \<Rightarrow> Some (cmp (ltree_labels x) (ltree_labels y))
      | (HStore x, HStore y) \<Rightarrow> Some (cmp x y)
      | (Opaque t x n, Opaque u y m) \<Rightarrow> oc (Opaque t x n) (Opaque u y m)
      | _ \<Rightarrow> text_cmp a b)"

fun items_of :: "sql_value \<Rightarrow> sql_value list option" where
  "items_of (Array items) = Some items"
| "items_of _ = None"

lemma items_of_Some [simp]:
  "items_of v = Some items \<longleftrightarrow> v = Array items" "Some items = items_of v \<longleftrightarrow> v = Array items"
  by (cases v; auto)+

function compare ::
    "(sql_value \<Rightarrow> sql_value \<Rightarrow> ordering option) \<Rightarrow> sql_value \<Rightarrow> sql_value \<Rightarrow> ordering option"
  and compare_items ::
    "(sql_value \<Rightarrow> sql_value \<Rightarrow> ordering option) \<Rightarrow> sql_value list \<Rightarrow> sql_value list \<Rightarrow> ordering option" where
  "compare oc a b =
     (if is_null a \<or> is_null b then None
      else case (items_of a, items_of b) of
        (Some xs, Some ys) \<Rightarrow> compare_items oc xs ys
      | _ \<Rightarrow> compare_scalar oc a b)"
| "compare_items oc (x # xs) (y # ys) =
     (case compare oc x y of
        Some Equal \<Rightarrow> compare_items oc xs ys
      | Some Less \<Rightarrow> Some Less
      | Some Greater \<Rightarrow> Some Greater
      | None \<Rightarrow> None)"
| "compare_items oc [] ys = Some (cmp 0 (length ys))"
| "compare_items oc (x # xs) [] = Some (cmp (length (x # xs)) 0)"
  by pat_completeness auto
termination
  by (relation "measure (\<lambda>x. case x of Inl (oc, a, b) \<Rightarrow> size a + size b
        | Inr (oc, xs, ys) \<Rightarrow> size_list size xs + size_list size ys)") auto

declare compare.simps [simp del]

definition sql_eq ::
  "(sql_value \<Rightarrow> sql_value \<Rightarrow> ordering option) \<Rightarrow> sql_value \<Rightarrow> sql_value \<Rightarrow> bool option" where
  "sql_eq oc a b = map_option (\<lambda>r. r = Equal) (compare oc a b)"

text \<open>\<open>dec\<close> is the normalised decimal text of a numeric value that is not an integer.\<close>

fun index_key :: "(sql_value \<Rightarrow> string) \<Rightarrow> sql_value \<Rightarrow> string" where
  "index_key dec Null = CHR 0x00 # ''null''"
| "index_key dec (Text s) = ''s:'' @ s"
| "index_key dec (Citext s) = ''s:'' @ to_lowercase s"
| "index_key dec (Bool b) = ''b:'' @ (if b then ''true'' else ''false'')"
| "index_key dec (Ltree p) = ''l:'' @ replace_char CHR ''.'' [CHR 0x00] p"
| "index_key dec (Int2 n) = ''n:'' @ show_int n"
| "index_key dec (Int4 n) = ''n:'' @ show_int n"
| "index_key dec (Int8 n) = ''n:'' @ show_int n"
| "index_key dec (Opaque t s n) =
     (if t = Uuid_type then ''u:'' @ s
      else if is_numeric t then ''n:'' @ dec (Opaque t s n) else ''x:'' @ s)"
| "index_key dec v = ''x:'' @ (case to_text v of None \<Rightarrow> [] | Some s \<Rightarrow> s)"

end
