(* ===== verification/Sql_Text.thy ===== *)
theory Sql_Text
  imports Sql_Value
begin

text \<open>
  The text forms of SQL values: what printing and parsing an array, an hstore, an ltree and a scalar
  give back, and what the index keys keep of the order of values.
\<close>

subsection \<open>Escaping\<close>

lemma escape_simps [simp]:
  "escape [] = []"
  "escape (c # t) =
     (if c = backslash then [backslash, backslash] else if c = dquote then [backslash, dquote] else [c]) @ escape t"
  by (simp_all add: escape_def)

lemma escape_append [simp]: "escape (s @ t) = escape s @ escape t"
  by (simp add: escape_def)

lemma escape_hd: "escape t @ z \<noteq> dquote # r \<or> t = []"
  by (cases t) auto

lemma replace_pair_Cons:
  "x \<noteq> a \<or> (\<forall>u. s \<noteq> b # u) \<Longrightarrow> replace_pair a b r (x # s) = x # replace_pair a b r s"
  by (cases s) auto

lemma unescape_quotes:
  assumes "\<forall>u. z \<noteq> dquote # u"
  shows "replace_pair backslash dquote [dquote] (escape t @ z) =
    replace_char backslash [backslash, backslash] t @ replace_pair backslash dquote [dquote] z"
proof (induction t)
  case (Cons c t)
  have "\<forall>u. escape t @ z \<noteq> dquote # u" using assms escape_hd [of t z] by (cases t) auto
  with Cons show ?case by (auto simp: replace_pair_Cons)
qed simp

lemma unescape_backslashes:
  "replace_pair backslash backslash [backslash] (replace_char backslash [backslash, backslash] t @ z) =
     t @ replace_pair backslash backslash [backslash] z"
  by (induction t) (auto simp: replace_pair_Cons)

lemma replace_pair_free: "a \<notin> set s \<Longrightarrow> replace_pair a b r s = s"
  by (induction a b r s rule: replace_pair.induct) auto

lemma trim_end_replicate:
  assumes "s = [] \<or> last s \<noteq> c"
  shows "trim_end_matches c (s @ replicate n c) = s"
proof -
  have "dropWhile (\<lambda>x. x = c) (replicate n c @ rev s) = rev s"
    using assms by (subst dropWhile_append2) (auto simp: dropWhile_same hd_rev)
  then show ?thesis by (simp add: trim_end_matches_def)
qed

lemma trim_matches_free:
  assumes "c \<notin> set s"
  shows "trim_matches c s = s"
proof -
  have "s = [] \<or> last s \<noteq> c" "s = [] \<or> hd s \<noteq> c" using assms last_in_set hd_in_set by blast+
  then show ?thesis using trim_end_replicate [of s c 0] by (simp add: trim_matches_def dropWhile_same)
qed

lemma trim_matches_quoted:
  assumes "\<forall>u. s \<noteq> dquote # u" "s = [] \<or> last s \<noteq> dquote"
  shows "trim_matches dquote (dquote # s @ replicate n dquote) = s"
proof (cases s)
  case Nil
  then show ?thesis by (simp add: trim_matches_def trim_end_matches_def)
next
  case (Cons c r)
  with assms(1) have "dropWhile (\<lambda>x. x = dquote) (dquote # s @ replicate n dquote) = s @ replicate n dquote" by auto
  moreover have "trim_end_matches dquote (s @ replicate n dquote) = s"
    using assms(2) Cons by (intro trim_end_replicate) auto
  ultimately show ?thesis by (simp add: trim_matches_def)
qed

lemma trim_quote [simp]: "trim (quote t) = quote t"
  by (rule trim_same) (simp add: quote_def is_whitespace_def)

text \<open>Reading a quoted element back loses a double quote at its end.\<close>

lemma unquote_quote:
  "unquote (quote t) = (if t \<noteq> [] \<and> last t = dquote then butlast t @ [backslash] else t)"
proof (cases "t \<noteq> [] \<and> last t = dquote")
  case True
  define u where "u = butlast t"
  from True have t: "t = u @ [dquote]" using append_butlast_last_id [of t] by (simp add: u_def)
  have "trim_matches dquote (dquote # (escape u @ [backslash]) @ replicate 2 dquote) = escape u @ [backslash]"
    by (rule trim_matches_quoted) (use escape_hd [of u "[backslash]"] in \<open>cases u; auto\<close>, simp)
  then have "unquote (quote t) =
      replace_pair backslash backslash [backslash]
        (replace_pair backslash dquote [dquote] (escape u @ [backslash]))"
    by (simp add: unquote_def, simp add: quote_def t numeral_2_eq_2)
  also have "\<dots> = u @ [backslash]" by (simp add: unescape_quotes unescape_backslashes)
  finally show ?thesis using True by (simp add: u_def)
next
  case False
  have "\<forall>u. escape t \<noteq> dquote # u" using escape_hd [of t "[]"] by (cases t) auto
  moreover have "escape t = [] \<or> last (escape t) \<noteq> dquote"
    using False by (cases t rule: rev_cases) auto
  ultimately have "trim_matches dquote (dquote # escape t @ replicate 1 dquote) = escape t"
    by (rule trim_matches_quoted)
  then have "unquote (quote t) =
      replace_pair backslash backslash [backslash] (replace_pair backslash dquote [dquote] (escape t))"
    by (simp add: unquote_def, simp add: quote_def)
  also have "\<dots> = t" using unescape_quotes [of "[]" t] unescape_backslashes [of t "[]"] by simp
  finally show ?thesis using False by (simp only: if_False)
qed

lemma unquote_plain: "\<not> needs_quote t \<Longrightarrow> unquote t = trim t"
proof -
  assume nq: "\<not> needs_quote t"
  have free: "dquote \<notin> set (trim t)" "backslash \<notin> set (trim t)"
    using nq set_trim [of t] by (auto simp: needs_quote_def list_ex_iff)
  then show ?thesis by (simp add: unquote_def replace_pair_free trim_matches_free)
qed

subsection \<open>Arrays of text\<close>

text \<open>A printed element that the scanner of array elements takes as one piece.\<close>

definition one_elem :: "string \<Rightarrow> bool" where
  "one_elem e \<longleftrightarrow> (\<forall>cur rest. split_elems False cur (e @ rest) = split_elems False (cur @ e) rest)"

lemma one_elemD: "one_elem e \<Longrightarrow> split_elems False cur (e @ rest) = split_elems False (cur @ e) rest"
  by (simp add: one_elem_def)

lemma one_elem_plain: "\<forall>c\<in>set e. c \<notin> {CHR '','', dquote, backslash} \<Longrightarrow> one_elem e"
  unfolding one_elem_def by (induction e) auto

lemma split_elems_escape:
  "split_elems True cur (escape t @ rest) = split_elems True (cur @ escape t) rest"
  by (induction t arbitrary: cur) auto

lemma one_elem_quote: "one_elem (quote t)"
  by (simp add: one_elem_def quote_def split_elems_escape)

lemma one_elem_array_elem: "one_elem (array_elem (False, x))"
proof (cases x)
  case None
  then show ?thesis by (simp add: array_elem_def one_elem_plain)
next
  case (Some t)
  show ?thesis
  proof (cases "needs_quote t")
    case False
    then have "one_elem t" by (intro one_elem_plain) (auto simp: needs_quote_def list_ex_iff)
    with Some False show ?thesis by (simp add: array_elem_def)
  qed (simp add: Some array_elem_def one_elem_quote)
qed

lemma split_elems_join:
  "\<forall>e\<in>set es. one_elem e \<Longrightarrow> es \<noteq> [] \<Longrightarrow> split_elems False [] (join_char CHR '','' es) = es"
proof (induction es rule: induct_list012)
  case (2 e)
  then show ?case using one_elemD [of e "[]" "[]"] by simp
next
  case (3 e f es)
  then show ?case using one_elemD [of e "[]" "CHR '','' # join_char CHR '','' (f # es)"] by simp
qed simp

definition text_item :: "string option \<Rightarrow> sql_value" where
  "text_item x = (case x of None \<Rightarrow> Null | Some s \<Rightarrow> Text s)"

text \<open>
  The texts an array element keeps: not ending in a double quote, and with no tab or line break
  at an end of a text that is printed without quotes.
\<close>

definition array_safe :: "string \<Rightarrow> bool" where
  "array_safe t \<longleftrightarrow> (if needs_quote t then t = [] \<or> last t \<noteq> dquote else trim t = t)"

definition read_elem :: "string \<Rightarrow> rel_error + sql_value" where
  "read_elem raw = (if eq_ignore_ascii_case raw ''null'' then Inr Null else Inr (Text (unquote raw)))"

lemma lowercase_null [simp]: "to_lowercase ''NULL'' = ''null''" "to_lowercase ''null'' = ''null''"
  by code_simp+

lemma quote_not_null: "\<not> eq_ignore_ascii_case (quote t) ''null''"
  by (simp add: eq_ignore_ascii_case_def quote_def to_lowercase_def lower_char_def is_upper_def)

lemma read_array_elem:
  "read_elem (array_elem (False, x)) = Inr (text_item x) \<longleftrightarrow> (\<forall>t. x = Some t \<longrightarrow> array_safe t)"
proof (cases x)
  case None
  then show ?thesis
    by (simp add: array_elem_def read_elem_def text_item_def eq_ignore_ascii_case_def)
next
  case (Some t)
  show ?thesis
  proof (cases "needs_quote t")
    case True
    have "butlast t @ [backslash] \<noteq> t" if "last t = dquote"
      by (rule notI, drule arg_cong [of _ _ last]) (use that in simp)
    with True Some show ?thesis
      by (auto simp: array_elem_def read_elem_def text_item_def quote_not_null unquote_quote array_safe_def)
  next
    case False
    then have "\<not> eq_ignore_ascii_case t ''null''" by (simp add: needs_quote_def)
    with False Some show ?thesis
      by (auto simp: array_elem_def read_elem_def text_item_def unquote_plain array_safe_def)
  qed
qed

lemma sequence_results_map [simp]: "sequence_results (map Inr xs) = Inr xs"
  by (induction xs) simp_all

lemma sequence_results_Inr: "sequence_results rs = Inr xs \<longleftrightarrow> rs = map Inr xs"
proof
  show "sequence_results rs = Inr xs \<Longrightarrow> rs = map Inr xs"
    by (induction rs arbitrary: xs rule: sequence_results.induct) (auto split: sum.splits)
qed simp

lemma array_text: "to_text (Array (map text_item xs)) =
    Some (''{'' @ join_char CHR '','' (map (\<lambda>x. array_elem (False, x)) xs) @ ''}'')"
proof -
  have "(is_array (text_item x), to_text (text_item x)) = (False, x)" for x
    by (cases x) (simp_all add: text_item_def)
  then show ?thesis by (simp add: format_array_def comp_def)
qed

lemma parse_text_array:
  assumes "trim inner \<noteq> []"
  shows "from_text ext (''{'' @ inner @ ''}'') (Array_type Text_type) =
    map_sum id Array (sequence_results (map read_elem (split_array_elems inner)))"
proof -
  have "trim (''{'' @ inner @ ''}'') = ''{'' @ inner @ ''}''"
    by (rule trim_same) (simp add: is_whitespace_def)
  moreover have "(\<lambda>raw. if eq_ignore_ascii_case raw ''null'' then Inr Null else Inr (Text (unquote raw))) = read_elem"
    by (simp add: fun_eq_iff read_elem_def)
  moreover have "Option.bind (strip_prefix ''{'' (''{'' @ inner @ ''}'')) (strip_suffix ''}'') = Some inner"
    by (simp only: strip_prefix_append Option.bind.bind_lunit strip_suffix_append)
  ultimately show ?thesis
    using assms by (cases "sequence_results (map read_elem (split_array_elems inner))")
      (simp_all add: parse_array_text_def del: append.simps)
qed

lemma trim_Nil_iff: "trim s = [] \<longleftrightarrow> (\<forall>c\<in>set s. is_whitespace c)"
proof
  assume "trim s = []"
  then have "\<forall>c\<in>set (dropWhile is_whitespace s). is_whitespace c" by (simp add: trim_def)
  then have "dropWhile is_whitespace s = []" using hd_dropWhile hd_in_set by metis
  then show "\<forall>c\<in>set s. is_whitespace c" by simp
qed (auto simp: trim_def dest: set_dropWhileD)

lemma join_blank:
  assumes "\<forall>c\<in>set (join_char CHR '','' (map (\<lambda>x. array_elem (False, x)) xs)). is_whitespace c" "xs \<noteq> []"
  shows "\<exists>t. xs = [Some t] \<and> \<not> array_safe t"
proof -
  obtain x ys where xs: "xs = x # ys" using assms(2) by (cases xs) auto
  have "ys = []" using assms(1) by (cases ys) (auto simp: xs is_whitespace_def)
  with assms(1) have blank: "\<forall>c\<in>set (array_elem (False, x)). is_whitespace c" by (simp add: xs)
  then obtain t where x: "x = Some t" by (cases x) (auto simp: array_elem_def is_whitespace_def)
  have nq: "\<not> needs_quote t"
    using blank by (auto simp: x array_elem_def quote_def is_whitespace_def split: if_splits)
  then have "t \<noteq> []" "trim t = []" using blank by (auto simp: x array_elem_def trim_Nil_iff needs_quote_def)
  with nq \<open>ys = []\<close> show ?thesis by (auto simp: xs x array_safe_def)
qed



subsection \<open>hstore\<close>

lemma quoted_token_escape: "quoted_token out (escape t @ dquote # r) = Some (out @ t, True, r)"
  by (induction t arbitrary: out) auto

lemma hstore_token_quote: "hstore_token (quote t @ r) = Some (t, True, r)"
  using quoted_token_escape [of "[]" t r] by (simp add: quote_def hstore_token_def)

lemma hstore_token_null:
  assumes "r = [] \<or> (\<exists>s. r = CHR '','' # s)"
  shows "hstore_token (''NULL'' @ r) = Some (''NULL'', False, r)"
  using assms by (auto simp: hstore_token_def bare_end_def is_whitespace_def)

lemma skip_spaces_quote [simp]: "skip_spaces (quote t @ r) = quote t @ r"
  by (simp add: skip_spaces_def quote_def is_whitespace_def)

lemma hstore_pair_format:
  assumes "r = [] \<or> (\<exists>s. r = CHR '','' # s)"
  shows "hstore_pair inp (format_pair p @ r) = Inr (p, r)"
proof (cases p)
  case (Pair k v)
  have arrow: "strip_prefix ''=>'' (skip_spaces (''=>'' @ u)) = Some u" for u
    by (simp add: skip_spaces_def is_whitespace_def strip_prefix_def)
  show ?thesis
  proof (cases v)
    case None
    have "skip_spaces (''NULL'' @ r) = ''NULL'' @ r" by (simp add: skip_spaces_def is_whitespace_def)
    then show ?thesis
      using hstore_token_quote [of k "''=>'' @ ''NULL'' @ r"] arrow [of "''NULL'' @ r"] hstore_token_null [OF assms]
      by (simp add: hstore_pair_def format_pair_def Pair None eq_ignore_ascii_case_def)
  next
    case (Some w)
    then show ?thesis
      using hstore_token_quote [of k "''=>'' @ quote w @ r"] arrow [of "quote w @ r"]
      by (simp add: hstore_pair_def format_pair_def Pair hstore_token_quote)
  qed
qed

lemma skip_spaces_format [simp]: "skip_spaces (format_pair p @ r) = format_pair p @ r"
  by (cases p, cases "snd p") (simp_all add: format_pair_def)

lemma format_pair_nonempty [simp]: "format_pair p \<noteq> []"
  by (cases p, cases "snd p") (simp_all add: format_pair_def quote_def)

lemma hstore_loop_blank: "hstore_loop inp (CHR '' '' # s) m = hstore_loop inp s m"
  by (subst (1 2) hstore_loop.simps) (simp add: skip_spaces_def is_whitespace_def)

lemma hstore_loop_format:
  "hstore_loop inp (join_str '', '' (map format_pair ps)) m = Inr (fold (\<lambda>(k, v). or_insert k v) ps m)"
proof (induction ps arbitrary: m rule: induct_list012)
  case 1
  show ?case by (subst hstore_loop.simps) (simp add: skip_spaces_def)
next
  case (2 p)
  show ?case using hstore_pair_format [of "[]" inp p] skip_spaces_format [of p "[]"]
    by (subst hstore_loop.simps) (cases p, simp add: Let_def, simp add: skip_spaces_def)
next
  case (3 p q ps)
  let ?r = "CHR '','' # CHR '' '' # join_str '', '' (map format_pair (q # ps))"
  have "skip_spaces ?r = ?r" by (simp add: skip_spaces_def is_whitespace_def)
  then show ?case using hstore_pair_format [of ?r inp p] 3(2) [of "case p of (k, v) \<Rightarrow> or_insert k v m"]
    by (subst hstore_loop.simps) (cases p, simp add: Let_def hstore_loop_blank)
qed

lemma btree_wf_or_insert: "btree_wf m \<Longrightarrow> btree_wf (or_insert k v m)"
  by (simp add: or_insert_def btree_wf_insert)

lemma map_of_or_insert:
  "btree_wf m \<Longrightarrow> map_of (or_insert k v m) = (if map_of m k = None then (map_of m)(k \<mapsto> v) else map_of m)"
  by (simp add: or_insert_def map_of_btree_insert)

text \<open>Entering the pairs of a list one by one keeps the first value of each key.\<close>

lemma fold_or_insert:
  "btree_wf m \<Longrightarrow> btree_wf (fold (\<lambda>(k, v). or_insert k v) ps m) \<and>
     map_of (fold (\<lambda>(k, v). or_insert k v) ps m) = map_of ps ++ map_of m"
proof (induction ps arbitrary: m)
  case (Cons p ps)
  obtain k v where p: "p = (k, v)" by (cases p)
  have "map_of ps ++ map_of (or_insert k v m) = map_of (p # ps) ++ map_of m"
    using Cons.prems by (auto simp: p map_of_or_insert fun_eq_iff map_add_def split: option.splits)
  with Cons.IH [OF btree_wf_or_insert [OF Cons.prems, of k v]] show ?case
    unfolding p by (simp only: fold_simps prod.case comp_apply conj_absorb)
qed simp

lemma map_of_sorted_pairs: "btree_wf m \<Longrightarrow> map_of (sorted_pairs m) = map_of m"
  unfolding sorted_pairs_def
  by (rule map_of_eqI) (auto simp: map_of_eq_Some_iff btree_wf_distinct)

lemma hstore_loop_wf: "hstore_loop inp s m = Inr m' \<Longrightarrow> btree_wf m \<Longrightarrow> btree_wf m'"
proof (induction inp s m rule: hstore_loop.induct)
  case (1 inp s m)
  show ?case
  proof (cases "skip_spaces s = []")
    case True
    with 1 show ?thesis by (subst (asm) (2) hstore_loop.simps) simp
  next
    case False
    with 1(2) obtain k v s4 where pair: "hstore_pair inp (skip_spaces s) = Inr ((k, v), s4)"
      by (subst (asm) hstore_loop.simps) (auto split: sum.splits)
    show ?thesis
    proof (cases "skip_spaces s4")
      case Nil
      with 1(2,3) False pair show ?thesis
        by (subst (asm) hstore_loop.simps) (auto simp: Let_def btree_wf_or_insert)
    next
      case (Cons c s5)
      with 1(2) False pair have "c = CHR '',''" "hstore_loop inp s5 (or_insert k v m) = Inr m'"
        by (subst (asm) (1) hstore_loop.simps, auto simp: Let_def split: if_splits)+
      with 1(1) [OF refl False pair refl refl refl Cons] 1(3) show ?thesis
        by (simp add: btree_wf_or_insert)
    qed
  qed
qed

lemma hstore_roundtrip:
  assumes "btree_wf m"
  shows "parse_hstore_text (format_hstore m) = Inr (HStore m)"
proof -
  have "btree_wf []" by (simp add: btree_wf_def)
  from fold_or_insert [OF this, of "sorted_pairs m"]
  have "fold (\<lambda>(k, v). or_insert k v) (sorted_pairs m) [] = m"
    using assms by (intro btree_wf_eqI) (simp_all add: map_of_sorted_pairs)
  then show ?thesis by (simp add: parse_hstore_text_def hstore_loop_format format_hstore_def)
qed

text \<open>
  C27: the hstore parser returns well-formed maps, and printing a well-formed map (sorted by key
  length, everything quoted and escaped) and parsing the text gives the map back.
\<close>

theorem hstore_text_roundtrip:
  "(parse_hstore_text inp = Inr (HStore m) \<longrightarrow> btree_wf m) \<and>
   (btree_wf m \<longrightarrow> parse_hstore_text (format_hstore m) = Inr (HStore m))"
proof (intro conjI impI)
  assume "parse_hstore_text inp = Inr (HStore m)"
  then have "hstore_loop inp inp [] = Inr m"
    by (cases "hstore_loop inp inp []") (simp_all add: parse_hstore_text_def)
  then show "btree_wf m" by (rule hstore_loop_wf) (simp add: btree_wf_def)
qed (rule hstore_roundtrip)

theorem hstore_text_roundtrip_witness:
  "btree_wf [(''aa'', Some ''x,y''), (''b'', None)] \<and>
   parse_hstore_text (format_hstore [(''aa'', Some ''x,y''), (''b'', None)]) =
     Inr (HStore [(''aa'', Some ''x,y''), (''b'', None)])"
proof -
  have "btree_wf [(''aa'', Some ''x,y''), (''b'', None)]" by code_simp
  with hstore_text_roundtrip [of "[]" "[(''aa'', Some ''x,y''), (''b'', None)]"] show ?thesis by blast
qed

subsection \<open>ltree paths\<close>

definition valid_path :: "string \<Rightarrow> bool" where
  "valid_path p \<longleftrightarrow> list_all label_ok (ltree_labels p)"

lemma join_labels [simp]: "join_char CHR ''.'' (ltree_labels p) = p"
  by (simp add: ltree_labels_def)

lemma label_char_plain: "label_char c \<Longrightarrow> \<not> is_whitespace c \<and> c \<noteq> CHR ''.'' \<and> CHR 0x00 < c"
  by (auto simp: label_char_def is_alphanumeric_def is_whitespace_def is_upper_def is_lower_def is_digit_def
      less_char_def)

lemma label_ok_nonempty: "label_ok l \<Longrightarrow> l \<noteq> []"
  by (simp add: label_ok_def)

lemma label_ok_free: "label_ok l \<Longrightarrow> CHR ''.'' \<notin> set l"
  by (auto simp: label_ok_def list_all_iff dest: label_char_plain)

lemma labels_join:
  assumes "list_all label_ok ls"
  shows "ltree_labels (join_char CHR ''.'' ls) = ls"
proof (cases ls)
  case (Cons l ls')
  have "join_char CHR ''.'' ls \<noteq> []" using assms by (cases ls') (auto simp: Cons label_ok_def)
  then show ?thesis using assms
    by (simp add: ltree_labels_def split_join_char Cons list_all_iff label_ok_free)
qed (simp add: ltree_labels_def)

lemma valid_path_join: "list_all label_ok ls \<Longrightarrow> valid_path (join_char CHR ''.'' ls)"
  by (simp add: valid_path_def labels_join)

lemma set_join_char: "set (join_char c ws) \<subseteq> insert c (\<Union> (set ` set ws))"
  by (induction c ws rule: join_char.induct) auto

lemma valid_path_chars: "valid_path p \<Longrightarrow> c \<in> set p \<Longrightarrow> label_char c \<or> c = CHR ''.''"
  using set_join_char [of "CHR ''.''" "ltree_labels p"]
  by (auto simp: valid_path_def list_all_iff label_ok_def)

lemma parse_ltree_iff: "parse_ltree_text s = Inr v \<longleftrightarrow> valid_path (trim s) \<and> v = Ltree (trim s)"
  by (auto simp: parse_ltree_text_def Let_def valid_path_def ltree_labels_def split: if_splits)

lemma trim_path: "valid_path p \<Longrightarrow> trim p = p"
  by (rule trim_free) (auto dest!: valid_path_chars label_char_plain simp: is_whitespace_def)

text \<open>
  The ltree parser accepts exactly the texts that are, up to blanks around them, dot-separated
  lists of labels; it answers the path whose labels these are, and a path and its list of labels
  determine each other.
\<close>

theorem ltree_text_roundtrip:
  "(parse_ltree_text s = Inr v \<longleftrightarrow> valid_path (trim s) \<and> v = Ltree (trim s)) \<and>
   join_char CHR ''.'' (ltree_labels p) = p \<and>
   (list_all label_ok ls \<longrightarrow>
      parse_ltree_text (join_char CHR ''.'' ls) = Inr (Ltree (join_char CHR ''.'' ls)) \<and>
      ltree_labels (join_char CHR ''.'' ls) = ls)"
proof -
  show ?thesis by (simp add: parse_ltree_iff trim_path valid_path_join labels_join)
qed

theorem ltree_text_roundtrip_witness:
  "parse_ltree_text (join_char CHR ''.'' [''Top'', ''Science'']) = Inr (Ltree ''Top.Science'')"
proof -
  have "list_all label_ok [''Top'', ''Science'']" by code_simp
  then have "parse_ltree_text (join_char CHR ''.'' [''Top'', ''Science'']) =
      Inr (Ltree (join_char CHR ''.'' [''Top'', ''Science'']))"
    using ltree_text_roundtrip [of "[]" Null "[]" "[''Top'', ''Science'']"] by blast
  then show ?thesis by simp
qed

text \<open>
  Bytewise comparison of label lists joined by a byte below every byte of the labels is comparison
  label by label.
\<close>

lemma Nil_less_iff [simp]: "[] < (xs :: 'a::order list) \<longleftrightarrow> xs \<noteq> []"
  by (cases xs) auto

lemma append_less_append: "(w :: 'a::order list) @ s < w @ t \<longleftrightarrow> s < t"
  by (induction w) auto

lemma append_less_separated:
  fixes l m :: string
  assumes "l \<noteq> m" "\<forall>c\<in>set l \<union> set m. z < c" "s = [] \<or> (\<exists>u. s = z # u)" "t = [] \<or> (\<exists>u. t = z # u)"
  shows "l @ s < m @ t \<longleftrightarrow> l < m"
  using assms(1,2)
proof (induction l arbitrary: m)
  case Nil
  then obtain c m' where "m = c # m'" by (cases m) auto
  with Nil assms(3) show ?case by auto
next
  case (Cons a l)
  show ?case
  proof (cases m)
    case Nil
    with Cons assms(4) show ?thesis by auto
  next
    case (Cons b m')
    with Cons.IH [of m'] Cons.prems show ?thesis by auto
  qed
qed

lemma join_char_Cons: "join_char c (w # ws) = w @ (if ws = [] then [] else c # join_char c ws)"
  by (cases ws) auto

lemma join_less:
  fixes ls ms :: "string list"
  assumes "\<forall>l\<in>set ls \<union> set ms. l \<noteq> [] \<and> (\<forall>c\<in>set l. z < c)"
  shows "join_char z ls < join_char z ms \<longleftrightarrow> ls < ms"
  using assms
proof (induction ls arbitrary: ms)
  case Nil
  then show ?case by (cases ms) (auto simp: join_char_Cons)
next
  case (Cons l ls)
  show ?case
  proof (cases ms)
    case Nil
    with Cons show ?thesis by simp
  next
    case ms: (Cons m ms')
    let ?t = "\<lambda>ws. if ws = [] then [] else z # join_char z ws"
    show ?thesis
    proof (cases "l = m")
      case True
      have "join_char z (l # ls) < join_char z (m # ms') \<longleftrightarrow> ?t ls < ?t ms'"
        unfolding True join_char_Cons by (rule append_less_append)
      also have "\<dots> \<longleftrightarrow> ls < ms'" using Cons.IH [of ms'] Cons.prems by (auto simp: ms neq_Nil_conv)
      finally show ?thesis by (simp add: ms True)
    next
      case False
      have "l @ ?t ls < m @ ?t ms' \<longleftrightarrow> l < m"
        by (rule append_less_separated) (use False Cons.prems in \<open>auto simp: ms\<close>)
      with False show ?thesis by (simp add: ms join_char_Cons)
    qed
  qed
qed

lemma replace_join: "replace_char c [d] p = join_char d (split_char c p)"
proof (induction p)
  case (Cons x p)
  obtain w ws where "split_char c p = w # ws" by (cases "split_char c p") auto
  with Cons show ?case by (cases ws) auto
qed simp

lemma index_key_ltree: "index_key dec (Ltree p) = ''l:'' @ join_char CHR 0x00 (ltree_labels p)"
  by (simp add: ltree_labels_def replace_join)

lemma valid_labels_above:
  assumes "valid_path p" "valid_path q"
  shows "\<forall>l\<in>set (ltree_labels p) \<union> set (ltree_labels q). l \<noteq> [] \<and> (\<forall>c\<in>set l. CHR 0x00 < c)"
  using assms by (auto simp: valid_path_def list_all_iff label_ok_def dest: label_char_plain)

text \<open>
  The index keys of ltree values order them as the values compare, label by label (so that
  \<open>a.b\<close> precedes \<open>a-b\<close>).
\<close>

theorem ltree_index_order:
  assumes "valid_path p" "valid_path q"
  shows "compare oc (Ltree p) (Ltree q) = Some (cmp (index_key dec (Ltree p)) (index_key dec (Ltree q)))"
proof -
  have "join_char CHR 0x00 (ltree_labels p) = join_char CHR 0x00 (ltree_labels q) \<longleftrightarrow> ltree_labels p = ltree_labels q"
    using join_less [OF valid_labels_above [OF assms]] join_less [OF valid_labels_above [OF assms(2,1)]]
    by (metis neq_iff)
  with join_less [OF valid_labels_above [OF assms]] show ?thesis
    unfolding index_key_ltree
    by (simp add: compare.simps compare_scalar_def is_null_def cmp_def)
qed

theorem ltree_index_order_witness:
  "compare (\<lambda>_ _. None) (Ltree ''a.b'') (Ltree ''a-b'') =
     Some (cmp (index_key (\<lambda>_. []) (Ltree ''a.b'')) (index_key (\<lambda>_. []) (Ltree ''a-b'')))"
  by (rule ltree_index_order) code_simp+

subsection \<open>Scalars, comparison and index keys\<close>

text \<open>The scalar values as the engine builds them: integers in range, maps and paths well-formed.\<close>

fun scalar_ok :: "sql_value \<Rightarrow> bool" where
  "scalar_ok (Bool _) = True"
| "scalar_ok (Int2 n) = (- (2 ^ 15) \<le> n \<and> n \<le> 2 ^ 15 - 1)"
| "scalar_ok (Int4 n) = (- (2 ^ 31) \<le> n \<and> n \<le> 2 ^ 31 - 1)"
| "scalar_ok (Int8 n) = (- (2 ^ 63) \<le> n \<and> n \<le> 2 ^ 63 - 1)"
| "scalar_ok (Text _) = True"
| "scalar_ok (Citext _) = True"
| "scalar_ok (HStore m) = btree_wf m"
| "scalar_ok (Ltree p) = valid_path p"
| "scalar_ok _ = False"

lemma trim_show_int [simp]: "trim (show_int i) = show_int i"
proof -
  have "\<not> is_whitespace CHR ''-''" by (simp add: is_whitespace_def)
  then show ?thesis
    by (intro trim_free) (auto simp: show_int_def digit_plain(1) dest!: show_nat_digits)
qed

lemma show_int_inj [simp]: "show_int i = show_int j \<longleftrightarrow> i = j"
proof
  assume "show_int i = show_int j"
  then have "parse_signed (min i j) (max i j) (show_int i) = parse_signed (min i j) (max i j) (show_int j)" by simp
  then show "i = j" by simp
qed simp



text \<open>The values an index orders by the same kind of key.\<close>

fun key_kind :: "sql_value \<Rightarrow> nat option" where
  "key_kind (Int2 _) = Some 0"
| "key_kind (Int4 _) = Some 0"
| "key_kind (Int8 _) = Some 0"
| "key_kind (Bool _) = Some 1"
| "key_kind (Text _) = Some 2"
| "key_kind (Citext _) = Some 3"
| "key_kind (Ltree p) = (if valid_path p then Some 4 else None)"
| "key_kind (HStore m) = (if btree_wf m then Some 5 else None)"
| "key_kind _ = None"

lemma format_hstore_inj:
  assumes "btree_wf m" "btree_wf m'"
  shows "format_hstore m = format_hstore m' \<longleftrightarrow> m = m'"
proof
  assume "format_hstore m = format_hstore m'"
  then have "parse_hstore_text (format_hstore m) = parse_hstore_text (format_hstore m')" by (rule arg_cong)
  then show "m = m'" by (simp add: hstore_roundtrip assms)
qed simp

lemma ltree_key_inj:
  assumes "valid_path p" "valid_path q"
  shows "index_key dec (Ltree p) = index_key dec (Ltree q) \<longleftrightarrow> ltree_labels p = ltree_labels q"
  unfolding index_key_ltree
  using join_less [OF valid_labels_above [OF assms]] join_less [OF valid_labels_above [OF assms(2,1)]]
  by simp (metis neq_iff)

text \<open>
  On values of one kind, SQL equality is equality of the index keys, so that a lookup by key
  finds exactly the rows that compare equal.
\<close>

theorem index_key_sql_eq:
  assumes "key_kind a = key_kind b" "key_kind a \<noteq> None"
  shows "sql_eq oc a b = Some (index_key dec a = index_key dec b)"
proof (cases "\<exists>p q. a = Ltree p \<and> b = Ltree q")
  case True
  then obtain p q where ab: "a = Ltree p" "b = Ltree q" by blast
  with assms have "valid_path p" "valid_path q" by (auto split: if_splits)
  from ltree_key_inj [OF this] show ?thesis
    by (simp add: ab sql_eq_def compare.simps is_null_def compare_scalar_def cmp_simps del: index_key.simps)
next
  case False
  with assms show ?thesis
    by (cases a; cases b)
      (simp_all add: sql_eq_def compare.simps is_null_def compare_scalar_def cmp_simps format_hstore_inj
        to_lowercase_def split: if_splits)
qed

theorem index_key_sql_eq_witness:
  "sql_eq (\<lambda>_ _. None) (Int2 7) (Int8 7) = Some (index_key (\<lambda>_. []) (Int2 7) = index_key (\<lambda>_. []) (Int8 7))"
  by (rule index_key_sql_eq) simp_all

text \<open>Swapping the operands reverses the comparison.\<close>

lemma text_cmp_swap: "text_cmp b a = map_option reverse_ordering (text_cmp a b)"
  by (simp add: text_cmp_def cmp_swap [symmetric] split: option.split)

lemma compare_scalar_swap:
  assumes "\<And>a b. oc b a = map_option reverse_ordering (oc a b)"
  shows "compare_scalar oc b a = map_option reverse_ordering (compare_scalar oc a b)"
proof (cases "is_numeric (type_of a) \<and> is_numeric (type_of b)")
  case True
  then show ?thesis using assms [of b a]
    by (auto simp: compare_scalar_def cmp_swap [symmetric] split: option.splits)
next
  case False
  then have swapped: "\<not> (is_numeric (type_of b) \<and> is_numeric (type_of a))" by blast
  show ?thesis unfolding compare_scalar_def if_not_P [OF False] if_not_P [OF swapped]
    using assms [of b a] text_cmp_swap [of b a] by (cases a; cases b) (simp_all add: cmp_swap [symmetric])
qed

lemma compare_cases:
  "compare oc (Array xs) (Array ys) = compare_items oc xs ys"
  "\<not> (\<exists>xs ys. a = Array xs \<and> b = Array ys) \<Longrightarrow>
     compare oc a b = (if is_null a \<or> is_null b then None else compare_scalar oc a b)"
  by (subst compare.simps, simp add: is_null_def) (subst compare.simps, auto split: option.splits)

lemma compare_items_Nil: "compare_items oc ys [] = Some (cmp (length ys) 0)"
  by (cases ys) simp_all

lemma compare_swap:
  assumes "\<And>a b. oc b a = map_option reverse_ordering (oc a b)"
  shows "compare oc b a = map_option reverse_ordering (compare oc a b)"
proof -
  have "(oc' = oc \<longrightarrow> compare oc' b a = map_option reverse_ordering (compare oc' a b))"
    "(oc'' = oc \<longrightarrow> compare_items oc'' ys xs = map_option reverse_ordering (compare_items oc'' xs ys))"
    for oc' oc'' xs ys
  proof (induction oc' a b and oc'' xs ys rule: compare_compare_items.induct)
    case (1 oc' a b)
    show ?case
    proof (cases "\<exists>xs ys. a = Array xs \<and> b = Array ys")
      case True
      then show ?thesis using 1 by (auto simp: compare_cases(1) is_null_def)
    next
      case False
      then have swapped: "\<not> (\<exists>xs ys. b = Array xs \<and> a = Array ys)" by blast
      have "compare_scalar oc b a = map_option reverse_ordering (compare_scalar oc a b)"
        by (rule compare_scalar_swap) (rule assms)
      then show ?thesis by (simp add: compare_cases(2) [OF False] compare_cases(2) [OF swapped])
    qed
  next
    case (2 oc'' x xs y ys)
    then show ?case by (auto split: option.splits ordering.splits)
  qed (simp_all add: compare_items_Nil cmp_swap [symmetric])
  then show ?thesis by blast
qed

end
