(* ===== verification/Ext_Args.thy ===== *)
theory Ext_Args
  imports Sql_Text
begin

text \<open>
  What the extension modules share (\<^verbatim>\<open>src/sql/ext/mod.rs\<close>): strictness, the extraction of typed
  arguments and the errors for missing, ill-typed and unrouted calls.
\<close>

text \<open>\<^verbatim>\<open>as i32\<close> on an integer, and the 64-bit sum of two integers with wrap-around.\<close>

definition as_i32 :: "int \<Rightarrow> int" where
  "as_i32 n = signed_take_bit 31 n"

definition add_i64 :: "int \<Rightarrow> int \<Rightarrow> int" where
  "add_i64 a b = signed_take_bit 63 (a + b)"

lemma as_i32_id: "- (2 ^ 31) \<le> n \<Longrightarrow> n < 2 ^ 31 \<Longrightarrow> as_i32 n = n"
  by (simp add: as_i32_def signed_take_bit_int_eq_self)

lemma add_i64_id: "- (2 ^ 63) \<le> a + b \<Longrightarrow> a + b < 2 ^ 63 \<Longrightarrow> add_i64 a b = a + b"
  by (simp add: add_i64_def signed_take_bit_int_eq_self)

definition any_null :: "sql_value list \<Rightarrow> bool" where
  "any_null args = list_ex is_null args"

definition bad_arg :: "string \<Rightarrow> nat \<Rightarrow> string \<Rightarrow> sql_value \<Rightarrow> rel_error" where
  "bad_arg func idx want got =
     CannotCoerce (type_name (type_of got))
       (want @ '' (argument '' @ show_nat (idx + 1) @ '' of '' @ func @ '')'')"

definition missing_arg :: "string \<Rightarrow> nat \<Rightarrow> rel_error" where
  "missing_arg func idx = UndefinedFunction (func @ '': missing argument '' @ show_nat (idx + 1))"

definition no_such :: "string \<Rightarrow> rel_error" where
  "no_such func = Internal (''extension function '' @ func @ '' not routed'')"

definition arg_text :: "sql_value list \<Rightarrow> nat \<Rightarrow> string \<Rightarrow> rel_error + string" where
  "arg_text args idx func =
     (case nth_opt args idx of
        Some (Text s) \<Rightarrow> Inr s
      | Some (Citext s) \<Rightarrow> Inr s
      | Some other \<Rightarrow>
          (case to_text other of None \<Rightarrow> Inl (bad_arg func idx ''text'' other) | Some s \<Rightarrow> Inr s)
      | None \<Rightarrow> Inl (missing_arg func idx))"

definition arg_i64 :: "sql_value list \<Rightarrow> nat \<Rightarrow> string \<Rightarrow> rel_error + int" where
  "arg_i64 args idx func =
     (case nth_opt args idx of
        None \<Rightarrow> Inl (missing_arg func idx)
      | Some v \<Rightarrow> (case as_i64 v of None \<Rightarrow> Inl (bad_arg func idx ''integer'' v) | Some n \<Rightarrow> Inr n))"

lemma nth_opt_simps [simp]:
  "nth_opt [] i = None" "nth_opt (x # xs) 0 = Some x" "nth_opt (x # xs) (Suc i) = nth_opt xs i"
  by (simp_all add: nth_opt_def)

lemma nth_opt_numeral [simp]: "nth_opt (x # xs) (numeral i) = nth_opt xs (pred_numeral i)"
  by (simp add: nth_opt_def)

lemma nth_opt_one [simp]: "nth_opt (x # xs) 1 = nth_opt xs 0"
  by (simp add: nth_opt_def)

end
