(* ===== verification/Ltree.thy ===== *)
theory Ltree
  imports Ext_Args "HOL-Library.Sublist"
begin

text \<open>
  The ltree extension (\<^verbatim>\<open>src/sql/ext/ltree.rs\<close>): its functions and operators on label paths, the
  lquery parser and the backtracking matcher of \<^verbatim>\<open>~\<close>, which is shown to decide a declarative
  matching relation.
\<close>

subsection \<open>Functions on paths\<close>

fun path_of :: "sql_value \<Rightarrow> rel_error + string" where
  "path_of (Ltree p) = Inr p"
| "path_of _ = Inl (Internal ''unreachable: from_text(ltree) yields Ltree'')"

definition arg_ltree :: "sql_value list \<Rightarrow> nat \<Rightarrow> string \<Rightarrow> rel_error + string" where
  "arg_ltree args idx func =
     (case nth_opt args idx of
        Some (Ltree p) \<Rightarrow> Inr p
      | Some (Text s) \<Rightarrow> and_then (parse_ltree_text s) path_of
      | Some (Citext s) \<Rightarrow> and_then (parse_ltree_text s) path_of
      | Some other \<Rightarrow> Inl (bad_arg func idx ''ltree'' other)
      | None \<Rightarrow> Inl (missing_arg func idx))"

definition inner_subltree :: "string list \<Rightarrow> int \<Rightarrow> int \<Rightarrow> rel_error + string" where
  "inner_subltree labels start end =
     (if start < 0 \<or> end < 0 \<or> start \<ge> int (length labels) \<or> start > end
      then Inl (InvalidParameter ''invalid positions'')
      else let end = min end (int (length labels))
           in Inr (join_char CHR ''.'' (drop (nat start) (take (nat end) labels))))"

definition subpath_start :: "int \<Rightarrow> int \<Rightarrow> int" where
  "subpath_start n offset =
     (let start = (if offset < 0 then offset + n else offset)
      in if start < 0 then start + n else start)"

definition subpath_end :: "int \<Rightarrow> int \<Rightarrow> int option \<Rightarrow> int" where
  "subpath_end n start len =
     (case len of
        None \<Rightarrow> n
      | Some l \<Rightarrow> if l < 0 then n + l else if l = 0 then start else add_i64 start l)"

definition index_start :: "int \<Rightarrow> int \<Rightarrow> nat" where
  "index_start n offset = nat (if offset < 0 then max (n + offset) 0 else offset)"

definition index_of :: "string list \<Rightarrow> string list \<Rightarrow> nat \<Rightarrow> nat option" where
  "index_of hay needle start =
     (if needle = [] \<or> length needle > length hay then None
      else List.find (\<lambda>i. take (length needle) (drop i hay) = needle)
             [start..<length hay - length needle + 1])"

definition lca_levels :: "string list \<Rightarrow> string list \<Rightarrow> nat" where
  "lca_levels la lb =
     (let shared = length (takeWhile (\<lambda>(x, y). x = y) (zip la lb))
      in min shared (min (length la) (length lb) - 1))"

definition opt_i64 :: "sql_value list \<Rightarrow> nat \<Rightarrow> string \<Rightarrow> rel_error + int option" where
  "opt_i64 args idx func =
     (case nth_opt args idx of
        Some _ \<Rightarrow> and_then (arg_i64 args idx func) (\<lambda>n. Inr (Some n))
      | None \<Rightarrow> Inr None)"

definition ltree_call :: "string \<Rightarrow> sql_value list \<Rightarrow> rel_error + sql_value" where
  "ltree_call name args =
     (if any_null args then Inr Null
      else if name = ''nlevel'' then
        and_then (arg_ltree args 0 name) (\<lambda>path. Inr (Int4 (as_i32 (int (length (ltree_labels path))))))
      else if name = ''subltree'' then
        and_then (arg_ltree args 0 name) (\<lambda>path.
        and_then (arg_i64 args 1 name) (\<lambda>start.
        and_then (arg_i64 args 2 name) (\<lambda>end.
        and_then (inner_subltree (ltree_labels path) start end) (\<lambda>p. Inr (Ltree p)))))
      else if name = ''subpath'' then
        and_then (arg_ltree args 0 name) (\<lambda>path.
          let labels = ltree_labels path; n = int (length labels) in
        and_then (arg_i64 args 1 name) (\<lambda>offset.
        and_then (opt_i64 args 2 name) (\<lambda>len.
          let start = subpath_start n offset in
        and_then (inner_subltree labels start (subpath_end n start len)) (\<lambda>p. Inr (Ltree p)))))
      else if name = ''index'' then
        and_then (arg_ltree args 0 name) (\<lambda>a.
        and_then (arg_ltree args 1 name) (\<lambda>b.
        and_then (opt_i64 args 2 name) (\<lambda>off.
          let hay = ltree_labels a; needle = ltree_labels b;
              start = index_start (int (length hay)) (case off of None \<Rightarrow> 0 | Some o' \<Rightarrow> o')
          in Inr (Int4 (case index_of hay needle start of None \<Rightarrow> -1 | Some i \<Rightarrow> as_i32 (int i))))))
      else if name = ''text2ltree'' then and_then (arg_text args 0 name) parse_ltree_text
      else if name = ''ltree2text'' then and_then (arg_ltree args 0 name) (\<lambda>path. Inr (Text path))
      else if name = ''lca'' then
        and_then (arg_ltree args 0 name) (\<lambda>a.
        and_then (arg_ltree args 1 name) (\<lambda>b.
          let la = ltree_labels a; lb = ltree_labels b
          in Inr (Ltree (join_char CHR ''.'' (take (lca_levels la lb) la)))))
      else Inl (no_such name))"

definition is_prefix :: "string \<Rightarrow> string \<Rightarrow> bool" where
  "is_prefix a b \<longleftrightarrow>
     (let la = ltree_labels a; lb = ltree_labels b
      in length la \<le> length lb \<and> la = take (length la) lb)"

subsection \<open>lquery\<close>

record variant =
  label :: string
  ci :: bool
  prefix_match :: bool
  word :: bool

record level =
  lq_not :: bool
  star :: bool
  lq_min :: nat
  lq_max :: nat
  variants :: "variant list"

abbreviation "usize_max \<equiv> 2 ^ 64 - 1 :: nat"

definition lquery_error :: "string \<Rightarrow> rel_error" where
  "lquery_error query = Syntax (''lquery syntax error in '' @ [dquote] @ query @ [dquote])"

text \<open>The text before and after the last occurrence of a character.\<close>

definition rsplit_once :: "char \<Rightarrow> string \<Rightarrow> (string \<times> string) option" where
  "rsplit_once c s = map_option (\<lambda>(b, a). (rev a, rev b)) (split_once c (rev s))"

definition parse_bound :: "string \<Rightarrow> string \<Rightarrow> nat \<Rightarrow> rel_error + nat" where
  "parse_bound query s dflt =
     (if s = [] then Inr dflt
      else case parse_unsigned usize_max s of None \<Rightarrow> Inl (lquery_error query) | Some n \<Rightarrow> Inr n)"

definition parse_quantifier :: "string \<Rightarrow> string \<Rightarrow> rel_error + nat \<times> nat" where
  "parse_quantifier query after =
     (case strip_suffix ''}'' after of
        None \<Rightarrow> Inl (lquery_error query)
      | Some inside \<Rightarrow>
          and_then
            (case split_once CHR '','' inside of
               None \<Rightarrow> and_then (parse_bound query inside 0) (\<lambda>n. Inr (n, n))
             | Some (lo, hi) \<Rightarrow>
                 and_then (parse_bound query lo 0) (\<lambda>l.
                 and_then (parse_bound query hi usize_max) (\<lambda>h. Inr (l, h))))
            (\<lambda>(l, h). if l > h then Inl (lquery_error query) else Inr (l, h)))"

text \<open>The trailing modifiers of an alternative, from its end; the label is given reversed.\<close>

fun strip_modifiers :: "string \<Rightarrow> variant \<Rightarrow> variant" where
  "strip_modifiers (c # cs) v =
     (if c = CHR ''@'' then strip_modifiers cs (v\<lparr>ci := True\<rparr>)
      else if c = CHR ''*'' then strip_modifiers cs (v\<lparr>prefix_match := True\<rparr>)
      else if c = CHR ''%'' then strip_modifiers cs (v\<lparr>word := True\<rparr>)
      else v\<lparr>label := rev (c # cs)\<rparr>)"
| "strip_modifiers [] v = v\<lparr>label := []\<rparr>"

definition parse_variant :: "string \<Rightarrow> string \<Rightarrow> rel_error + variant" where
  "parse_variant query branch =
     (let v = strip_modifiers (rev branch) \<lparr>label = [], ci = False, prefix_match = False, word = False\<rparr>
      in if label v \<noteq> [] \<and> list_all label_char (label v) then Inr v else Inl (lquery_error query))"

definition parse_level :: "string \<Rightarrow> string \<Rightarrow> rel_error + level" where
  "parse_level query item =
     (let neg = (case item of c # _ \<Rightarrow> c = CHR ''!'' | [] \<Rightarrow> False);
          rest = (if neg then tl item else item)
      in and_then
           (case rsplit_once CHR ''{'' rest of
              None \<Rightarrow> Inr (rest, None)
            | Some (before, after) \<Rightarrow> and_then (parse_quantifier query after) (\<lambda>q. Inr (before, Some q)))
           (\<lambda>(rest, quant).
              if rest = ''*'' then
                let (l, h) = (case quant of None \<Rightarrow> (0, usize_max) | Some q \<Rightarrow> q)
                in Inr \<lparr>lq_not = neg, star = True, lq_min = l, lq_max = h, variants = []\<rparr>
              else if rest = [] then Inl (lquery_error query)
              else let (l, h) = (case quant of None \<Rightarrow> (1, 1) | Some q \<Rightarrow> q)
                in and_then (sequence_results (map (parse_variant query) (split_char CHR ''|'' rest)))
                     (\<lambda>vs. Inr \<lparr>lq_not = neg, star = False, lq_min = l, lq_max = h, variants = vs\<rparr>)))"

definition parse_lquery :: "string \<Rightarrow> rel_error + level list" where
  "parse_lquery query =
     (let q = trim query
      in if q = [] then Inl (lquery_error query)
         else sequence_results (map (parse_level query) (split_char CHR ''.'' q)))"

definition str_starts_with :: "string \<Rightarrow> string \<Rightarrow> bool" where
  "str_starts_with s p \<longleftrightarrow> take (length p) s = p"

definition word_match :: "string \<Rightarrow> string \<Rightarrow> bool \<Rightarrow> bool" where
  "word_match pattern lab pre =
     (let pwords = split_char CHR ''_'' pattern; lwords = split_char CHR ''_'' lab
      in if length pwords > length lwords then False
         else list_ex (\<lambda>start.
                list_all (\<lambda>(p, l). if pre then str_starts_with l p else l = p)
                  (zip pwords (drop start lwords)))
              [0..<length lwords - length pwords + 1])"

definition variant_matches :: "variant \<Rightarrow> string \<Rightarrow> bool" where
  "variant_matches v lab =
     (let (pat, l) = (if ci v then (to_lowercase (label v), to_lowercase lab) else (label v, lab))
      in if word v then word_match pat l (prefix_match v)
         else if prefix_match v then str_starts_with l pat
         else l = pat)"

definition level_matches :: "level \<Rightarrow> string \<Rightarrow> bool" where
  "level_matches level lab =
     (if star level then True
      else list_ex (\<lambda>v. variant_matches v lab) (variants level) \<noteq> lq_not level)"

text \<open>
  The matcher on the remaining levels and labels; \<open>lquery_loop\<close> is the loop over the number of
  labels that one level consumes, at most \<open>cap\<close>.
\<close>

function (sequential) lquery_match :: "level list \<Rightarrow> string list \<Rightarrow> bool"
  and lquery_loop :: "level \<Rightarrow> level list \<Rightarrow> string list \<Rightarrow> nat \<Rightarrow> nat \<Rightarrow> bool" where
  "lquery_match [] labels = (labels = [])"
| "lquery_match (level # levels) labels =
     (if lq_min level > length labels then False
      else lquery_loop level levels labels (min (lq_max level) (length labels)) 0)"
| "lquery_loop level levels labels cap taken =
     (if taken \<ge> lq_min level \<and> lquery_match levels (drop taken labels) then True
      else if taken \<ge> cap \<or> \<not> level_matches level (labels ! taken) then False
      else lquery_loop level levels labels cap (taken + 1))"
  by pat_completeness auto
termination
  by (relation "measures [\<lambda>x. case x of Inl (ls, _) \<Rightarrow> 2 * length ls | Inr (_, ls, _, _, _) \<Rightarrow> 2 * length ls + 1,
      \<lambda>x. case x of Inl _ \<Rightarrow> 0 | Inr (_, _, _, cap, taken) \<Rightarrow> cap - taken]") auto

declare lquery_match.simps(2) [simp del] lquery_loop.simps [simp del]

definition ltree_operator :: "string \<Rightarrow> sql_value \<Rightarrow> sql_value \<Rightarrow> rel_error + sql_value" where
  "ltree_operator op left right =
     (if is_null left \<or> is_null right then Inr Null
      else let args = [left, right]
      in if op = ''@>'' then
           and_then (arg_ltree args 0 op) (\<lambda>a. and_then (arg_ltree args 1 op) (\<lambda>b. Inr (Bool (is_prefix a b))))
         else if op = ''<@'' then
           and_then (arg_ltree args 0 op) (\<lambda>a. and_then (arg_ltree args 1 op) (\<lambda>b. Inr (Bool (is_prefix b a))))
         else if op = ''~'' then
           and_then
             (case left of
                Ltree p \<Rightarrow> Inr (p, right)
              | _ \<Rightarrow> (case right of Ltree p \<Rightarrow> Inr (p, left) | _ \<Rightarrow> Inl (bad_arg op 0 ''ltree'' left)))
             (\<lambda>(path, query).
                case to_text query of
                  None \<Rightarrow> Inl (bad_arg op 1 ''lquery'' query)
                | Some q \<Rightarrow> and_then (parse_lquery q)
                    (\<lambda>levels. Inr (Bool (lquery_match levels (ltree_labels path)))))
         else Inl (no_such op))"

subsection \<open>The matcher decides the matching relation\<close>

text \<open>
  What an lquery means: its levels match consecutive runs of labels, each run as long as the
  quantifier of its level allows.
\<close>

inductive lquery_matches :: "level list \<Rightarrow> string list \<Rightarrow> bool" where
  match_end: "lquery_matches [] []"
| match_level: "lq_min l \<le> length run \<Longrightarrow> length run \<le> lq_max l \<Longrightarrow> \<forall>x\<in>set run. level_matches l x \<Longrightarrow>
    lquery_matches ls rest \<Longrightarrow> lquery_matches (l # ls) (run @ rest)"

inductive_cases lquery_matches_NilE: "lquery_matches [] labels"
inductive_cases lquery_matches_ConsE: "lquery_matches (l # ls) labels"

lemma lquery_loop_iff:
  assumes "cap \<le> length labels" "k \<le> cap"
  shows "lquery_loop l ls labels cap k \<longleftrightarrow>
    (\<exists>n\<ge>k. n \<le> cap \<and> lq_min l \<le> n \<and> (\<forall>i\<in>{k..<n}. level_matches l (labels ! i)) \<and> lquery_match ls (drop n labels))"
  using assms
proof (induction "cap - k" arbitrary: k)
  case 0
  then have "k = cap" by simp
  then show ?case by (subst lquery_loop.simps) (auto intro: exI [of _ cap])
next
  case (Suc d)
  let ?P = "\<lambda>k n. n \<le> cap \<and> lq_min l \<le> n \<and> (\<forall>i\<in>{k..<n}. level_matches l (labels ! i)) \<and> lquery_match ls (drop n labels)"
  have less: "k < cap" using Suc.hyps(2) by simp
  have "lquery_loop l ls labels cap (k + 1) \<longleftrightarrow> (\<exists>n\<ge>k + 1. ?P (k + 1) n)"
    using Suc less by (intro Suc.hyps(1)) auto
  moreover have "(\<exists>n\<ge>k. ?P k n) \<longleftrightarrow>
      lq_min l \<le> k \<and> lquery_match ls (drop k labels) \<or> level_matches l (labels ! k) \<and> (\<exists>n\<ge>k + 1. ?P (k + 1) n)"
  proof
    assume "\<exists>n\<ge>k. ?P k n"
    then obtain n where n: "k \<le> n" "?P k n" by blast
    show "lq_min l \<le> k \<and> lquery_match ls (drop k labels) \<or> level_matches l (labels ! k) \<and> (\<exists>n\<ge>k + 1. ?P (k + 1) n)"
    proof (cases "n = k")
      case False
      with n have "level_matches l (labels ! k)" "k + 1 \<le> n" "?P (k + 1) n" by auto
      then show ?thesis by blast
    qed (use n in simp)
  next
    assume "lq_min l \<le> k \<and> lquery_match ls (drop k labels) \<or> level_matches l (labels ! k) \<and> (\<exists>n\<ge>k + 1. ?P (k + 1) n)"
    then show "\<exists>n\<ge>k. ?P k n"
    proof (elim disjE conjE exE)
      assume "lq_min l \<le> k" "lquery_match ls (drop k labels)"
      then show ?thesis using less by (intro exI [of _ k]) simp
    next
      fix n
      assume "level_matches l (labels ! k)" "k + 1 \<le> n" "n \<le> cap" "lq_min l \<le> n"
        "\<forall>i\<in>{k + 1..<n}. level_matches l (labels ! i)" "lquery_match ls (drop n labels)"
      then show ?thesis by (intro exI [of _ n]) (auto simp: Suc_le_eq le_eq_less_or_eq)
    qed
  qed
  ultimately show ?case using less by (subst lquery_loop.simps) auto
qed

lemma lquery_match_Cons:
  "lquery_match (l # ls) labels \<longleftrightarrow>
     (\<exists>n. lq_min l \<le> n \<and> n \<le> lq_max l \<and> n \<le> length labels \<and> (\<forall>x\<in>set (take n labels). level_matches l x) \<and>
        lquery_match ls (drop n labels))"
proof -
  have run: "(\<forall>i\<in>{0..<n}. level_matches l (labels ! i)) \<longleftrightarrow> (\<forall>x\<in>set (take n labels). level_matches l x)"
    if "n \<le> length labels" for n
    using that by (auto simp: all_set_conv_all_nth)
  have "lquery_loop l ls labels (min (lq_max l) (length labels)) 0 \<longleftrightarrow>
      (\<exists>n\<ge>0. n \<le> min (lq_max l) (length labels) \<and> lq_min l \<le> n \<and>
        (\<forall>i\<in>{0..<n}. level_matches l (labels ! i)) \<and> lquery_match ls (drop n labels))"
    by (rule lquery_loop_iff) simp_all
  also have "\<dots> \<longleftrightarrow> (\<exists>n. lq_min l \<le> n \<and> n \<le> lq_max l \<and> n \<le> length labels \<and>
      (\<forall>x\<in>set (take n labels). level_matches l x) \<and> lquery_match ls (drop n labels))" (is "_ \<longleftrightarrow> ?rhs")
    using run by (intro ex_cong1) (metis le0 min.bounded_iff)
  finally have loop: "lquery_loop l ls labels (min (lq_max l) (length labels)) 0 \<longleftrightarrow> ?rhs" .
  show ?thesis
  proof (cases "lq_min l > length labels")
    case True
    then have "\<not> ?rhs" by auto
    with True show ?thesis by (simp add: lquery_match.simps(2))
  next
    case False
    then show ?thesis unfolding lquery_match.simps(2) loop by (simp only: if_False)
  qed
qed

text \<open>
  C19: the backtracking matcher decides whether an lquery matches a path: whether the labels can be
  cut into runs that the levels match one after the other.
\<close>

theorem lquery_match_correct: "lquery_match levels labels \<longleftrightarrow> lquery_matches levels labels"
proof (induction levels arbitrary: labels)
  case Nil
  show ?case by (auto intro: match_end elim: lquery_matches_NilE)
next
  case (Cons l ls)
  show ?case
  proof
    assume "lquery_match (l # ls) labels"
    then obtain n where n: "lq_min l \<le> n" "n \<le> lq_max l" "n \<le> length labels"
      "\<forall>x\<in>set (take n labels). level_matches l x" "lquery_matches ls (drop n labels)"
      by (auto simp: lquery_match_Cons Cons)
    then have "lquery_matches (l # ls) (take n labels @ drop n labels)" by (intro match_level) simp_all
    then show "lquery_matches (l # ls) labels" by simp
  next
    assume "lquery_matches (l # ls) labels"
    then obtain run rest where "labels = run @ rest" "lq_min l \<le> length run" "length run \<le> lq_max l"
      "\<forall>x\<in>set run. level_matches l x" "lquery_matches ls rest"
      by (rule lquery_matches_ConsE)
    then show "lquery_match (l # ls) labels"
      by (auto simp: lquery_match_Cons Cons intro!: exI [of _ "length run"])
  qed
qed

text \<open>The words of a pattern match a contiguous run of the words of a label.\<close>

lemma run_match_iff:
  "length ps \<le> length ls \<and>
     (\<exists>s\<in>set [0..<length ls - length ps + 1]. list_all (\<lambda>(p, l). R p l) (zip ps (drop s ls))) \<longleftrightarrow>
   (\<exists>us vs ws. ls = us @ vs @ ws \<and> list_all2 R ps vs)" (is "?lhs \<longleftrightarrow> ?rhs")
proof
  assume ?lhs
  then obtain s where s: "length ps \<le> length ls" "s \<in> set [0..<length ls - length ps + 1]"
    "list_all (\<lambda>(p, l). R p l) (zip ps (drop s ls))" by blast
  have "ls = take s ls @ take (length ps) (drop s ls) @ drop (length ps) (drop s ls)"
    by (metis append_take_drop_id)
  moreover have "list_all2 R ps (take (length ps) (drop s ls))"
    unfolding list_all2_conv_all_nth
  proof (intro conjI allI impI)
    show "length ps = length (take (length ps) (drop s ls))" using s by auto
    fix i
    assume "i < length ps"
    with s have "(ps ! i, drop s ls ! i) \<in> set (zip ps (drop s ls))" by (auto simp: in_set_zip)
    with s(3) \<open>i < length ps\<close> show "R (ps ! i) (take (length ps) (drop s ls) ! i)"
      by (auto simp: list_all_iff)
  qed
  ultimately show ?rhs by blast
next
  assume ?rhs
  then obtain us vs ws where l: "ls = us @ vs @ ws" and R: "list_all2 R ps vs" by blast
  have len: "length ps = length vs" using R by (rule list_all2_lengthD)
  have "list_all (\<lambda>(p, l). R p l) (zip ps (drop (length us) ls))"
    using R len by (auto simp: l list_all_iff set_zip list_all2_conv_all_nth nth_append)
  moreover have "length us \<in> set [0..<length ls - length ps + 1]" by (simp add: l len)
  ultimately have "\<exists>s\<in>set [0..<length ls - length ps + 1]. list_all (\<lambda>(p, l). R p l) (zip ps (drop s ls))"
    by (rule bexI)
  then show ?lhs using len l by simp
qed

lemma word_match_iff:
  "word_match pattern lab pre \<longleftrightarrow>
     (\<exists>us vs ws. split_char CHR ''_'' lab = us @ vs @ ws \<and>
        list_all2 (\<lambda>p l. if pre then str_starts_with l p else l = p) (split_char CHR ''_'' pattern) vs)"
  unfolding run_match_iff [symmetric] by (auto simp: word_match_def Let_def list_ex_iff)

subsection \<open>Ancestors, common ancestors and positions\<close>

lemma is_prefix_iff: "is_prefix a b \<longleftrightarrow> prefix (ltree_labels a) (ltree_labels b)"
  unfolding is_prefix_def Let_def prefix_def by (metis append_eq_conv_conj append_take_drop_id le_add1 length_append)

lemma labels_eq_iff: "ltree_labels a = ltree_labels b \<longleftrightarrow> a = b"
  by (metis join_labels)

lemma valid_path_take: "valid_path a \<Longrightarrow> list_all label_ok (take n (ltree_labels a))"
  by (auto simp: valid_path_def list_all_iff dest: in_set_takeD)

lemma common_prefix_iff:
  "prefix q la \<and> prefix q lb \<longleftrightarrow> prefix q (take (length (takeWhile (\<lambda>(x, y). x = y) (zip la lb))) la)"
proof (induction q arbitrary: la lb)
  case (Cons x q)
  show ?case
  proof (cases la)
    case la: (Cons a la')
    show ?thesis
    proof (cases lb)
      case lb: (Cons b lb')
      show ?thesis using Cons.IH [of la' lb'] by (cases "a = b") (auto simp: la lb)
    qed simp
  qed simp
qed simp

lemma take_lca:
  "prefix q (take (lca_levels la lb) la) \<longleftrightarrow>
     prefix q la \<and> prefix q lb \<and> length q \<le> min (length la) (length lb) - 1"
proof -
  let ?s = "length (takeWhile (\<lambda>(x, y). x = y) (zip la lb))"
  let ?m = "min (length la) (length lb) - 1"
  have eq: "take (lca_levels la lb) la = take ?m (take ?s la)"
    by (simp add: lca_levels_def Let_def min.commute)
  have len: "prefix q (take ?m xs) \<longleftrightarrow> prefix q xs \<and> length q \<le> ?m" for xs
  proof
    assume "prefix q (take ?m xs)"
    then show "prefix q xs \<and> length q \<le> ?m"
      using take_is_prefix [of ?m xs] prefix_length_le [of q "take ?m xs"] by (auto intro: prefix_order.trans)
  next
    assume "prefix q xs \<and> length q \<le> ?m"
    then show "prefix q (take ?m xs)" by (auto simp: prefix_def)
  qed
  show ?thesis unfolding eq len common_prefix_iff [symmetric] by blast
qed

lemma proper_ancestor_iff:
  "is_prefix q a \<and> q \<noteq> a \<longleftrightarrow>
     prefix (ltree_labels q) (ltree_labels a) \<and> length (ltree_labels q) < length (ltree_labels a)"
proof -
  have "q \<noteq> a \<longleftrightarrow> ltree_labels q \<noteq> ltree_labels a" by (simp add: labels_eq_iff)
  then show ?thesis unfolding is_prefix_iff
    by (metis less_irrefl prefix_length_less prefix_order.le_neq_trans)
qed

lemma below:
  "la \<noteq> [] \<Longrightarrow> lb \<noteq> [] \<Longrightarrow> n \<le> min (length la) (length lb) - 1 \<longleftrightarrow> n < length la \<and> n < length lb"
  unfolding length_greater_0_conv [symmetric] by linarith

text \<open>
  C39: \<^verbatim>\<open>lca\<close> answers the longest common proper ancestor: the paths strictly above both arguments
  are exactly the answer and the paths above it.
\<close>

theorem lca_greatest:
  assumes "valid_path a" "valid_path b" "a \<noteq> []" "b \<noteq> []"
  shows "\<exists>p. ltree_call ''lca'' [Ltree a, Ltree b] = Inr (Ltree p) \<and> valid_path p \<and>
    (\<forall>q. is_prefix q p \<longleftrightarrow> (is_prefix q a \<and> q \<noteq> a) \<and> (is_prefix q b \<and> q \<noteq> b))"
proof -
  define ls where "ls = take (lca_levels (ltree_labels a) (ltree_labels b)) (ltree_labels a)"
  define p where "p = join_char CHR ''.'' ls"
  have ok: "list_all label_ok ls" unfolding ls_def by (rule valid_path_take [OF assms(1)])
  have ne: "ltree_labels a \<noteq> []" "ltree_labels b \<noteq> []" using assms(3,4) by (simp_all add: ltree_labels_def)
  have "is_prefix q p \<longleftrightarrow> (is_prefix q a \<and> q \<noteq> a) \<and> (is_prefix q b \<and> q \<noteq> b)" for q
  proof -
    have "is_prefix q p \<longleftrightarrow> prefix (ltree_labels q) ls" by (simp add: is_prefix_iff p_def labels_join [OF ok])
    also have "\<dots> \<longleftrightarrow> prefix (ltree_labels q) (ltree_labels a) \<and> prefix (ltree_labels q) (ltree_labels b) \<and>
        length (ltree_labels q) < length (ltree_labels a) \<and> length (ltree_labels q) < length (ltree_labels b)"
      unfolding ls_def take_lca below [OF ne] ..
    also have "\<dots> \<longleftrightarrow> (is_prefix q a \<and> q \<noteq> a) \<and> (is_prefix q b \<and> q \<noteq> b)"
      unfolding proper_ancestor_iff by blast
    finally show ?thesis .
  qed
  moreover have "ltree_call ''lca'' [Ltree a, Ltree b] = Inr (Ltree p)"
    by (simp add: ltree_call_def any_null_def is_null_def arg_ltree_def p_def ls_def Let_def)
  ultimately show ?thesis using valid_path_join [OF ok] p_def by blast
qed

theorem lca_greatest_witness:
  "\<exists>p. ltree_call ''lca'' [Ltree ''1.2.3'', Ltree ''1.2.3.4''] = Inr (Ltree p) \<and> \<not> is_prefix ''1.2.3'' p"
proof -
  have "valid_path ''1.2.3''" "valid_path ''1.2.3.4''" by code_simp+
  from lca_greatest [OF this] obtain p where
    "ltree_call ''lca'' [Ltree ''1.2.3'', Ltree ''1.2.3.4''] = Inr (Ltree p)"
    "\<forall>q. is_prefix q p \<longleftrightarrow> (is_prefix q ''1.2.3'' \<and> q \<noteq> ''1.2.3'') \<and> (is_prefix q ''1.2.3.4'' \<and> q \<noteq> ''1.2.3.4'')"
    by auto
  then show ?thesis by blast
qed

text \<open>An occurrence of one label list in another.\<close>

definition occurs_at :: "string list \<Rightarrow> string list \<Rightarrow> nat \<Rightarrow> bool" where
  "occurs_at hay needle i \<longleftrightarrow> needle \<noteq> [] \<and> (\<exists>us ws. hay = us @ needle @ ws \<and> length us = i)"

lemma occurs_at_iff:
  "occurs_at hay needle i \<longleftrightarrow>
     needle \<noteq> [] \<and> i + length needle \<le> length hay \<and> take (length needle) (drop i hay) = needle"
proof
  assume "occurs_at hay needle i"
  then show "needle \<noteq> [] \<and> i + length needle \<le> length hay \<and> take (length needle) (drop i hay) = needle"
    by (auto simp: occurs_at_def)
next
  assume r: "needle \<noteq> [] \<and> i + length needle \<le> length hay \<and> take (length needle) (drop i hay) = needle"
  then have "hay = take i hay @ needle @ drop (length needle) (drop i hay)"
    by (metis append_take_drop_id)
  moreover have "length (take i hay) = i" using r by simp
  ultimately show "occurs_at hay needle i" using r unfolding occurs_at_def by blast
qed

lemma find_upt_None: "List.find P [m..<n] = None \<longleftrightarrow> (\<forall>i. m \<le> i \<and> i < n \<longrightarrow> \<not> P i)"
  by (auto simp: find_None_iff)

lemma find_upt_Some: "List.find P [m..<n] = Some i \<longleftrightarrow> m \<le> i \<and> i < n \<and> P i \<and> (\<forall>j. m \<le> j \<and> j < i \<longrightarrow> \<not> P j)"
proof (induction "n - m" arbitrary: m)
  case (Suc d)
  then have step: "[m..<n] = m # [Suc m..<n]" by (simp add: upt_conv_Cons)
  have rest: "List.find P [Suc m..<n] = Some i \<longleftrightarrow> Suc m \<le> i \<and> i < n \<and> P i \<and> (\<forall>j. Suc m \<le> j \<and> j < i \<longrightarrow> \<not> P j)"
    using Suc by (intro Suc.hyps(1)) simp
  show ?case
  proof (cases "P m")
    case True
    have "m < n" using Suc.hyps(2) by simp
    with True have "m \<le> i \<and> i < n \<and> P i \<and> (\<forall>j. m \<le> j \<and> j < i \<longrightarrow> \<not> P j) \<longleftrightarrow> m = i"
      by (metis le_neq_implies_less not_less_iff_gr_or_eq order_refl)
    with True show ?thesis unfolding step by simp
  next
    case False
    then have "(m \<le> i \<and> i < n \<and> P i \<and> (\<forall>j. m \<le> j \<and> j < i \<longrightarrow> \<not> P j)) \<longleftrightarrow>
        (Suc m \<le> i \<and> i < n \<and> P i \<and> (\<forall>j. Suc m \<le> j \<and> j < i \<longrightarrow> \<not> P j))"
      by (metis Suc_leD le_antisym not_less_eq_eq)
    with False rest show ?thesis unfolding step by simp
  qed
qed auto

lemma index_of_correct:
  "(index_of hay needle start = None \<longleftrightarrow> (\<forall>i\<ge>start. \<not> occurs_at hay needle i)) \<and>
   (index_of hay needle start = Some i \<longleftrightarrow>
      start \<le> i \<and> occurs_at hay needle i \<and> (\<forall>j. start \<le> j \<and> j < i \<longrightarrow> \<not> occurs_at hay needle j))"
proof (cases "needle = [] \<or> length needle > length hay")
  case True
  then have "\<not> occurs_at hay needle j" for j by (auto simp: occurs_at_iff)
  with True show ?thesis by (auto simp: index_of_def)
next
  case False
  then have occ: "occurs_at hay needle j \<longleftrightarrow>
      j < length hay - length needle + 1 \<and> take (length needle) (drop j hay) = needle" for j
    by (auto simp: occurs_at_iff)
  show ?thesis unfolding index_of_def if_not_P [OF False] find_upt_None find_upt_Some occ
    by (rule conjI, blast, metis less_trans)
qed

text \<open>
  C36: \<^verbatim>\<open>index\<close> with an offset answers the first position, not before the offset (counted from the
  end when it is negative), at which the second path occurs in the first, and -1 when there is none.
\<close>

theorem index_first:
  fixes off :: int
  assumes "length (ltree_labels a) < 2 ^ 31"
  defines "start \<equiv> index_start (int (length (ltree_labels a))) off"
  shows "\<exists>r. ltree_call ''index'' [Ltree a, Ltree b, Int8 off] = Inr (Int4 r) \<and>
    (r = -1 \<longleftrightarrow> (\<forall>i\<ge>start. \<not> occurs_at (ltree_labels a) (ltree_labels b) i)) \<and>
    (r \<noteq> -1 \<longrightarrow> int start \<le> r \<and> occurs_at (ltree_labels a) (ltree_labels b) (nat r) \<and>
       (\<forall>j. start \<le> j \<and> int j < r \<longrightarrow> \<not> occurs_at (ltree_labels a) (ltree_labels b) j))"
proof (cases "index_of (ltree_labels a) (ltree_labels b) start")
  case None
  then have "ltree_call ''index'' [Ltree a, Ltree b, Int8 off] = Inr (Int4 (-1))"
    by (simp add: ltree_call_def any_null_def is_null_def arg_ltree_def opt_i64_def arg_i64_def start_def Let_def)
  moreover have "\<forall>i\<ge>start. \<not> occurs_at (ltree_labels a) (ltree_labels b) i"
    using None index_of_correct by blast
  ultimately show ?thesis by auto
next
  case (Some i)
  then have occ: "start \<le> i" "occurs_at (ltree_labels a) (ltree_labels b) i"
    "\<forall>j. start \<le> j \<and> j < i \<longrightarrow> \<not> occurs_at (ltree_labels a) (ltree_labels b) j"
    using index_of_correct [of "ltree_labels a" "ltree_labels b" start i] by blast+
  have "i \<le> length (ltree_labels a)" using occ(2) by (simp add: occurs_at_iff)
  then have "as_i32 (int i) = int i" using assms(1) by (intro as_i32_id) simp_all
  with Some have "ltree_call ''index'' [Ltree a, Ltree b, Int8 off] = Inr (Int4 (int i))"
    by (simp add: ltree_call_def any_null_def is_null_def arg_ltree_def opt_i64_def arg_i64_def start_def Let_def)
  with occ show ?thesis by auto
qed

theorem index_first_witness:
  "\<exists>r. ltree_call ''index'' [Ltree ''0.5.6.1.5.6'', Ltree ''5.6'', Int8 (-3)] = Inr (Int4 r) \<and>
     (r = -1 \<longleftrightarrow> (\<forall>i\<ge>3. \<not> occurs_at (ltree_labels ''0.5.6.1.5.6'') (ltree_labels ''5.6'') i))"
proof -
  have len: "length (ltree_labels ''0.5.6.1.5.6'') = 6" by code_simp
  then have "length (ltree_labels ''0.5.6.1.5.6'') < 2 ^ 31" by simp
  from index_first [OF this, of "''5.6''" "-3"] show ?thesis
    unfolding len by (auto simp: index_start_def)
qed

text \<open>A length that overflows 64 bits makes \<^verbatim>\<open>subpath\<close> fail where a shorter one gives the rest.\<close>

lemma subpath_overflow:
  "ltree_call ''subpath'' [Ltree ''a.b.c'', Int8 1, Int8 (2 ^ 63 - 1)] = Inl (InvalidParameter ''invalid positions'')"
  "ltree_call ''subpath'' [Ltree ''a.b.c'', Int8 1, Int8 (2 ^ 63 - 2)] = Inr (Ltree ''b.c'')"
  by code_simp+

end
