(* ===== verification/Guardian_Error.thy ===== *)
theory Guardian_Error
  imports Guardian_Text
begin

text \<open>
  The error type of the database core (\<^verbatim>\<open>src/guardian/error.rs\<close>) with its \<^verbatim>\<open>Display\<close> texts
  and classification, and the serializer front end (\<^verbatim>\<open>src/guardian/serializer.rs\<close>).  The postcard
  codec below it is third-party code: \<open>to_allocvec\<close> and \<open>from_bytes\<close> are parameters.
\<close>

subsection \<open>Errors\<close>

datatype (plugins only: code size) guardian_error =
    StoreError string
  | IndexError string
  | CacheError string
  | SerializationError string
  | NetworkError string
  | IrohClientError string
  | AccessControlError string
  | NetworkConnectionError string
  | TimeoutError string
  | InvalidHashError string
  | PubsubError string
  | StorageError string
  | ConfigError string
  | PeerNotFoundError string
  | TopicNotFoundError string
  | DataNotFoundError string
  | UnsupportedOperationError string
  | ClientNotInitializedError
  | SwarmNotAvailableError
  | ResourceBusyError string
  | ResourceLimitExceededError string
  | OperationError string
  | ReplicationError string
  | InvalidArgumentError string
  | NotFoundError string
  | DatabaseAlreadyExistsError string
  | IoError string
  | JsonError string
  | HashError string
  | CborError string
  | IrohApiError string
  | DatastoreError string
  | LockPoisonedError
  | OtherGuardianError string

primrec display_error :: "guardian_error \<Rightarrow> string" where
  "display_error (StoreError s) = ''Store error: '' @ s"
| "display_error (IndexError s) = ''Index error: '' @ s"
| "display_error (CacheError s) = ''Cache error: '' @ s"
| "display_error (SerializationError s) = ''Serialization error: '' @ s"
| "display_error (NetworkError s) = ''Network error: '' @ s"
| "display_error (IrohClientError s) = ''Iroh error: '' @ s"
| "display_error (AccessControlError s) = ''Access control error: '' @ s"
| "display_error (NetworkConnectionError s) = ''Network connection error: '' @ s"
| "display_error (TimeoutError s) = ''Operation timeout: '' @ s"
| "display_error (InvalidHashError s) = ''Invalid hash: '' @ s"
| "display_error (PubsubError s) = ''PubSub error: '' @ s"
| "display_error (StorageError s) = ''Storage error: '' @ s"
| "display_error (ConfigError s) = ''Configuration error: '' @ s"
| "display_error (PeerNotFoundError s) = ''Peer not found: '' @ s"
| "display_error (TopicNotFoundError s) = ''Topic not found: '' @ s"
| "display_error (DataNotFoundError s) = ''Data not found for hash: '' @ s"
| "display_error (UnsupportedOperationError s) = ''Operation not supported: '' @ s"
| "display_error ClientNotInitializedError = ''Client not initialized''"
| "display_error SwarmNotAvailableError = ''Swarm not available''"
| "display_error (ResourceBusyError s) = ''Resource busy: '' @ s"
| "display_error (ResourceLimitExceededError s) = ''Resource limit exceeded: '' @ s"
| "display_error (OperationError s) = ''Operation error: '' @ s"
| "display_error (ReplicationError s) = ''Replication error: '' @ s"
| "display_error (InvalidArgumentError s) = ''Invalid argument: '' @ s"
| "display_error (NotFoundError s) = ''Not found: '' @ s"
| "display_error (DatabaseAlreadyExistsError s) = ''Database already exists: '' @ s"
| "display_error (IoError s) = ''IO error: '' @ s"
| "display_error (JsonError s) = ''JSON error: '' @ s"
| "display_error (HashError s) = ''Hash error: '' @ s"
| "display_error (CborError s) = ''CBOR error: '' @ s"
| "display_error (IrohApiError s) = ''Iroh API error: '' @ s"
| "display_error (DatastoreError s) = ''Datastore error: '' @ s"
| "display_error LockPoisonedError = ''Lock poisoned''"
| "display_error (OtherGuardianError s) = ''Other error: '' @ s"

definition is_network_error :: "guardian_error \<Rightarrow> bool" where
  "is_network_error e \<longleftrightarrow> (case e of NetworkConnectionError _ \<Rightarrow> True | NetworkError _ \<Rightarrow> True | _ \<Rightarrow> False)"

definition is_timeout_error :: "guardian_error \<Rightarrow> bool" where
  "is_timeout_error e \<longleftrightarrow> (case e of TimeoutError _ \<Rightarrow> True | _ \<Rightarrow> False)"

definition is_not_found_error :: "guardian_error \<Rightarrow> bool" where
  "is_not_found_error e \<longleftrightarrow>
     (case e of
        DataNotFoundError _ \<Rightarrow> True
      | PeerNotFoundError _ \<Rightarrow> True
      | TopicNotFoundError _ \<Rightarrow> True
      | NotFoundError _ \<Rightarrow> True
      | _ \<Rightarrow> False)"

definition is_recoverable :: "guardian_error \<Rightarrow> bool" where
  "is_recoverable e \<longleftrightarrow>
     (case e of
        NetworkConnectionError _ \<Rightarrow> True
      | NetworkError _ \<Rightarrow> True
      | TimeoutError _ \<Rightarrow> True
      | ResourceBusyError _ \<Rightarrow> True
      | _ \<Rightarrow> False)"

text \<open>An error is recoverable exactly when it is a network error, a timeout or a busy resource.\<close>

lemma is_recoverable_iff:
  "is_recoverable e \<longleftrightarrow> is_network_error e \<or> is_timeout_error e \<or> (\<exists>s. e = ResourceBusyError s)"
  by (cases e) (simp_all add: is_recoverable_def is_network_error_def is_timeout_error_def)

lemma not_found_not_recoverable: "is_not_found_error e \<Longrightarrow> \<not> is_recoverable e"
  by (cases e) (simp_all add: is_recoverable_def is_not_found_error_def)

subsection \<open>Serialization\<close>

definition serialize :: "('a \<Rightarrow> string + bytes) \<Rightarrow> 'a \<Rightarrow> guardian_error + bytes" where
  "serialize to_allocvec v =
     map_err (\<lambda>e. SerializationError (''Postcard serialization failed: '' @ e)) (to_allocvec v)"

definition serialize_with_limit :: "('a \<Rightarrow> string + bytes) \<Rightarrow> 'a \<Rightarrow> nat \<Rightarrow> guardian_error + bytes" where
  "serialize_with_limit to_allocvec v max_bytes =
     and_then (serialize to_allocvec v) (\<lambda>bs.
       if max_bytes < length bs
       then Inl (SerializationError (''Serialized size '' @ show_nat (length bs) @
              '' exceeds limit of '' @ show_nat max_bytes @ '' bytes''))
       else Inr bs)"

definition deserialize :: "(bytes \<Rightarrow> string + 'a) \<Rightarrow> bytes \<Rightarrow> guardian_error + 'a" where
  "deserialize from_bytes bs =
     (if bs = [] then Inl (SerializationError ''Cannot deserialize empty byte array'')
      else map_err (\<lambda>e. SerializationError (''Postcard deserialization failed: '' @ e)) (from_bytes bs))"

text \<open>
  A postcard codec for one type decodes what it encodes.  The front end keeps that, as long as no
  value is encoded to the empty string.
\<close>

definition postcard_codec :: "('a \<Rightarrow> string + bytes) \<Rightarrow> (bytes \<Rightarrow> string + 'a) \<Rightarrow> bool" where
  "postcard_codec to_allocvec from_bytes \<longleftrightarrow>
     (\<forall>v bs. to_allocvec v = Inr bs \<longrightarrow> bs \<noteq> [] \<and> from_bytes bs = Inr v)"

lemma deserialize_serialize:
  "postcard_codec enc dec \<Longrightarrow> serialize enc v = Inr bs \<Longrightarrow> deserialize dec bs = Inr v"
  by (simp add: postcard_codec_def serialize_def deserialize_def)

lemma serialize_with_limit_Inr:
  "serialize_with_limit enc v n = Inr bs \<longleftrightarrow> serialize enc v = Inr bs \<and> length bs \<le> n"
  by (cases "serialize enc v") (auto simp: serialize_with_limit_def)

end
