(* ===== verification/Store_Index.thy ===== *)
theory Store_Index
  imports Oplog Guardian_Error
begin

text \<open>
  The operations a store writes to its log (\<^verbatim>\<open>src/stores/operation/mod.rs\<close>) and the indices built
  from them: the document, base, key-value, no-op and event indices, all implementations of the trait
  \<^verbatim>\<open>StoreIndex\<close> (\<^verbatim>\<open>src/traits.rs\<close>).  A trait object is a value of the sum \<open>store_index\<close>, and a
  trait method is a function with one equation per implementation.  Read and write locks are not
  modelled: a method runs alone, and no lock is poisoned, so the methods that return
  \<^verbatim>\<open>Ok\<close> on every other path return their value here.
\<close>

subsection \<open>Operations\<close>

record op_doc =
  doc_key :: string
  doc_value :: bytes

record operation =
  op_key :: "string option"
  op_name :: string
  op_value :: bytes
  op_docs :: "op_doc list"
  op_entry :: "entry option"

definition operation_new :: "string option \<Rightarrow> string \<Rightarrow> bytes option \<Rightarrow> operation" where
  "operation_new key op val =
     \<lparr> op_key = key, op_name = op, op_value = (case val of Some v \<Rightarrow> v | None \<Rightarrow> []),
       op_docs = [], op_entry = None \<rparr>"

definition new_with_documents :: "string option \<Rightarrow> string \<Rightarrow> (string \<times> bytes) list \<Rightarrow> operation" where
  "new_with_documents key op docs =
     \<lparr> op_key = key, op_name = op, op_value = [],
       op_docs = map (\<lambda>(k, v). \<lparr> doc_key = k, doc_value = v \<rparr>) docs, op_entry = None \<rparr>"

text \<open>The base64 and postcard libraries: the codec of an operation.\<close>

record op_codec =
  b64_encode :: "bytes \<Rightarrow> bytes"
  b64_decode :: "bytes \<Rightarrow> string + bytes"
  op_to_allocvec :: "operation \<Rightarrow> string + bytes"
  op_from_bytes :: "bytes \<Rightarrow> string + operation"

definition marshal :: "op_codec \<Rightarrow> operation \<Rightarrow> guardian_error + bytes" where
  "marshal cd op = serialize (op_to_allocvec cd) op"

definition parse_operation :: "op_codec \<Rightarrow> entry \<Rightarrow> guardian_error + operation" where
  "parse_operation cd e =
     and_then
       (map_err (\<lambda>err. StoreError (''Unable to decode base64 payload: '' @ err))
         (b64_decode cd (payload e)))
       (\<lambda>decoded_bytes.
     and_then
       (map_err (\<lambda>err. StoreError (''Unable to parse operation payload: '' @ display_error err))
         (deserialize (op_from_bytes cd) decoded_bytes))
       (\<lambda>op. Inr (op\<lparr>op_entry := Some e\<rparr>)))"

subsection \<open>The indices\<close>

type_synonym byte_map = "(string, bytes) hash_map"

record document_index =
  doc_map :: byte_map

record base_index =
  base_id :: bytes
  base_map :: byte_map

record kv_index =
  key_map :: byte_map

record event_index =
  entries_cache :: "entry list"

text \<open>The document index replays the entries it is given in order.\<close>

definition apply_operation :: "operation \<Rightarrow> byte_map \<Rightarrow> byte_map" where
  "apply_operation op m =
     (if op_name op = ''PUT'' then
        (case op_key op of
           Some k \<Rightarrow> if op_value op \<noteq> [] then AList.update k (op_value op) m else m
         | None \<Rightarrow> m)
      else if op_name op = ''DEL'' then
        (case op_key op of Some k \<Rightarrow> AList.delete k m | None \<Rightarrow> m)
      else if op_name op = ''PUTALL'' then
        fold (\<lambda>d. AList.update (doc_key d) (doc_value d)) (op_docs op) m
      else m)"

definition doc_update_index :: "op_codec \<Rightarrow> entry list \<Rightarrow> byte_map \<Rightarrow> byte_map" where
  "doc_update_index cd es m =
     fold (\<lambda>e m. case parse_operation cd e of Inr op \<Rightarrow> apply_operation op m | Inl _ \<Rightarrow> m) es m"

text \<open>
  The base index goes through the entries from the newest to the oldest and lets the first operation
  it meets for a key decide.
\<close>

definition base_apply :: "operation \<Rightarrow> string set \<times> byte_map \<Rightarrow> string set \<times> byte_map" where
  "base_apply op st =
     (case op_key op of
        None \<Rightarrow> st
      | Some k \<Rightarrow>
          if k = [] \<or> k \<in> fst st then st
          else (insert k (fst st),
                if op_name op = ''PUT'' then
                  (if op_value op \<noteq> [] then AList.update k (op_value op) (snd st) else snd st)
                else if op_name op = ''DEL'' then AList.delete k (snd st)
                else snd st))"

definition base_update_index :: "op_codec \<Rightarrow> entry list \<Rightarrow> byte_map \<Rightarrow> byte_map" where
  "base_update_index cd es m =
     snd (fold (\<lambda>e st. case parse_operation cd e of Inr op \<Rightarrow> base_apply op st | Inl _ \<Rightarrow> st)
            (rev es) ({}, m))"

definition update_from_iroh_entries :: "(string \<times> bytes) list \<Rightarrow> document_index \<Rightarrow> document_index" where
  "update_from_iroh_entries es i =
     i\<lparr>doc_map := fold (\<lambda>(k, h) m. if h \<noteq> [] then AList.update k h m else m) es []\<rparr>"

definition document_index_put :: "string \<Rightarrow> bytes \<Rightarrow> document_index \<Rightarrow> document_index" where
  "document_index_put k h i = i\<lparr>doc_map := AList.update k h (doc_map i)\<rparr>"

definition document_index_remove :: "string \<Rightarrow> document_index \<Rightarrow> bytes option \<times> document_index" where
  "document_index_remove k i = (map_of (doc_map i) k, i\<lparr>doc_map := AList.delete k (doc_map i)\<rparr>)"

record index_stats =
  total_keys :: nat
  total_bytes :: nat

definition document_index_stats :: "document_index \<Rightarrow> index_stats" where
  "document_index_stats i =
     \<lparr> total_keys = length (doc_map i), total_bytes = sum_list (map (length \<circ> snd) (doc_map i)) \<rparr>"

definition get_entry_at :: "nat \<Rightarrow> event_index \<Rightarrow> entry option" where
  "get_entry_at n i = (if n < length (entries_cache i) then Some (entries_cache i ! n) else None)"

definition event_last_entries :: "nat \<Rightarrow> event_index \<Rightarrow> entry list" where
  "event_last_entries n i = drop (length (entries_cache i) - n) (entries_cache i)"

subsection \<open>The trait\<close>

datatype (plugins only: code size) store_index =
    DocumentIndex document_index
  | BaseIndex base_index
  | KvIndex kv_index
  | NoopIndex
  | EventIndex event_index

definition usize_max :: nat where
  "usize_max = 2 ^ 64 - 1"

named_theorems index_defs \<open>the methods of the indices\<close>

definition doc_contains_key :: "document_index \<Rightarrow> string \<Rightarrow> bool" where [index_defs]:
  "doc_contains_key i k \<longleftrightarrow> map_of (doc_map i) k \<noteq> None"

definition doc_get_bytes :: "document_index \<Rightarrow> string \<Rightarrow> bytes option" where [index_defs]:
  "doc_get_bytes i k = map_of (doc_map i) k"

definition doc_keys :: "document_index \<Rightarrow> string list" where [index_defs]:
  "doc_keys i = map fst (doc_map i)"

definition doc_len :: "document_index \<Rightarrow> nat" where [index_defs]:
  "doc_len i = length (doc_map i)"

definition doc_is_empty :: "document_index \<Rightarrow> bool" where [index_defs]:
  "doc_is_empty i \<longleftrightarrow> doc_map i = []"

definition doc_clear :: "document_index \<Rightarrow> document_index" where [index_defs]:
  "doc_clear i = i\<lparr>doc_map := []\<rparr>"

definition base_contains_key :: "base_index \<Rightarrow> string \<Rightarrow> bool" where [index_defs]:
  "base_contains_key i k \<longleftrightarrow> map_of (base_map i) k \<noteq> None"

definition base_get_bytes :: "base_index \<Rightarrow> string \<Rightarrow> bytes option" where [index_defs]:
  "base_get_bytes i k = map_of (base_map i) k"

definition base_keys :: "base_index \<Rightarrow> string list" where [index_defs]:
  "base_keys i = map fst (base_map i)"

definition base_len :: "base_index \<Rightarrow> nat" where [index_defs]:
  "base_len i = length (base_map i)"

definition base_is_empty :: "base_index \<Rightarrow> bool" where [index_defs]:
  "base_is_empty i \<longleftrightarrow> base_map i = []"

definition base_clear :: "base_index \<Rightarrow> base_index" where [index_defs]:
  "base_clear i = i\<lparr>base_map := []\<rparr>"

definition kv_contains_key :: "kv_index \<Rightarrow> string \<Rightarrow> bool" where [index_defs]:
  "kv_contains_key i k \<longleftrightarrow> map_of (key_map i) k \<noteq> None"

definition kv_get_bytes :: "kv_index \<Rightarrow> string \<Rightarrow> bytes option" where [index_defs]:
  "kv_get_bytes i k = map_of (key_map i) k"

definition kv_keys :: "kv_index \<Rightarrow> string list" where [index_defs]:
  "kv_keys i = map fst (key_map i)"

definition kv_len :: "kv_index \<Rightarrow> nat" where [index_defs]:
  "kv_len i = length (key_map i)"

definition kv_is_empty :: "kv_index \<Rightarrow> bool" where [index_defs]:
  "kv_is_empty i \<longleftrightarrow> key_map i = []"

definition kv_clear :: "kv_index \<Rightarrow> kv_index" where [index_defs]:
  "kv_clear i = i\<lparr>key_map := []\<rparr>"

definition event_contains_key :: "event_index \<Rightarrow> string \<Rightarrow> bool" where [index_defs]:
  "event_contains_key i k =
     (case parse_unsigned usize_max k of Some n \<Rightarrow> n < length (entries_cache i) | None \<Rightarrow> False)"

definition event_get_bytes :: "event_index \<Rightarrow> string \<Rightarrow> bytes option" where [index_defs]:
  "event_get_bytes i k =
     (case parse_unsigned usize_max k of
        Some n \<Rightarrow> if n < length (entries_cache i) then Some (payload (entries_cache i ! n)) else None
      | None \<Rightarrow> None)"

definition event_keys :: "event_index \<Rightarrow> string list" where [index_defs]:
  "event_keys i = map show_nat [0..<length (entries_cache i)]"

definition event_len :: "event_index \<Rightarrow> nat" where [index_defs]:
  "event_len i = length (entries_cache i)"

definition event_is_empty :: "event_index \<Rightarrow> bool" where [index_defs]:
  "event_is_empty i \<longleftrightarrow> entries_cache i = []"

definition event_update_index :: "entry list \<Rightarrow> event_index \<Rightarrow> event_index" where [index_defs]:
  "event_update_index es i = i\<lparr>entries_cache := es\<rparr>"

definition event_clear :: "event_index \<Rightarrow> event_index" where [index_defs]:
  "event_clear i = i\<lparr>entries_cache := []\<rparr>"

definition event_entries_range :: "event_index \<Rightarrow> nat \<Rightarrow> nat \<Rightarrow> entry list option" where
  "event_entries_range i start stop =
     (let c = entries_cache i
      in if stop < start \<or> length c \<le> start then None
         else Some (take (min stop (length c) - start) (drop start c)))"

definition event_get_last_entries :: "event_index \<Rightarrow> nat \<Rightarrow> entry list option" where
  "event_get_last_entries i n =
     (let c = entries_cache i
      in if c = [] \<or> n = 0 then Some [] else Some (drop (length c - n) c))"

definition event_entry_by_hash :: "event_index \<Rightarrow> hash \<Rightarrow> entry option" where
  "event_entry_by_hash i h = find (\<lambda>e. hash e = h) (entries_cache i)"

text \<open>Calling a method of the trait object.\<close>

primrec si_get_bytes :: "store_index \<Rightarrow> string \<Rightarrow> bytes option" where
  "si_get_bytes (DocumentIndex i) k = doc_get_bytes i k"
| "si_get_bytes (BaseIndex i) k = base_get_bytes i k"
| "si_get_bytes (KvIndex i) k = kv_get_bytes i k"
| "si_get_bytes NoopIndex k = None"
| "si_get_bytes (EventIndex i) k = event_get_bytes i k"

primrec si_contains_key :: "store_index \<Rightarrow> string \<Rightarrow> bool" where
  "si_contains_key (DocumentIndex i) k = doc_contains_key i k"
| "si_contains_key (BaseIndex i) k = base_contains_key i k"
| "si_contains_key (KvIndex i) k = kv_contains_key i k"
| "si_contains_key NoopIndex k = False"
| "si_contains_key (EventIndex i) k = event_contains_key i k"

primrec si_keys :: "store_index \<Rightarrow> string list" where
  "si_keys (DocumentIndex i) = doc_keys i"
| "si_keys (BaseIndex i) = base_keys i"
| "si_keys (KvIndex i) = kv_keys i"
| "si_keys NoopIndex = []"
| "si_keys (EventIndex i) = event_keys i"

primrec si_len :: "store_index \<Rightarrow> nat" where
  "si_len (DocumentIndex i) = doc_len i"
| "si_len (BaseIndex i) = base_len i"
| "si_len (KvIndex i) = kv_len i"
| "si_len NoopIndex = 0"
| "si_len (EventIndex i) = event_len i"

primrec si_is_empty :: "store_index \<Rightarrow> bool" where
  "si_is_empty (DocumentIndex i) = doc_is_empty i"
| "si_is_empty (BaseIndex i) = base_is_empty i"
| "si_is_empty (KvIndex i) = kv_is_empty i"
| "si_is_empty NoopIndex = True"
| "si_is_empty (EventIndex i) = event_is_empty i"

primrec si_update_index :: "op_codec \<Rightarrow> entry list \<Rightarrow> store_index \<Rightarrow> store_index" where
  "si_update_index cd es (DocumentIndex i) =
     DocumentIndex (i\<lparr>doc_map := doc_update_index cd es (doc_map i)\<rparr>)"
| "si_update_index cd es (BaseIndex i) = BaseIndex (i\<lparr>base_map := base_update_index cd es (base_map i)\<rparr>)"
| "si_update_index cd es (KvIndex i) = KvIndex i"
| "si_update_index cd es NoopIndex = NoopIndex"
| "si_update_index cd es (EventIndex i) = EventIndex (event_update_index es i)"

primrec si_clear :: "store_index \<Rightarrow> store_index" where
  "si_clear (DocumentIndex i) = DocumentIndex (doc_clear i)"
| "si_clear (BaseIndex i) = BaseIndex (base_clear i)"
| "si_clear (KvIndex i) = KvIndex (kv_clear i)"
| "si_clear NoopIndex = NoopIndex"
| "si_clear (EventIndex i) = EventIndex (event_clear i)"

text \<open>The optional methods: only the event index overrides the defaults of the trait.\<close>

definition si_supports_entry_queries :: "store_index \<Rightarrow> bool" where
  "si_supports_entry_queries i = (case i of EventIndex _ \<Rightarrow> True | _ \<Rightarrow> False)"

definition si_get_entries_range :: "store_index \<Rightarrow> nat \<Rightarrow> nat \<Rightarrow> entry list option" where
  "si_get_entries_range i start stop = (case i of EventIndex ev \<Rightarrow> event_entries_range ev start stop | _ \<Rightarrow> None)"

definition si_get_last_entries :: "store_index \<Rightarrow> nat \<Rightarrow> entry list option" where
  "si_get_last_entries i n = (case i of EventIndex ev \<Rightarrow> event_get_last_entries ev n | _ \<Rightarrow> None)"

definition si_get_entry_by_hash :: "store_index \<Rightarrow> hash \<Rightarrow> entry option" where
  "si_get_entry_by_hash i h = (case i of EventIndex ev \<Rightarrow> event_entry_by_hash ev h | _ \<Rightarrow> None)"

subsection \<open>What every index promises\<close>

locale store_index_contract =
  fixes contains_key :: "'i \<Rightarrow> string \<Rightarrow> bool"
    and get_bytes :: "'i \<Rightarrow> string \<Rightarrow> bytes option"
    and keys :: "'i \<Rightarrow> string list"
    and len :: "'i \<Rightarrow> nat"
    and is_empty :: "'i \<Rightarrow> bool"
    and clear :: "'i \<Rightarrow> 'i"
    and invar :: "'i \<Rightarrow> bool"
  assumes contains_get: "contains_key i k \<longleftrightarrow> get_bytes i k \<noteq> None"
    and keys_contains: "invar i \<Longrightarrow> k \<in> set (keys i) \<Longrightarrow> contains_key i k"
    and keys_distinct: "invar i \<Longrightarrow> distinct (keys i)"
    and len_keys: "len i = length (keys i)"
    and empty_len: "is_empty i \<longleftrightarrow> len i = 0"
    and clear_get: "get_bytes (clear i) k = None"
    and clear_invar: "invar (clear i)"
begin

lemma is_empty_keys: "is_empty i \<longleftrightarrow> keys i = []"
  by (simp add: empty_len len_keys)

lemma card_keys: "invar i \<Longrightarrow> card (set (keys i)) = len i"
  by (simp add: distinct_card keys_distinct len_keys)

lemma keys_get: "invar i \<Longrightarrow> k \<in> set (keys i) \<Longrightarrow> \<exists>v. get_bytes i k = Some v"
  using keys_contains contains_get by fastforce

lemma is_empty_clear: "is_empty (clear i)"
  using keys_get [OF clear_invar] clear_get unfolding is_empty_keys
  by (metis last_in_set option.distinct(1))

end

text \<open>
  The invariant of an index: a hash map has no key twice, and the entry cache is no longer than
  a \<^verbatim>\<open>Vec\<close> can be.
\<close>

primrec si_invar :: "store_index \<Rightarrow> bool" where
  "si_invar (DocumentIndex i) = hash_wf (doc_map i)"
| "si_invar (BaseIndex i) = hash_wf (base_map i)"
| "si_invar (KvIndex i) = hash_wf (key_map i)"
| "si_invar NoopIndex = True"
| "si_invar (EventIndex i) = (length (entries_cache i) \<le> usize_max)"

interpretation si: store_index_contract si_contains_key si_get_bytes si_keys si_len si_is_empty
  si_clear si_invar
proof unfold_locales
  fix i k
  show "si_contains_key i k \<longleftrightarrow> si_get_bytes i k \<noteq> None"
    by (cases i) (auto simp: index_defs split: option.splits)
  show "si_invar i \<Longrightarrow> k \<in> set (si_keys i) \<Longrightarrow> si_contains_key i k"
    by (cases i) (auto simp: index_defs dest!: weak_map_of_SomeI)
  show "si_invar i \<Longrightarrow> distinct (si_keys i)"
    by (cases i) (auto simp: index_defs hash_wf_def distinct_map inj_on_def)
  show "si_len i = length (si_keys i)" by (cases i) (simp_all add: index_defs)
  show "si_is_empty i \<longleftrightarrow> si_len i = 0" by (cases i) (simp_all add: index_defs)
  show "si_get_bytes (si_clear i) k = None"
    by (cases i) (simp_all add: index_defs split: option.splits)
  show "si_invar (si_clear i)" by (cases i) (simp_all add: index_defs)
qed

subsection \<open>Last writer wins\<close>

text \<open>
  The effect of an operation on a key: \<open>None\<close> leaves the key alone, \<open>Some None\<close> removes it,
  \<open>Some (Some v)\<close> stores \<open>v\<close>.
\<close>

definition op_effect :: "operation \<Rightarrow> string \<Rightarrow> bytes option option" where
  "op_effect op k =
     (if op_name op = ''PUT'' then
        (if op_key op = Some k \<and> op_value op \<noteq> [] then Some (Some (op_value op)) else None)
      else if op_name op = ''DEL'' then (if op_key op = Some k then Some None else None)
      else if op_name op = ''PUTALL'' then
        map_option Some (map_of (rev (map (\<lambda>d. (doc_key d, doc_value d)) (op_docs op))) k)
      else None)"

definition entry_effect :: "op_codec \<Rightarrow> entry \<Rightarrow> string \<Rightarrow> bytes option option" where
  "entry_effect cd e k = (case parse_operation cd e of Inr op \<Rightarrow> op_effect op k | Inl _ \<Rightarrow> None)"

definition last_write :: "op_codec \<Rightarrow> entry list \<Rightarrow> string \<Rightarrow> entry option" where
  "last_write cd es k = find (\<lambda>e. entry_effect cd e k \<noteq> None) (rev es)"

lemma map_of_update_docs:
  "map_of (fold (\<lambda>d. AList.update (doc_key d) (doc_value d)) ds m) k =
     (case map_of (rev (map (\<lambda>d. (doc_key d, doc_value d)) ds)) k of Some v \<Rightarrow> Some v | None \<Rightarrow> map_of m k)"
  by (induction ds rule: rev_induct) (simp_all add: update_conv split: option.splits)

lemma map_of_apply_operation:
  "map_of (apply_operation op m) k = (case op_effect op k of Some r \<Rightarrow> r | None \<Rightarrow> map_of m k)"
  by (auto simp: apply_operation_def op_effect_def update_conv delete_conv map_of_update_docs
      split: option.splits)

lemma hash_wf_apply_operation: "hash_wf m \<Longrightarrow> hash_wf (apply_operation op m)"
  unfolding apply_operation_def
  by (auto split: option.splits intro: hm.invar_insert_all)

lemma doc_update_index_Nil [simp]: "doc_update_index cd [] m = m"
  by (simp add: doc_update_index_def)

lemma doc_update_index_snoc:
  "doc_update_index cd (es @ [e]) m =
     (case parse_operation cd e of
        Inr op \<Rightarrow> apply_operation op (doc_update_index cd es m)
      | Inl _ \<Rightarrow> doc_update_index cd es m)"
  by (simp add: doc_update_index_def split: sum.splits)

lemma hash_wf_doc_update_index: "hash_wf m \<Longrightarrow> hash_wf (doc_update_index cd es m)"
  by (induction es rule: rev_induct)
    (simp_all add: doc_update_index_snoc hash_wf_apply_operation split: sum.splits)

lemma last_write_snoc:
  "last_write cd (es @ [e]) k = (if entry_effect cd e k \<noteq> None then Some e else last_write cd es k)"
  by (simp add: last_write_def)

lemma last_write_None: "last_write cd es k = None \<longleftrightarrow> (\<forall>e\<in>set es. entry_effect cd e k = None)"
  by (auto simp: last_write_def find_None_iff)

text \<open>
  After an update the document index holds, for every key, what the latest entry that touches
  the key left there, and its old value when no entry touches it.
\<close>

lemma map_of_doc_update_index:
  "map_of (doc_update_index cd es m) k =
     (case last_write cd es k of Some e \<Rightarrow> the (entry_effect cd e k) | None \<Rightarrow> map_of m k)"
proof (induction es rule: rev_induct)
  case Nil
  show ?case by (simp add: last_write_def)
next
  case (snoc e es)
  then show ?case
    by (auto simp: doc_update_index_snoc last_write_snoc map_of_apply_operation entry_effect_def
        split: sum.splits option.splits)
qed

text \<open>
  An index whose keys are all touched by the entries is rebuilt by them: replaying a log on top of
  it, or on top of an empty index, gives the same contents.
\<close>

definition covered :: "op_codec \<Rightarrow> entry list \<Rightarrow> byte_map \<Rightarrow> bool" where
  "covered cd es m \<longleftrightarrow> (\<forall>k. map_of m k \<noteq> None \<longrightarrow> last_write cd es k \<noteq> None)"

lemma covered_Nil [simp]: "covered cd es []"
  by (simp add: covered_def)

lemma covered_mono: "covered cd es m \<Longrightarrow> set es \<subseteq> set es' \<Longrightarrow> covered cd es' m"
  unfolding covered_def last_write_None by blast

lemma covered_update: "covered cd es m \<Longrightarrow> covered cd es (doc_update_index cd es m)"
  unfolding covered_def map_of_doc_update_index by (auto split: option.splits)

lemma doc_update_covered:
  "covered cd es m \<Longrightarrow> map_of (doc_update_index cd es m) = map_of (doc_update_index cd es [])"
  unfolding fun_eq_iff map_of_doc_update_index covered_def by (auto split: option.splits)

subsection \<open>The base index\<close>

definition decides :: "op_codec \<Rightarrow> string \<Rightarrow> entry \<Rightarrow> bool" where
  "decides cd k e \<longleftrightarrow>
     (case parse_operation cd e of Inr op \<Rightarrow> op_key op = Some k \<and> k \<noteq> [] | Inl _ \<Rightarrow> False)"

definition decision :: "op_codec \<Rightarrow> string \<Rightarrow> entry \<Rightarrow> bytes option option" where
  "decision cd k e =
     (case parse_operation cd e of
        Inr op \<Rightarrow>
          if op_name op = ''PUT'' then (if op_value op \<noteq> [] then Some (Some (op_value op)) else None)
          else if op_name op = ''DEL'' then Some None
          else None
      | Inl _ \<Rightarrow> None)"

abbreviation base_step :: "op_codec \<Rightarrow> entry \<Rightarrow> string set \<times> byte_map \<Rightarrow> string set \<times> byte_map" where
  "base_step cd e st \<equiv> (case parse_operation cd e of Inr op \<Rightarrow> base_apply op st | Inl _ \<Rightarrow> st)"

lemma base_step_fst: "k \<in> fst (base_step cd e st) \<longleftrightarrow> k \<in> fst st \<or> decides cd k e"
  by (auto simp: base_apply_def decides_def split: sum.splits option.splits)

lemma base_step_snd:
  "map_of (snd (base_step cd e st)) k =
     (if k \<notin> fst st \<and> decides cd k e
      then (case decision cd k e of Some r \<Rightarrow> r | None \<Rightarrow> map_of (snd st) k)
      else map_of (snd st) k)"
  by (auto simp: base_apply_def decides_def decision_def update_conv delete_conv
      split: sum.splits option.splits)

lemma base_fold:
  "map_of (snd (fold (base_step cd) es st)) k =
     (if k \<in> fst st then map_of (snd st) k
      else case find (decides cd k) es of
             None \<Rightarrow> map_of (snd st) k
           | Some e \<Rightarrow> (case decision cd k e of Some r \<Rightarrow> r | None \<Rightarrow> map_of (snd st) k))"
proof (induction es arbitrary: st)
  case (Cons e es)
  show ?case
    unfolding fold.simps comp_def Cons.IH base_step_fst base_step_snd by simp
qed simp

lemma map_of_base_update_index:
  "map_of (base_update_index cd es m) k =
     (case find (decides cd k) (rev es) of
        None \<Rightarrow> map_of m k
      | Some e \<Rightarrow> (case decision cd k e of Some r \<Rightarrow> r | None \<Rightarrow> map_of m k))"
  unfolding base_update_index_def base_fold by (simp split: option.splits)

lemma hash_wf_base_update_index:
  assumes "hash_wf m"
  shows "hash_wf (base_update_index cd es m)"
proof -
  have "hash_wf (snd (base_apply op st))" if "hash_wf (snd st)" for op and st :: "string set \<times> byte_map"
    using that by (auto simp: base_apply_def split: option.splits)
  then have "hash_wf (snd st) \<Longrightarrow> hash_wf (snd (fold (base_step cd) xs st))" for xs st
    by (induction xs arbitrary: st) (simp_all split: sum.splits)
  then show ?thesis using assms by (simp add: base_update_index_def)
qed

lemma si_invar_update:
  "si_invar i \<Longrightarrow> length es \<le> usize_max \<Longrightarrow> si_invar (si_update_index cd es i)"
  by (cases i) (simp_all add: hash_wf_doc_update_index hash_wf_base_update_index index_defs)

text \<open>
  The operations the key-value interface writes: a non-empty value put under a non-empty key, or a
  non-empty key deleted.
\<close>

definition plain_operation :: "operation \<Rightarrow> bool" where
  "plain_operation op \<longleftrightarrow>
     (\<exists>k. op_key op = Some k \<and> k \<noteq> []) \<and>
     (op_name op = ''PUT'' \<and> op_value op \<noteq> [] \<or> op_name op = ''DEL'')"

definition plain_entry :: "op_codec \<Rightarrow> entry \<Rightarrow> bool" where
  "plain_entry cd e \<longleftrightarrow> (case parse_operation cd e of Inr op \<Rightarrow> plain_operation op | Inl _ \<Rightarrow> True)"

lemma plain_entry_effect:
  assumes "plain_entry cd e"
  shows "decides cd k e \<longleftrightarrow> entry_effect cd e k \<noteq> None"
    "decides cd k e \<Longrightarrow> decision cd k e = entry_effect cd e k"
  using assms
  by (auto simp: plain_entry_def plain_operation_def decides_def decision_def entry_effect_def op_effect_def
      split: sum.splits)

lemma find_cong_set: "(\<And>x. x \<in> set xs \<Longrightarrow> P x = Q x) \<Longrightarrow> find P xs = find Q xs"
  by (induction xs) auto

lemma base_update_doc_update:
  assumes "\<forall>e\<in>set es. plain_entry cd e"
  shows "map_of (base_update_index cd es m) = map_of (doc_update_index cd es m)"
proof
  fix k
  have same: "find (decides cd k) (rev es) = last_write cd es k"
    unfolding last_write_def using assms plain_entry_effect(1) by (intro find_cong_set) auto
  show "map_of (base_update_index cd es m) k = map_of (doc_update_index cd es m) k"
  proof (cases "last_write cd es k")
    case None
    then show ?thesis by (simp add: map_of_base_update_index same map_of_doc_update_index)
  next
    case (Some e)
    then have e: "e \<in> set es" "decides cd k e"
      using same by (auto simp: find_Some_iff set_conv_nth in_set_conv_nth rev_nth)
    then have "decision cd k e = entry_effect cd e k" "entry_effect cd e k \<noteq> None"
      using assms plain_entry_effect by blast+
    with Some show ?thesis
      by (auto simp: map_of_base_update_index same map_of_doc_update_index split: option.splits)
  qed
qed


text \<open>A small codec for the examples: the letter P or D, a one-letter key and, for P, the value.\<close>

definition demo_codec :: op_codec where
  "demo_codec =
     \<lparr> b64_encode = (\<lambda>bs. bs), b64_decode = Inr,
       op_to_allocvec = (\<lambda>op.
         (case op_key op of
            Some [k] \<Rightarrow> Inr ((if op_name op = ''PUT'' then CHR ''P'' else CHR ''D'') # k # op_value op)
          | _ \<Rightarrow> Inl ''key'')),
       op_from_bytes = (\<lambda>bs.
         (case bs of
            c # k # v \<Rightarrow>
              Inr (if c = CHR ''P'' then operation_new (Some [k]) ''PUT'' (Some v)
                   else operation_new (Some [k]) ''DEL'' None)
          | _ \<Rightarrow> Inl ''short'')) \<rparr>"

definition demo_entry :: "hash \<Rightarrow> bytes \<Rightarrow> entry" where
  "demo_entry h p = entry_empty\<lparr>hash := h, payload := p\<rparr>"


text \<open>
  Outside that class the scan depends on how the log was cut into updates: an operation that changes
  nothing, such as a put of an empty value, hides the older operations on its key in the same update
  and leaves their effect in place otherwise.  The replay of the document index does not.
\<close>

lemma base_index_batch_dependent:
  "map_of (base_update_index demo_codec [demo_entry 1 ''Pa1'', demo_entry 2 ''Pa'']
             (base_update_index demo_codec [demo_entry 1 ''Pa1''] [])) ''a'' = Some ''1''"
  "map_of (base_update_index demo_codec [demo_entry 1 ''Pa1'', demo_entry 2 ''Pa''] []) ''a'' = None"
  "map_of (doc_update_index demo_codec [demo_entry 1 ''Pa1'', demo_entry 2 ''Pa''] []) ''a'' = Some ''1''"
  by code_simp+

subsection \<open>The event index\<close>

lemma si_last_entries:
  "si_get_last_entries (EventIndex i) n = Some (event_last_entries n i)"
  by (simp add: si_get_last_entries_def event_get_last_entries_def event_last_entries_def Let_def)

lemma si_entries_range:
  "si_get_entries_range (EventIndex i) a b = Some es \<longleftrightarrow>
     a \<le> b \<and> a < length (entries_cache i) \<and> es = take (b - a) (drop a (entries_cache i))"
  by (auto simp: si_get_entries_range_def event_entries_range_def Let_def min_def not_less)

lemma si_get_event: "n < length (entries_cache i) \<Longrightarrow> n \<le> usize_max \<Longrightarrow>
    si_get_bytes (EventIndex i) (show_nat n) = Some (payload (entries_cache i ! n))"
  by (simp add: event_get_bytes_def)

end
