(* ===== verification/Access_Control.thy ===== *)
theory Access_Control
  imports Log_Entry Guardian_Error
begin

text \<open>
  The access controllers (\<^verbatim>\<open>src/access_control/\<close>): the manifest options, the in-memory simple
  controller, the Iroh controller with its single write list and the controller that keeps its
  permissions in a key-value store of the database.  Verification of an identity's signature is the
  parameter \<open>verify_identity\<close>.  A hash set is a list without repetitions; what
  order it is iterated in, which the language leaves open, is the order of the list.
\<close>

type_synonym access_map = "(string, string list) hash_map"

definition hash_or_insert :: "'k \<Rightarrow> 'v \<Rightarrow> ('k, 'v) hash_map \<Rightarrow> ('k, 'v) hash_map" where
  "hash_or_insert k v m = (if map_of m k = None then AList.update k v m else m)"

definition keys_of :: "access_map \<Rightarrow> string \<Rightarrow> string list" where
  "keys_of m k = (case map_of m k of Some ks \<Rightarrow> ks | None \<Rightarrow> [])"

subsection \<open>Manifest options\<close>

record controller_options =
  co_skip_manifest :: bool
  co_address :: hash
  co_type :: string
  co_name :: string
  co_access :: access_map

definition options_default :: controller_options where
  "options_default =
     \<lparr> co_skip_manifest = False, co_address = 0, co_type = [], co_name = [], co_access = [] \<rparr>"

definition options_new :: "hash \<Rightarrow> bool \<Rightarrow> string \<Rightarrow> controller_options" where
  "options_new a skip t = options_default\<lparr>co_address := a, co_skip_manifest := skip, co_type := t\<rparr>"

definition options_new_simple :: "string \<Rightarrow> access_map \<Rightarrow> controller_options" where
  "options_new_simple t acc = options_default\<lparr>co_skip_manifest := True, co_type := t, co_access := acc\<rparr>"

definition set_access :: "string \<Rightarrow> string list \<Rightarrow> controller_options \<Rightarrow> controller_options" where
  "set_access role allowed o1 = o1\<lparr>co_access := AList.update role allowed (co_access o1)\<rparr>"

definition get_access :: "controller_options \<Rightarrow> string \<Rightarrow> string list option" where
  "get_access o1 role = map_of (co_access o1) role"

definition read_only_replication :: "string list \<Rightarrow> controller_options" where
  "read_only_replication writers =
     options_new_simple ''simple''
       (AList.update ''read'' [''*''] (AList.update ''write'' writers []))"

record manifest =
  manifest_type :: string
  manifest_params :: controller_options

definition create_manifest_with_validation ::
  "string \<Rightarrow> controller_options \<Rightarrow> guardian_error + manifest" where
  "create_manifest_with_validation t params =
     (if t = [] then Inl (StoreError ''Controller type cannot be empty'')
      else if 255 < length t then Inl (StoreError ''Controller type too long (max 255 characters)'')
      else if t \<notin> set [''iroh'', ''GuardianDB'', ''simple''] then
        Inl (StoreError (''Unknown controller type: '' @ t))
      else Inr \<lparr> manifest_type = t, manifest_params = params \<rparr>)"

subsection \<open>Addresses and types\<close>

definition ensure_address :: "string \<Rightarrow> string" where
  "ensure_address a =
     (let a = trim a
      in if a = [] then ''_access''
         else if last (split_char CHR ''/'' a) = ''_access'' then a
         else if last a = CHR ''/'' then a @ ''_access''
         else a @ ''/'' @ ''_access'')"

definition contains_sub :: "string \<Rightarrow> string \<Rightarrow> bool" where
  "contains_sub s pat = (\<exists>n\<in>{0..length s}. take (length pat) (drop n s) = pat)"

definition infer_controller_type :: "string \<Rightarrow> controller_options \<Rightarrow> string" where
  "infer_controller_type a params =
     (if co_type params \<noteq> [] then co_type params
      else if contains_sub a ''/guardian/'' \<or> contains_sub a ''guardian_'' then ''guardian''
      else if contains_sub a ''/iroh/'' \<or> contains_sub a ''iroh_'' then ''iroh''
      else ''simple'')"

definition validate_address :: "string \<Rightarrow> guardian_error + unit" where
  "validate_address a =
     (if trim a = [] then Inl (StoreError ''Address cannot be empty'')
      else if contains_sub a ''..'' \<or> contains_sub a ''//'' then
        Inl (StoreError ''Address contains invalid path components'')
      else if 1000 < length a then Inl (StoreError ''Address is too long (max 1000 characters)'')
      else Inr ())"

definition list_available_types :: "string list" where
  "list_available_types = [''simple'', ''guardian'', ''iroh'']"

definition is_supported_type :: "string \<Rightarrow> bool" where
  "is_supported_type t \<longleftrightarrow> to_lowercase t \<in> set list_available_types"

subsection \<open>The simple controller\<close>

record simple_acl =
  allowed_keys :: access_map

definition simple_new :: "access_map option \<Rightarrow> simple_acl" where
  "simple_new initial =
     \<lparr> allowed_keys = hash_or_insert ''admin'' [] (hash_or_insert ''write'' [] (hash_or_insert ''read'' []
         (case initial of Some m \<Rightarrow> m | None \<Rightarrow> []))) \<rparr>"

definition simple_list_keys :: "simple_acl \<Rightarrow> string \<Rightarrow> string list" where
  "simple_list_keys a cap = keys_of (allowed_keys a) cap"

definition simple_list_capabilities :: "simple_acl \<Rightarrow> string list" where
  "simple_list_capabilities a = map fst (allowed_keys a)"

definition has_capability :: "simple_acl \<Rightarrow> string \<Rightarrow> string \<Rightarrow> bool" where
  "has_capability a cap k =
     (case map_of (allowed_keys a) cap of
        Some ks \<Rightarrow> ''*'' \<in> set ks \<or> k \<in> set ks
      | None \<Rightarrow> False)"

definition clear_capability :: "string \<Rightarrow> simple_acl \<Rightarrow> guardian_error + simple_acl" where
  "clear_capability cap a =
     (if cap = [] then Inl (StoreError ''Capability cannot be empty'')
      else case map_of (allowed_keys a) cap of
             Some _ \<Rightarrow> Inr (a\<lparr>allowed_keys := AList.update cap [] (allowed_keys a)\<rparr>)
           | None \<Rightarrow> Inr a)"

definition simple_stats :: "simple_acl \<Rightarrow> (string, nat) hash_map" where
  "simple_stats a = map (\<lambda>(cap, ks). (cap, length ks)) (allowed_keys a)"

definition is_capability_empty :: "simple_acl \<Rightarrow> string \<Rightarrow> bool" where
  "is_capability_empty a cap =
     (case map_of (allowed_keys a) cap of Some ks \<Rightarrow> ks = [] | None \<Rightarrow> True)"

definition total_permissions :: "simple_acl \<Rightarrow> nat" where
  "total_permissions a = sum_list (map (length \<circ> snd) (allowed_keys a))"

definition import_permissions :: "access_map \<Rightarrow> simple_acl \<Rightarrow> simple_acl" where
  "import_permissions m a = a\<lparr>allowed_keys := m\<rparr>"

definition push_key :: "string \<Rightarrow> string list \<Rightarrow> string list" where
  "push_key k ks = (if k \<in> set ks then ks else ks @ [k])"

definition grant_multiple :: "string \<Rightarrow> string list \<Rightarrow> simple_acl \<Rightarrow> guardian_error + simple_acl" where
  "grant_multiple cap new_keys a =
     (if cap = [] then Inl (StoreError ''Capability cannot be empty'')
      else Inr (a\<lparr>allowed_keys := AList.update cap
             (fold (\<lambda>k ks. if k \<noteq> [] then push_key k ks else ks) new_keys (keys_of (allowed_keys a) cap))
             (allowed_keys a)\<rparr>))"

definition revoke_multiple :: "string \<Rightarrow> string list \<Rightarrow> simple_acl \<Rightarrow> guardian_error + simple_acl" where
  "revoke_multiple cap old_keys a =
     (if cap = [] then Inl (StoreError ''Capability cannot be empty'')
      else case map_of (allowed_keys a) cap of
             None \<Rightarrow> Inr a
           | Some ks \<Rightarrow>
               (let ks' = fold (\<lambda>k ks. filter (\<lambda>x. x \<noteq> k) ks) old_keys ks
                in Inr (a\<lparr>allowed_keys :=
                     (if ks' = [] then AList.delete cap (allowed_keys a)
                      else AList.update cap ks' (allowed_keys a))\<rparr>)))"

definition clone_capability :: "string \<Rightarrow> string \<Rightarrow> simple_acl \<Rightarrow> guardian_error + simple_acl" where
  "clone_capability src tgt a =
     (if src = [] \<or> tgt = [] then Inl (StoreError ''Source and target capabilities cannot be empty'')
      else case map_of (allowed_keys a) src of
             Some ks \<Rightarrow> Inr (a\<lparr>allowed_keys := AList.update tgt ks (allowed_keys a)\<rparr>)
           | None \<Rightarrow> Inl (StoreError (''Source capability '' @ [CHR 0x27] @ src @ [CHR 0x27] @ '' not found'')))"

definition simple_from_options :: "controller_options \<Rightarrow> simple_acl" where
  "simple_from_options params = \<lparr> allowed_keys = co_access params \<rparr>"

definition simple_authorized_by_role :: "simple_acl \<Rightarrow> string \<Rightarrow> guardian_error + string list" where
  "simple_authorized_by_role a role =
     (if role = [] then Inl (StoreError ''Role cannot be empty'') else Inr (keys_of (allowed_keys a) role))"

definition simple_grant :: "string \<Rightarrow> string \<Rightarrow> simple_acl \<Rightarrow> guardian_error + simple_acl" where
  "simple_grant cap k a =
     (if cap = [] then Inl (StoreError ''Capability cannot be empty'')
      else if k = [] then Inl (StoreError ''Key ID cannot be empty'')
      else Inr (a\<lparr>allowed_keys := AList.update cap (push_key k (keys_of (allowed_keys a) cap)) (allowed_keys a)\<rparr>))"

definition simple_revoke :: "string \<Rightarrow> string \<Rightarrow> simple_acl \<Rightarrow> guardian_error + simple_acl" where
  "simple_revoke cap k a =
     (if cap = [] then Inl (StoreError ''Capability cannot be empty'')
      else if k = [] then Inl (StoreError ''Key ID cannot be empty'')
      else case map_of (allowed_keys a) cap of
             None \<Rightarrow> Inr a
           | Some ks \<Rightarrow>
               (let ks' = filter (\<lambda>x. x \<noteq> k) ks
                in if length ks' < length ks
                   then Inr (a\<lparr>allowed_keys :=
                          (if ks' = [] then AList.delete cap (allowed_keys a)
                           else AList.update cap ks' (allowed_keys a))\<rparr>)
                   else Inr a))"

definition simple_load :: "string \<Rightarrow> simple_acl \<Rightarrow> guardian_error + simple_acl" where
  "simple_load address a = (if address = [] then Inl (StoreError ''Address cannot be empty'') else Inr a)"

definition simple_save :: "simple_acl \<Rightarrow> controller_options" where
  "simple_save a =
     fold (\<lambda>(cap, ks). set_access cap ks) (allowed_keys a) (options_default\<lparr>co_type := ''simple''\<rparr>)"

definition simple_can_append ::
  "(identity \<Rightarrow> guardian_error + unit) \<Rightarrow> simple_acl \<Rightarrow> entry \<Rightarrow> guardian_error + unit" where
  "simple_can_append verify_identity a e =
     (let ident = get_identity e;
          entry_id = identity_id ident;
          write_keys = keys_of (allowed_keys a) ''write'';
          admin_keys = keys_of (allowed_keys a) ''admin'';
          check = (\<lambda>msg. map_err (\<lambda>err. StoreError (msg @ display_error err)) (verify_identity ident))
      in if ''*'' \<in> set write_keys then check ''Invalid identity signature: ''
         else if entry_id \<in> set write_keys then
           check (''Invalid identity signature for authorized key '' @ entry_id @ '': '')
         else if ''*'' \<in> set admin_keys \<or> entry_id \<in> set admin_keys then
           check (''Invalid identity signature for admin key '' @ entry_id @ '': '')
         else Inl (StoreError (''Access denied: identity '' @ entry_id @ '' not authorized for write operations'')))"

subsection \<open>The Iroh controller\<close>

text \<open>
  The type has two sets of methods: its own, and those of the trait \<^verbatim>\<open>AccessController\<close>, through
  which every store reaches a controller.
\<close>

record iroh_acl =
  write_access :: "string list"

definition iroh_new :: "string \<Rightarrow> controller_options \<Rightarrow> iroh_acl" where
  "iroh_new ident params =
     (let params' = (if get_access params ''write'' = None then set_access ''write'' [ident] params else params)
      in \<lparr> write_access = (case get_access params' ''write'' of Some ks \<Rightarrow> ks | None \<Rightarrow> []) \<rparr>)"

definition iroh_can_append_inherent ::
  "(identity \<Rightarrow> guardian_error + unit) \<Rightarrow> iroh_acl \<Rightarrow> entry \<Rightarrow> guardian_error + unit" where
  "iroh_can_append_inherent verify_identity a e =
     (let ident = get_identity e
      in if list_ex (\<lambda>k. k = identity_id ident \<or> k = ''*'') (write_access a) then verify_identity ident
         else Inl (StoreError ''Key does not have write permission''))"

definition iroh_authorized_inherent :: "iroh_acl \<Rightarrow> string \<Rightarrow> string list" where
  "iroh_authorized_inherent a role = (if role = ''admin'' \<or> role = ''write'' then write_access a else [])"

definition iroh_can_append ::
  "(identity \<Rightarrow> guardian_error + unit) \<Rightarrow> iroh_acl \<Rightarrow> entry \<Rightarrow> guardian_error + unit" where
  "iroh_can_append verify_identity a e =
     (let entry_id = identity_id (get_identity e)
      in if ''*'' \<in> set (write_access a) \<or> entry_id \<in> set (write_access a) then Inr ()
         else Inl (StoreError (''Access denied: identity '' @ entry_id @ '' not authorized for write operations'')))"

definition iroh_authorized_by_role :: "iroh_acl \<Rightarrow> string \<Rightarrow> guardian_error + string list" where
  "iroh_authorized_by_role a role =
     Inr (if role = ''write'' \<or> role = ''read'' \<or> role = ''admin'' then write_access a else [])"

definition iroh_only_write :: "string \<Rightarrow> guardian_error" where
  "iroh_only_write cap =
     StoreError (''IrohAccessController only supports '' @ [CHR 0x27] @ ''write'' @ [CHR 0x27] @
       '' capability, got '' @ [CHR 0x27] @ cap @ [CHR 0x27])"

definition iroh_grant :: "string \<Rightarrow> string \<Rightarrow> iroh_acl \<Rightarrow> guardian_error + iroh_acl" where
  "iroh_grant cap k a =
     (if cap \<noteq> ''write'' then Inl (iroh_only_write cap)
      else Inr (a\<lparr>write_access := push_key k (write_access a)\<rparr>))"

definition iroh_revoke :: "string \<Rightarrow> string \<Rightarrow> iroh_acl \<Rightarrow> guardian_error + iroh_acl" where
  "iroh_revoke cap k a =
     (if cap \<noteq> ''write'' then Inl (iroh_only_write cap)
      else Inr (a\<lparr>write_access := filter (\<lambda>x. x \<noteq> k) (write_access a)\<rparr>))"

subsection \<open>The controller over a key-value store\<close>

text \<open>
  The permissions are the values of a key-value store of the database, one serialized list per role.
  Writing to the store may fail, which \<open>kv_put_error\<close> and \<open>kv_delete_error\<close> decide; the
  postcard codec of a list of strings is the pair \<open>keys_to_allocvec\<close>, \<open>keys_from_bytes\<close>.
\<close>

record guardian_acl_env =
  keys_to_allocvec :: "string list \<Rightarrow> string + bytes"
  keys_from_bytes :: "bytes \<Rightarrow> string + string list"
  kv_put_error :: "string \<Rightarrow> bytes \<Rightarrow> guardian_error option"
  kv_delete_error :: "string \<Rightarrow> guardian_error option"

record guardian_acl =
  kv_store :: "(string, bytes) hash_map option"
  kv_address :: string
  updates :: "(string \<times> string) list"

fun decode_roles ::
  "guardian_acl_env \<Rightarrow> (string, bytes) hash_map \<Rightarrow> access_map \<Rightarrow> guardian_error + access_map" where
  "decode_roles env [] m = Inr m"
| "decode_roles env ((role, bs) # rest) m =
     and_then (deserialize (keys_from_bytes env) bs)
       (\<lambda>ks. decode_roles env rest (AList.update role (fold push_key ks (keys_of m role)) m))"

definition get_authorizations :: "guardian_acl_env \<Rightarrow> guardian_acl \<Rightarrow> guardian_error + access_map" where
  "get_authorizations env a =
     (case kv_store a of
        None \<Rightarrow> Inr []
      | Some m \<Rightarrow>
          and_then (decode_roles env m []) (\<lambda>auth.
            Inr (case map_of auth ''write'' of
                   None \<Rightarrow> auth
                 | Some write_keys \<Rightarrow>
                     AList.update ''admin'' (fold push_key write_keys (keys_of auth ''admin'')) auth)))"

definition guardian_authorized_by_role ::
  "guardian_acl_env \<Rightarrow> guardian_acl \<Rightarrow> string \<Rightarrow> guardian_error + string list" where
  "guardian_authorized_by_role env a role =
     and_then (get_authorizations env a) (\<lambda>auth. Inr (keys_of auth role))"

definition guardian_can_append ::
  "guardian_acl_env \<Rightarrow> (identity \<Rightarrow> guardian_error + unit) \<Rightarrow> guardian_acl \<Rightarrow> entry \<Rightarrow> guardian_error + unit" where
  "guardian_can_append env verify_identity a e =
     and_then (guardian_authorized_by_role env a ''write'') (\<lambda>write_keys.
     and_then (guardian_authorized_by_role env a ''admin'') (\<lambda>admin_keys.
       let ident = get_identity e;
           access = set write_keys \<union> set admin_keys
       in if identity_id ident \<in> access \<or> ''*'' \<in> access then verify_identity ident
          else Inl (StoreError ''Not authorized'')))"

definition on_update :: "string \<Rightarrow> string \<Rightarrow> string \<Rightarrow> guardian_acl \<Rightarrow> guardian_acl" where
  "on_update action cap k a =
     a\<lparr>updates := updates a @ [(if kv_store a = None then ''unknown'' else kv_address a,
                                 action @ '':'' @ cap @ '':'' @ k)]\<rparr>"

definition guardian_put ::
  "guardian_acl_env \<Rightarrow> string \<Rightarrow> string \<Rightarrow> bytes \<Rightarrow> guardian_acl \<Rightarrow> guardian_error + guardian_acl" where
  "guardian_put env msg role bs a =
     (case kv_put_error env role bs of
        Some err \<Rightarrow> Inl (StoreError (msg @ display_error err))
      | None \<Rightarrow> Inr (a\<lparr>kv_store := map_option (AList.update role bs) (kv_store a)\<rparr>))"

definition guardian_grant ::
  "guardian_acl_env \<Rightarrow> string \<Rightarrow> string \<Rightarrow> guardian_acl \<Rightarrow> guardian_error + guardian_acl" where
  "guardian_grant env cap k a =
     (if kv_store a = None then Inl (StoreError ''kv_store not initialized'')
      else and_then (guardian_authorized_by_role env a cap) (\<lambda>ks.
           and_then (serialize (keys_to_allocvec env) (push_key k (remdups ks))) (\<lambda>bs.
           and_then (guardian_put env ''Error saving to store: '' cap bs a) (\<lambda>a'.
             Inr (on_update ''grant'' cap k a')))))"

definition guardian_revoke ::
  "guardian_acl_env \<Rightarrow> string \<Rightarrow> string \<Rightarrow> guardian_acl \<Rightarrow> guardian_error + guardian_acl" where
  "guardian_revoke env cap k a =
     (if kv_store a = None then Inl (StoreError ''kv_store not initialized'')
      else and_then (guardian_authorized_by_role env a cap) (\<lambda>ks.
           let ks' = filter (\<lambda>x. x \<noteq> k) ks
           in and_then
                (if ks' \<noteq> [] then
                   and_then (serialize (keys_to_allocvec env) ks')
                     (\<lambda>bs. guardian_put env ''Error persisting permissions: '' cap bs a)
                 else case kv_delete_error env cap of
                        Some err \<Rightarrow> Inl (StoreError (''Error removing permissions: '' @ display_error err))
                      | None \<Rightarrow> Inr (a\<lparr>kv_store := map_option (AList.delete cap) (kv_store a)\<rparr>))
                (\<lambda>a'. Inr (on_update ''revoke'' cap k a'))))"

definition guardian_close :: "guardian_acl \<Rightarrow> guardian_acl" where
  "guardian_close a = a\<lparr>kv_store := None\<rparr>"

subsection \<open>Who may append\<close>

lemma set_push_key [simp]: "set (push_key k ks) = insert k (set ks)"
  by (auto simp: push_key_def)

lemma set_fold_push_key [simp]: "set (fold push_key ks acc) = set ks \<union> set acc"
  by (induction ks arbitrary: acc) auto

lemma keys_of_update [simp]:
  "keys_of (AList.update r ks m) s = (if s = r then ks else keys_of m s)"
  by (simp add: keys_of_def update_conv)

lemma keys_of_delete [simp]: "keys_of (AList.delete r m) s = (if s = r then [] else keys_of m s)"
  by (simp add: keys_of_def delete_conv)

text \<open>
  The contract the stores rely on: only writers can append, a grant adds the granted key and a
  revocation removes at most the revoked one.
\<close>

datatype access_change = Grant string | Revoke string

locale access_contract =
  fixes writers :: "'c \<Rightarrow> string set"
    and grant :: "string \<Rightarrow> 'c \<Rightarrow> guardian_error + 'c"
    and revoke :: "string \<Rightarrow> 'c \<Rightarrow> guardian_error + 'c"
    and can_append :: "'c \<Rightarrow> entry \<Rightarrow> guardian_error + unit"
  assumes append_writers:
      "can_append a e = Inr () \<Longrightarrow> ''*'' \<in> writers a \<or> identity_id (get_identity e) \<in> writers a"
    and grant_writers: "grant k a = Inr a' \<Longrightarrow> writers a' = insert k (writers a)"
    and revoke_writers: "revoke k a = Inr a' \<Longrightarrow> writers a' \<subseteq> writers a"
begin

fun change :: "access_change \<Rightarrow> 'c \<Rightarrow> guardian_error + 'c" where
  "change (Grant k) a = grant k a"
| "change (Revoke k) a = revoke k a"

fun run :: "access_change list \<Rightarrow> 'c \<Rightarrow> guardian_error + 'c" where
  "run [] a = Inr a"
| "run (c # cs) a = and_then (change c a) (run cs)"

lemma run_writers: "run cs a = Inr a' \<Longrightarrow> writers a' \<subseteq> writers a \<union> {k. Grant k \<in> set cs}"
proof (induction cs arbitrary: a)
  case (Cons c cs)
  then obtain b where b: "change c a = Inr b" "run cs b = Inr a'" by (auto simp: and_then_Inr)
  have "writers b \<subseteq> writers a \<union> {k. Grant k = c}"
    using b(1) grant_writers revoke_writers by (cases c) auto
  with Cons.IH [OF b(2)] show ?case by auto
qed simp

lemma no_append_without_grant:
  assumes "run cs a = Inr a'" "can_append a' e = Inr ()" "''*'' \<notin> writers a" "Grant ''*'' \<notin> set cs"
  shows "identity_id (get_identity e) \<in> writers a \<or> Grant (identity_id (get_identity e)) \<in> set cs"
  using append_writers [OF assms(2)] run_writers [OF assms(1)] assms(3,4) by blast

end

definition simple_writers :: "simple_acl \<Rightarrow> string set" where
  "simple_writers a = set (keys_of (allowed_keys a) ''write'') \<union> set (keys_of (allowed_keys a) ''admin'')"

lemma simple_can_append_Inr:
  "simple_can_append v a e = Inr () \<longleftrightarrow>
     v (get_identity e) = Inr () \<and> (''*'' \<in> simple_writers a \<or> identity_id (get_identity e) \<in> simple_writers a)"
  by (auto simp: simple_can_append_def simple_writers_def Let_def)

lemma simple_grant_write: "simple_grant ''write'' k a = Inr a' \<Longrightarrow> simple_writers a' = insert k (simple_writers a)"
  by (auto simp: simple_grant_def simple_writers_def split: if_splits)

lemma simple_revoke_keys:
  assumes "simple_revoke cap k a = Inr a'"
  shows "keys_of (allowed_keys a') r = (if r = cap then filter (\<lambda>x. x \<noteq> k) (keys_of (allowed_keys a) r) else keys_of (allowed_keys a) r)"
proof (cases "map_of (allowed_keys a) cap")
  case None
  then show ?thesis using assms by (auto simp: simple_revoke_def keys_of_def split: if_splits)
next
  case (Some ks)
  have same: "\<not> length (filter (\<lambda>x. x \<noteq> k) ks) < length ks \<Longrightarrow> filter (\<lambda>x. x \<noteq> k) ks = ks"
    using length_filter_less [of _ ks "\<lambda>x. x \<noteq> k"] by (metis (mono_tags, lifting) filter_True)
  have "keys_of (allowed_keys a) cap = ks" using Some by (simp add: keys_of_def)
  then show ?thesis
    using assms Some same by (auto simp: simple_revoke_def Let_def split: if_splits)
qed

interpretation simple: access_contract simple_writers "simple_grant ''write''" "simple_revoke ''write''"
  "simple_can_append v" for v
proof unfold_locales
  fix a a' e k
  show "simple_can_append v a e = Inr () \<Longrightarrow> ''*'' \<in> simple_writers a \<or> identity_id (get_identity e) \<in> simple_writers a"
    by (simp add: simple_can_append_Inr)
  show "simple_grant ''write'' k a = Inr a' \<Longrightarrow> simple_writers a' = insert k (simple_writers a)"
    by (rule simple_grant_write)
  show "simple_revoke ''write'' k a = Inr a' \<Longrightarrow> simple_writers a' \<subseteq> simple_writers a"
    by (auto simp: simple_writers_def simple_revoke_keys)
qed

lemma iroh_can_append_Inr:
  "iroh_can_append v a e = Inr () \<longleftrightarrow>
     ''*'' \<in> set (write_access a) \<or> identity_id (get_identity e) \<in> set (write_access a)"
  by (simp add: iroh_can_append_def Let_def)

interpretation iroh: access_contract "\<lambda>a. set (write_access a)" "iroh_grant ''write''" "iroh_revoke ''write''"
  "iroh_can_append v" for v
  by unfold_locales (auto simp: iroh_can_append_Inr iroh_grant_def iroh_revoke_def)

interpretation iroh_own: access_contract "\<lambda>a. set (write_access a)" "iroh_grant ''write''" "iroh_revoke ''write''"
  "iroh_can_append_inherent v" for v
  by unfold_locales
    (auto simp: iroh_can_append_inherent_def list_ex_iff iroh_grant_def iroh_revoke_def Let_def split: if_splits)




subsection \<open>Permissions kept in a store\<close>

definition role_keys :: "guardian_acl_env \<Rightarrow> (string, bytes) hash_map \<Rightarrow> string \<Rightarrow> string set" where
  "role_keys env m role =
     (case map_of m role of
        None \<Rightarrow> {}
      | Some bs \<Rightarrow> (case deserialize (keys_from_bytes env) bs of Inr ks \<Rightarrow> set ks | Inl _ \<Rightarrow> {}))"

definition decodes :: "guardian_acl_env \<Rightarrow> (string, bytes) hash_map \<Rightarrow> bool" where
  "decodes env m \<longleftrightarrow> (\<forall>(r, bs)\<in>set m. \<exists>ks. deserialize (keys_from_bytes env) bs = Inr ks)"

lemma decode_roles_decodes: "decode_roles env m acc = Inr auth \<Longrightarrow> decodes env m"
proof (induction env m acc rule: decode_roles.induct)
  case (2 env role bs rest m)
  then obtain ks where "deserialize (keys_from_bytes env) bs = Inr ks"
    "decode_roles env rest (AList.update role (fold push_key ks (keys_of m role)) m) = Inr auth"
    by (auto simp: and_then_Inr)
  with 2(1) show ?case by (simp add: decodes_def)
qed (simp add: decodes_def)

lemma decode_roles_total: "decodes env m \<Longrightarrow> \<exists>auth. decode_roles env m acc = Inr auth"
  by (induction env m acc rule: decode_roles.induct) (auto simp: decodes_def)

lemma decode_roles_keys:
  assumes "decode_roles env m acc = Inr auth" "hash_wf m"
  shows "set (keys_of auth r) = role_keys env m r \<union> set (keys_of acc r)"
  using assms
proof (induction env m acc rule: decode_roles.induct)
  case (1 env m)
  then show ?case by (simp add: role_keys_def)
next
  case (2 env role bs rest m)
  then obtain ks where ks: "deserialize (keys_from_bytes env) bs = Inr ks"
    "decode_roles env rest (AList.update role (fold push_key ks (keys_of m role)) m) = Inr auth"
    by (auto simp: and_then_Inr)
  have rest: "hash_wf rest" "map_of rest role = None"
    using 2(3) by (auto simp: hash_wf_def map_of_eq_None_iff)
  have "set (keys_of auth r) = role_keys env rest r \<union>
      set (keys_of (AList.update role (fold push_key ks (keys_of m role)) m) r)"
    by (rule 2(1) [OF ks(2) rest(1)])
  moreover have "r = role \<Longrightarrow> role_keys env rest r = {}" using rest(2) by (simp add: role_keys_def)
  ultimately show ?case using ks(1) by (auto simp: role_keys_def)
qed

text \<open>Every writer counts as an administrator.\<close>

lemma guardian_authorized:
  assumes "kv_store a = Some m" "hash_wf m" "guardian_authorized_by_role env a role = Inr ks"
  shows "set ks = role_keys env m role \<union> (if role = ''admin'' then role_keys env m ''write'' else {})"
    "decodes env m"
proof -
  from assms(1,3) obtain auth where auth: "decode_roles env m [] = Inr auth"
    by (auto simp: guardian_authorized_by_role_def get_authorizations_def and_then_Inr)
  have keys: "set (keys_of auth r) = role_keys env m r" for r
    using decode_roles_keys [OF auth assms(2)] by (simp add: keys_of_def)
  have "map_of auth ''write'' = None \<Longrightarrow> role_keys env m ''write'' = {}"
    using keys [of "''write''"] by (simp add: keys_of_def)
  moreover have "map_of auth ''write'' = Some ws \<Longrightarrow> set ws = role_keys env m ''write''" for ws
    using keys [of "''write''"] by (simp add: keys_of_def)
  ultimately show "set ks = role_keys env m role \<union> (if role = ''admin'' then role_keys env m ''write'' else {})"
    using assms(1,3) auth keys
    by (auto simp: guardian_authorized_by_role_def get_authorizations_def split: option.splits if_splits)
  show "decodes env m" by (rule decode_roles_decodes [OF auth])
qed

lemma guardian_authorized_total:
  "kv_store a = Some m \<Longrightarrow> decodes env m \<Longrightarrow> \<exists>ks. guardian_authorized_by_role env a role = Inr ks"
  using decode_roles_total [of env m "[]"]
  by (auto simp: guardian_authorized_by_role_def get_authorizations_def split: option.splits)

lemma guardian_can_append_Inr:
  assumes "kv_store a = Some m" "hash_wf m" "decodes env m"
  shows "guardian_can_append env v a e = Inr () \<longleftrightarrow>
    v (get_identity e) = Inr () \<and>
    (let w = role_keys env m ''write'' \<union> role_keys env m ''admin''
     in ''*'' \<in> w \<or> identity_id (get_identity e) \<in> w)"
proof -
  obtain ws as where ks: "guardian_authorized_by_role env a ''write'' = Inr ws"
      "guardian_authorized_by_role env a ''admin'' = Inr as"
    using guardian_authorized_total [OF assms(1,3)] by blast
  have "set ws \<union> set as = role_keys env m ''write'' \<union> role_keys env m ''admin''"
    using guardian_authorized(1) [OF assms(1,2) ks(1)] guardian_authorized(1) [OF assms(1,2) ks(2)] by auto
  with ks show ?thesis by (auto simp: guardian_can_append_def Let_def split: if_splits)
qed

lemma set_update_subset: "set (AList.update k v m) \<subseteq> insert (k, v) (set m)"
  by (induction m) auto

lemma decodes_update:
  assumes "decodes env m" "deserialize (keys_from_bytes env) bs = Inr ks"
  shows "decodes env (AList.update r bs m)"
  using assms set_update_subset [of r bs m] unfolding decodes_def by blast

lemma decodes_delete: "decodes env m \<Longrightarrow> decodes env (AList.delete r m)"
  by (auto simp: decodes_def AList.delete_eq)

lemma role_keys_update:
  "deserialize (keys_from_bytes env) bs = Inr ks \<Longrightarrow>
     role_keys env (AList.update r bs m) s = (if s = r then set ks else role_keys env m s)"
  by (simp add: role_keys_def update_conv)

lemma role_keys_delete: "role_keys env (AList.delete r m) s = (if s = r then {} else role_keys env m s)"
  by (simp add: role_keys_def delete_conv)

abbreviation keys_codec :: "guardian_acl_env \<Rightarrow> bool" where
  "keys_codec env \<equiv> postcard_codec (keys_to_allocvec env) (keys_from_bytes env)"

lemma guardian_grantD:
  assumes "keys_codec env" "kv_store a = Some m" "hash_wf m" "guardian_grant env cap k a = Inr b"
  obtains m' where "kv_store b = Some m'" "hash_wf m'" "decodes env m'"
    "role_keys env m' cap = insert k (role_keys env m cap \<union> (if cap = ''admin'' then role_keys env m ''write'' else {}))"
    "\<And>r. r \<noteq> cap \<Longrightarrow> role_keys env m' r = role_keys env m r"
proof -
  from assms(2,4) obtain ks bs where ks: "guardian_authorized_by_role env a cap = Inr ks"
      "serialize (keys_to_allocvec env) (push_key k (remdups ks)) = Inr bs"
      "kv_store b = Some (AList.update cap bs m)"
    by (auto simp: guardian_grant_def guardian_put_def on_update_def and_then_Inr split: option.splits)
  have de: "deserialize (keys_from_bytes env) bs = Inr (push_key k (remdups ks))"
    by (rule deserialize_serialize [OF assms(1) ks(2)])
  note auth = guardian_authorized [OF assms(2,3) ks(1)]
  show ?thesis
    by (rule that [OF ks(3)])
      (use assms(3) auth de in \<open>simp_all add: decodes_update [OF auth(2) de] role_keys_update [OF de]\<close>)
qed

lemma guardian_revokeD:
  assumes "keys_codec env" "kv_store a = Some m" "hash_wf m" "guardian_revoke env cap k a = Inr b"
  obtains m' where "kv_store b = Some m'" "hash_wf m'" "decodes env m'"
    "role_keys env m' cap = (role_keys env m cap \<union> (if cap = ''admin'' then role_keys env m ''write'' else {})) - {k}"
    "\<And>r. r \<noteq> cap \<Longrightarrow> role_keys env m' r = role_keys env m r"
proof -
  from assms(2,4) obtain ks where ks: "guardian_authorized_by_role env a cap = Inr ks"
    by (auto simp: guardian_revoke_def and_then_Inr)
  note auth = guardian_authorized [OF assms(2,3) ks]
  show ?thesis
  proof (cases "filter (\<lambda>x. x \<noteq> k) ks = []")
    case True
    then have st: "kv_store b = Some (AList.delete cap m)"
      using assms(2,4) ks by (auto simp: guardian_revoke_def on_update_def and_then_Inr Let_def split: option.splits)
    have "set ks \<subseteq> {k}" using True by (auto simp: filter_empty_conv)
    then show ?thesis
      by (intro that [OF st]) (use assms(3) auth in \<open>auto simp: decodes_delete role_keys_delete\<close>)
  next
    case False
    then obtain bs where bs: "serialize (keys_to_allocvec env) (filter (\<lambda>x. x \<noteq> k) ks) = Inr bs"
        and st: "kv_store b = Some (AList.update cap bs m)"
      using assms(2,4) ks
      by (auto simp: guardian_revoke_def guardian_put_def on_update_def and_then_Inr Let_def split: option.splits)
    have de: "deserialize (keys_from_bytes env) bs = Inr (filter (\<lambda>x. x \<noteq> k) ks)"
      by (rule deserialize_serialize [OF assms(1) bs])
    have eq: "set (filter (\<lambda>x. x \<noteq> k) ks) = set ks - {k}" by auto
    show ?thesis
      by (rule that [OF st])
        (use assms(3) auth de in \<open>simp_all add: decodes_update [OF auth(2) de] role_keys_update [OF de] eq del: set_filter\<close>)
  qed
qed

text \<open>
  C31: a writer stays able to append after its write permission is revoked, if any administrator was
  granted in between: granting reads the administrators together with the writers and stores the
  union as the new list of administrators.
\<close>

theorem revoked_writer_keeps_access:
  assumes "keys_codec env" "kv_store a = Some m" "hash_wf m"
    "guardian_authorized_by_role env a ''write'' = Inr ws" "k \<in> set ws"
    "guardian_grant env ''admin'' x a = Inr b" "guardian_revoke env ''write'' k b = Inr c"
    "identity_id (get_identity e) = k" "v (get_identity e) = Inr ()"
  shows "guardian_can_append env v c e = Inr ()"
proof -
  have k: "k \<in> role_keys env m ''write''"
    using guardian_authorized(1) [OF assms(2-4)] assms(5) by simp
  obtain m1 where m1: "kv_store b = Some m1" "hash_wf m1" "k \<in> role_keys env m1 ''admin''"
    by (rule guardian_grantD [OF assms(1-3,6)]) (use k in auto)
  obtain m2 where m2: "kv_store c = Some m2" "hash_wf m2" "decodes env m2" "k \<in> role_keys env m2 ''admin''"
    by (rule guardian_revokeD [OF assms(1) m1(1,2) assms(7)]) (use m1(3) in auto)
  show ?thesis
    using guardian_can_append_Inr [OF m2(1-3)] m2(4) assms(8,9) by (simp add: Let_def)
qed

text \<open>A codec of lists of strings, for the examples.\<close>

definition demo_keys_encode :: "string list \<Rightarrow> bytes" where
  "demo_keys_encode ks = CHR ''k'' # concat (map (\<lambda>s. concat (map (\<lambda>c. [CHR ''c'', c]) s) @ [CHR ''e'']) ks)"

fun demo_keys_scan :: "bytes \<Rightarrow> string \<Rightarrow> string list" where
  "demo_keys_scan [] cur = []"
| "demo_keys_scan [c] cur = [cur]"
| "demo_keys_scan (c # d # r) cur =
     (if c = CHR ''c'' then demo_keys_scan r (cur @ [d]) else cur # demo_keys_scan (d # r) [])"

lemma demo_keys_scan_end: "demo_keys_scan (CHR ''e'' # r) cur = cur # demo_keys_scan r []"
  by (cases r) simp_all

lemma demo_keys_scan_word:
  "demo_keys_scan (concat (map (\<lambda>c. [CHR ''c'', c]) s) @ CHR ''e'' # r) cur = (cur @ s) # demo_keys_scan r []"
  by (induction s arbitrary: cur) (simp_all add: demo_keys_scan_end)

lemma demo_keys_scan_encode:
  "demo_keys_scan (concat (map (\<lambda>s. concat (map (\<lambda>c. [CHR ''c'', c]) s) @ [CHR ''e'']) ks)) [] = ks"
  by (induction ks) (simp_all add: demo_keys_scan_word)

definition demo_acl_env :: guardian_acl_env where
  "demo_acl_env =
     \<lparr> keys_to_allocvec = (\<lambda>ks. Inr (demo_keys_encode ks)),
       keys_from_bytes = (\<lambda>bs. Inr (demo_keys_scan (tl bs) [])),
       kv_put_error = (\<lambda>_ _. None), kv_delete_error = (\<lambda>_. None) \<rparr>"

lemma demo_keys_codec: "keys_codec demo_acl_env"
  by (simp add: postcard_codec_def demo_acl_env_def demo_keys_encode_def demo_keys_scan_encode)

definition demo_acl :: guardian_acl where
  "demo_acl = \<lparr> kv_store = Some [(''write'', demo_keys_encode [''unknown''])], kv_address = ''/db'', updates = [] \<rparr>"

theorem revoked_writer_keeps_access_witness:
  "\<exists>b c. guardian_grant demo_acl_env ''admin'' ''eve'' demo_acl = Inr b \<and>
         guardian_revoke demo_acl_env ''write'' ''unknown'' b = Inr c \<and>
         guardian_can_append demo_acl_env (\<lambda>_. Inr ()) c entry_empty = Inr ()"
proof -
  have "\<not> isl (and_then (guardian_grant demo_acl_env ''admin'' ''eve'' demo_acl)
              (guardian_revoke demo_acl_env ''write'' ''unknown''))"
    by code_simp
  then obtain c where "and_then (guardian_grant demo_acl_env ''admin'' ''eve'' demo_acl)
              (guardian_revoke demo_acl_env ''write'' ''unknown'') = Inr c"
    by (metis sum.collapse(2))
  then obtain b where bc: "guardian_grant demo_acl_env ''admin'' ''eve'' demo_acl = Inr b"
      "guardian_revoke demo_acl_env ''write'' ''unknown'' b = Inr c" by (auto simp: and_then_Inr)
  have st: "kv_store demo_acl = Some [(''write'', demo_keys_encode [''unknown''])]"
    "guardian_authorized_by_role demo_acl_env demo_acl ''write'' = Inr [''unknown'']"
    by code_simp+
  have "identity_id (get_identity entry_empty) = ''unknown''" by code_simp
  from revoked_writer_keeps_access [OF demo_keys_codec st(1) _ st(2) _ bc this, of "\<lambda>_. Inr ()"] bc
  show ?thesis by (auto simp: hash_wf_def)
qed

subsection \<open>Saving the simple controller\<close>

lemma simple_save_access:
  "co_access (fold (\<lambda>(cap, ks). set_access cap ks) xs o1) =
     fold (\<lambda>e. AList.update (fst e) (snd e)) xs (co_access o1)"
  by (induction xs arbitrary: o1) (auto simp: set_access_def split_def)

lemma simple_save_roundtrip:
  assumes "hash_wf (allowed_keys a)"
  shows "map_of (allowed_keys (simple_from_options (simple_save a))) = map_of (allowed_keys a)"
proof -
  let ?xs = "allowed_keys a"
  have inj: "inj_on fst (set ?xs)" and dist: "distinct (map fst ?xs)"
    using assms by (simp_all add: hash_wf_def distinct_map)
  have "map_of (fold (\<lambda>e. AList.update (fst e) (snd e)) ?xs []) k = map_of ?xs k" for k
  proof (cases "map_of ?xs k")
    case None
    then have "k \<notin> fst ` set ?xs" by (simp add: map_of_eq_None_iff)
    from hm.get_insert_all_other [OF hash_wf_empty this, of snd] None show ?thesis by simp
  next
    case (Some v)
    then have "(k, v) \<in> set ?xs" by (rule map_of_SomeD)
    from hm.get_insert_all [OF hash_wf_empty inj this, of snd] Some show ?thesis by simp
  qed
  then show ?thesis by (simp add: simple_from_options_def simple_save_def simple_save_access options_default_def fun_eq_iff)
qed

end
