(* ===== verification/Base_Store.thy ===== *)
theory Base_Store
  imports Store_Index Access_Control Oplog_Merge
begin

text \<open>
  The store that every log-backed database is built on (\<^verbatim>\<open>src/stores/base_store/mod.rs\<close>): the
  operation log with its index, the write path, the paths that bring in entries of other replicas,
  persistence in the cache, and the synchronization observer (\<^verbatim>\<open>src/stores/sync_observer.rs\<close>).

  The state is a record threaded through the handlers.  Events go to the list \<open>bs_events\<close>
  (those of the store) and to the observer's list, oldest first; whether anybody listens does not
  change the store.  Locks, background tasks and the network are not modelled: a handler runs
  alone.  The environment \<open>base_env\<close> holds what is not part of the sources: the blob client, the
  codecs, and the failures of the cache.
\<close>

subsection \<open>The synchronization observer\<close>

datatype sync_state = Idle | Loading | Replicating | Completed | Failed

record sync_progress =
  sp_address :: string
  sp_processed :: nat
  sp_total :: nat
  sp_state :: sync_state

definition progress_new :: "string \<Rightarrow> sync_progress" where
  "progress_new addr = \<lparr> sp_address = addr, sp_processed = 0, sp_total = 0, sp_state = Idle \<rparr>"

definition is_complete :: "sync_progress \<Rightarrow> bool" where
  "is_complete p \<longleftrightarrow> sp_state p = Completed \<or> 0 < sp_total p \<and> sp_total p \<le> sp_processed p"

definition is_active :: "sync_progress \<Rightarrow> bool" where
  "is_active p \<longleftrightarrow> sp_state p = Loading \<or> sp_state p = Replicating"

datatype sync_event =
    SyncStarted string nat
  | SyncProgressed string hash entry nat nat
  | SyncReady string "entry list"
  | SyncReplicated string hash
  | SyncError string string

primrec event_address :: "sync_event \<Rightarrow> string" where
  "event_address (SyncStarted a n) = a"
| "event_address (SyncProgressed a h e n m) = a"
| "event_address (SyncReady a es) = a"
| "event_address (SyncReplicated a h) = a"
| "event_address (SyncError a s) = a"

primrec event_state :: "sync_event \<Rightarrow> sync_state" where
  "event_state (SyncStarted a n) = Loading"
| "event_state (SyncProgressed a h e n m) = Loading"
| "event_state (SyncReady a es) = Completed"
| "event_state (SyncReplicated a h) = Replicating"
| "event_state (SyncError a s) = Failed"

record sync_observer =
  obs_progress :: sync_progress
  obs_events :: "sync_event list"

definition observer_new :: "string \<Rightarrow> sync_observer" where
  "observer_new addr = \<lparr> obs_progress = progress_new addr, obs_events = [] \<rparr>"

definition emit_started :: "nat \<Rightarrow> sync_observer \<Rightarrow> sync_observer" where
  "emit_started tot o1 =
     (let p = (obs_progress o1)\<lparr>sp_total := tot, sp_processed := 0, sp_state := Loading\<rparr>
      in \<lparr> obs_progress = p, obs_events = obs_events o1 @ [SyncStarted (sp_address p) tot] \<rparr>)"

definition emit_progress :: "hash \<Rightarrow> entry \<Rightarrow> nat \<Rightarrow> nat \<Rightarrow> sync_observer \<Rightarrow> sync_observer" where
  "emit_progress h e processed tot o1 =
     (let p = (obs_progress o1)\<lparr>sp_processed := processed, sp_total := tot, sp_state := Loading\<rparr>
      in \<lparr> obs_progress = p,
           obs_events = obs_events o1 @ [SyncProgressed (sp_address p) h e processed tot] \<rparr>)"

definition emit_replicated :: "hash \<Rightarrow> sync_observer \<Rightarrow> sync_observer" where
  "emit_replicated h o1 =
     (let p = (obs_progress o1)\<lparr>sp_state := Replicating\<rparr>
      in \<lparr> obs_progress = p, obs_events = obs_events o1 @ [SyncReplicated (sp_address p) h] \<rparr>)"

definition emit_ready :: "entry list \<Rightarrow> sync_observer \<Rightarrow> sync_observer" where
  "emit_ready hs o1 =
     (let p = (obs_progress o1)\<lparr>sp_state := Completed\<rparr>
      in \<lparr> obs_progress = p, obs_events = obs_events o1 @ [SyncReady (sp_address p) hs] \<rparr>)"

definition emit_error :: "string \<Rightarrow> sync_observer \<Rightarrow> sync_observer" where
  "emit_error err o1 =
     (let p = (obs_progress o1)\<lparr>sp_state := Failed\<rparr>
      in \<lparr> obs_progress = p, obs_events = obs_events o1 @ [SyncError (sp_address p) err] \<rparr>)"

text \<open>
  The state the observer shows is the state of the last event it emitted, and it shows one for the
  address it was created with.
\<close>

definition observer_wf :: "sync_observer \<Rightarrow> bool" where
  "observer_wf o1 \<longleftrightarrow>
     (if obs_events o1 = [] then sp_state (obs_progress o1) = Idle
      else sp_state (obs_progress o1) = event_state (last (obs_events o1))) \<and>
     (\<forall>ev\<in>set (obs_events o1). event_address ev = sp_address (obs_progress o1))"

lemmas emit_defs = emit_started_def emit_progress_def emit_replicated_def emit_ready_def emit_error_def

lemma observer_wf_emit:
  "observer_wf (observer_new a)"
  "observer_wf o1 \<Longrightarrow> observer_wf (emit_started n o1)"
  "observer_wf o1 \<Longrightarrow> observer_wf (emit_progress h e n m o1)"
  "observer_wf o1 \<Longrightarrow> observer_wf (emit_replicated h o1)"
  "observer_wf o1 \<Longrightarrow> observer_wf (emit_ready hs o1)"
  "observer_wf o1 \<Longrightarrow> observer_wf (emit_error s o1)"
  by (auto simp: observer_wf_def observer_new_def progress_new_def emit_defs Let_def)

subsection \<open>Retry metrics\<close>

record retry_metrics =
  total_connection_attempts :: nat
  failed_connection_attempts :: nat
  total_send_attempts :: nat
  failed_send_attempts :: nat
  successful_retries :: nat
  failed_after_all_retries :: nat
  peer_exchange_attempts :: nat
  peer_exchange_successes :: nat
  peer_exchange_failures :: nat
  peer_exchange_final_failures :: nat
  peer_exchange_timeouts :: nat
  peer_exchange_cancellations :: nat

definition retry_metrics_new :: retry_metrics where
  "retry_metrics_new =
     \<lparr> total_connection_attempts = 0, failed_connection_attempts = 0, total_send_attempts = 0,
       failed_send_attempts = 0, successful_retries = 0, failed_after_all_retries = 0,
       peer_exchange_attempts = 0, peer_exchange_successes = 0, peer_exchange_failures = 0,
       peer_exchange_final_failures = 0, peer_exchange_timeouts = 0, peer_exchange_cancellations = 0 \<rparr>"

definition record_connection_attempt :: "bool \<Rightarrow> retry_metrics \<Rightarrow> retry_metrics" where
  "record_connection_attempt success m =
     (let m' = m\<lparr>total_connection_attempts := total_connection_attempts m + 1\<rparr>
      in if success then m' else m'\<lparr>failed_connection_attempts := failed_connection_attempts m + 1\<rparr>)"

definition record_send_attempt :: "bool \<Rightarrow> retry_metrics \<Rightarrow> retry_metrics" where
  "record_send_attempt success m =
     (let m' = m\<lparr>total_send_attempts := total_send_attempts m + 1\<rparr>
      in if success then m' else m'\<lparr>failed_send_attempts := failed_send_attempts m + 1\<rparr>)"

text \<open>The success rates subtract the failures from the attempts, which never goes below zero.\<close>

definition metrics_wf :: "retry_metrics \<Rightarrow> bool" where
  "metrics_wf m \<longleftrightarrow> failed_connection_attempts m \<le> total_connection_attempts m \<and>
     failed_send_attempts m \<le> total_send_attempts m"

lemma metrics_wf_record:
  "metrics_wf retry_metrics_new"
  "metrics_wf m \<Longrightarrow> metrics_wf (record_connection_attempt ok m)"
  "metrics_wf m \<Longrightarrow> metrics_wf (record_send_attempt ok m)"
  by (auto simp: metrics_wf_def retry_metrics_new_def record_connection_attempt_def record_send_attempt_def Let_def)

subsection \<open>State\<close>

definition default_sort_fn :: entry_sort_fn where
  "default_sort_fn a b =
     (let time_cmp = cmp (clock_time (clock a)) (clock_time (clock b))
      in if time_cmp \<noteq> Equal then time_cmp
         else let id_cmp = cmp (clock_id (clock a)) (clock_id (clock b))
              in if id_cmp \<noteq> Equal then id_cmp else cmp (hash a) (hash b))"

text \<open>An access controller as its store sees it: the answers it gives at the moment.\<close>

record access_controller =
  ac_authorized_by_role :: "string \<Rightarrow> guardian_error + string list"
  ac_can_append :: "entry \<Rightarrow> guardian_error + unit"

definition simple_controller :: "(identity \<Rightarrow> guardian_error + unit) \<Rightarrow> simple_acl \<Rightarrow> access_controller" where
  "simple_controller verify_identity a =
     \<lparr> ac_authorized_by_role = simple_authorized_by_role a, ac_can_append = simple_can_append verify_identity a \<rparr>"

record log_and_index =
  li_oplog :: oplog
  li_index :: "store_index option"

datatype store_event =
    EventWrite string entry "entry list"
  | EventReady string "entry list"
  | EventReplicated string nat "entry list"
  | EventLoad string "entry list"
  | EventLoadProgress string hash entry nat nat

record base_store =
  bs_id :: string
  bs_address :: string
  bs_identity :: identity
  bs_reference_count :: nat
  bs_sort_fn :: entry_sort_fn
  bs_access :: access_controller
  bs_cache :: "(string, bytes) hash_map"
  bs_log_and_index :: log_and_index
  bs_observer :: sync_observer
  bs_events :: "store_event list"
  bs_metrics :: retry_metrics
  bs_closed :: bool

record base_env =
  be_client :: client_env
  be_now :: string
  be_codec :: op_codec
  entries_to_allocvec :: "entry list \<Rightarrow> string + bytes"
  entries_from_bytes :: "bytes \<Rightarrow> string + entry list"
  cache_put_error :: "string \<Rightarrow> bytes \<Rightarrow> guardian_error option"
  cache_get_error :: "string \<Rightarrow> guardian_error option"
  cache_delete_error :: "string \<Rightarrow> guardian_error option"

abbreviation bs_oplog :: "base_store \<Rightarrow> oplog" where
  "bs_oplog st \<equiv> li_oplog (bs_log_and_index st)"

abbreviation bs_index :: "base_store \<Rightarrow> store_index option" where
  "bs_index st \<equiv> li_index (bs_log_and_index st)"

definition set_oplog :: "oplog \<Rightarrow> base_store \<Rightarrow> base_store" where
  "set_oplog l st = st\<lparr>bs_log_and_index := (bs_log_and_index st)\<lparr>li_oplog := l\<rparr>\<rparr>"

definition observe :: "(sync_observer \<Rightarrow> sync_observer) \<Rightarrow> base_store \<Rightarrow> base_store" where
  "observe f st = st\<lparr>bs_observer := f (bs_observer st)\<rparr>"

definition emit :: "store_event \<Rightarrow> base_store \<Rightarrow> base_store" where
  "emit ev st = st\<lparr>bs_events := bs_events st @ [ev]\<rparr>"

definition cache_put :: "base_env \<Rightarrow> string \<Rightarrow> bytes \<Rightarrow> base_store \<Rightarrow> (guardian_error + unit) \<times> base_store" where
  "cache_put env k v st =
     (case cache_put_error env k v of
        Some err \<Rightarrow> (Inl err, st)
      | None \<Rightarrow> (Inr (), st\<lparr>bs_cache := AList.update k v (bs_cache st)\<rparr>))"

definition cache_get :: "base_env \<Rightarrow> string \<Rightarrow> base_store \<Rightarrow> guardian_error + bytes option" where
  "cache_get env k st =
     (case cache_get_error env k of Some err \<Rightarrow> Inl err | None \<Rightarrow> Inr (map_of (bs_cache st) k))"

subsection \<open>Index maintenance\<close>

text \<open>The number of log entries handed to the index, or 0 without an index.\<close>

definition update_index_safe :: "op_codec \<Rightarrow> log_and_index \<Rightarrow> nat \<times> log_and_index" where
  "update_index_safe cd li =
     (let es = log_values (li_oplog li)
      in case li_index li of
           Some i \<Rightarrow> (length es, li\<lparr>li_index := Some (si_update_index cd es i)\<rparr>)
         | None \<Rightarrow> (0, li))"

definition update_index :: "base_env \<Rightarrow> base_store \<Rightarrow> nat \<times> base_store" where
  "update_index env st =
     (let r = update_index_safe (be_codec env) (bs_log_and_index st)
      in (fst r, st\<lparr>bs_log_and_index := snd r\<rparr>))"

text \<open>The index handed out by the store: it delegates to the active index if there is one.\<close>

definition wrapper_contains_key :: "log_and_index \<Rightarrow> string \<Rightarrow> bool" where
  "wrapper_contains_key li k = (case li_index li of Some i \<Rightarrow> si_contains_key i k | None \<Rightarrow> False)"

definition wrapper_get_bytes :: "log_and_index \<Rightarrow> string \<Rightarrow> bytes option" where
  "wrapper_get_bytes li k = (case li_index li of Some i \<Rightarrow> si_get_bytes i k | None \<Rightarrow> None)"

definition wrapper_keys :: "log_and_index \<Rightarrow> string list" where
  "wrapper_keys li = (case li_index li of Some i \<Rightarrow> si_keys i | None \<Rightarrow> [])"

definition wrapper_len :: "log_and_index \<Rightarrow> nat" where
  "wrapper_len li = (case li_index li of Some i \<Rightarrow> si_len i | None \<Rightarrow> 0)"

definition wrapper_is_empty :: "log_and_index \<Rightarrow> bool" where
  "wrapper_is_empty li = (case li_index li of Some i \<Rightarrow> si_is_empty i | None \<Rightarrow> True)"

definition wrapper_clear :: "log_and_index \<Rightarrow> log_and_index" where
  "wrapper_clear li = li\<lparr>li_index := map_option si_clear (li_index li)\<rparr>"

subsection \<open>Entries of other replicas\<close>

definition create_temporary_log_with_entry :: "base_env \<Rightarrow> base_store \<Rightarrow> entry \<Rightarrow> oplog" where
  "create_temporary_log_with_entry env st e =
     log_new (be_now env) (bs_identity st)
       \<lparr> opt_id = Some (bs_id st), opt_entries = [e], opt_heads = [e], opt_clock = None,
         opt_sort_fn = Some (bs_sort_fn st) \<rparr>"

definition join_one :: "base_env \<Rightarrow> nat \<Rightarrow> nat \<times> entry \<Rightarrow> nat \<times> base_store \<Rightarrow> nat \<times> base_store" where
  "join_one env tot ie acc =
     (let (i, e) = ie; (cnt, st) = acc
      in if log_has (bs_oplog st) (hash e) then acc
         else case log_join (bs_oplog st) (create_temporary_log_with_entry env st e) None of
                Some l \<Rightarrow> (cnt + 1, observe (emit_progress (hash e) e (i + 1) tot) (set_oplog l st))
              | None \<Rightarrow> acc)"

definition load_more_from :: "base_env \<Rightarrow> entry list \<Rightarrow> base_store \<Rightarrow> nat \<times> base_store" where
  "load_more_from env es st =
     (if es = [] then (0, st)
      else let (added, st1) = fold (join_one env (length es)) (enumerate 0 es) (0, st)
           in if 0 < added then
                (let st2 = snd (update_index env st1);
                     st3 = fold (\<lambda>e. observe (emit_replicated (hash e))) es st2
                 in (added, emit (EventReplicated (bs_address st) (log_length (bs_oplog st3)) es) st3))
              else (added, st1))"

text \<open>
  A head is verified when it carries data and a hash, the access controller lets its author append,
  and the log does not hold it yet.
\<close>

definition verified_head :: "base_store \<Rightarrow> entry \<Rightarrow> bool" where
  "verified_head st h \<longleftrightarrow>
     \<not> (hash h = 0 \<or> payload h = []) \<and> ac_can_append (bs_access st) h = Inr () \<and> hash h \<noteq> 0 \<and>
     \<not> log_has (bs_oplog st) (hash h)"

definition add_counted :: "entry \<Rightarrow> nat \<times> oplog \<Rightarrow> nat \<times> oplog" where
  "add_counted e acc =
     (let r = add_entry e (snd acc) in (if fst r then fst acc + 1 else fst acc, snd r))"

definition persist_all_entries :: "base_env \<Rightarrow> base_store \<Rightarrow> base_store" where
  "persist_all_entries env st =
     (case serialize (entries_to_allocvec env) (log_values (bs_oplog st)) of
        Inl _ \<Rightarrow> st
      | Inr bs \<Rightarrow> snd (cache_put env ''_allEntries'' bs st))"

definition report_progress :: "entry list \<Rightarrow> base_store \<Rightarrow> base_store" where
  "report_progress es st =
     fold (\<lambda>(i, e). observe (emit_progress (hash e) e (i + 1) (length es))) (enumerate 0 es) st"

definition sync :: "base_env \<Rightarrow> entry list \<Rightarrow> base_store \<Rightarrow> base_store" where
  "sync env heads st =
     (if heads = [] then st
      else let st1 = observe (emit_started (length heads)) st;
               verified = filter (verified_head st1) heads
           in if verified = [] then observe (emit_ready []) st1
              else let (added, l) = fold add_counted verified (0, bs_oplog st1);
                       st2 = report_progress verified (set_oplog l st1)
                   in if 0 < added then
                        (let st3 = observe (emit_ready verified) (snd (update_index env st2))
                         in persist_all_entries env st3)
                      else st2)"

subsection \<open>The write path\<close>

text \<open>The result is \<open>None\<close> where appending to the log panics.\<close>

definition persist_heads :: "base_env \<Rightarrow> base_store \<Rightarrow> (guardian_error + unit) \<times> base_store" where
  "persist_heads env st =
     (case serialize (entries_to_allocvec env) (log_sorted_heads (bs_oplog st)) of
        Inl err \<Rightarrow> (Inl (StoreError (''Failed to serialize local heads for caching: '' @ display_error err)), st)
      | Inr bs \<Rightarrow>
          (case cache_put env ''_localHeads'' bs st of
             (Inl err, st') \<Rightarrow> (Inl (StoreError (''Failed to cache local heads: '' @ display_error err)), st')
           | (Inr _, st') \<Rightarrow> (Inr (), st')))"

definition persist_entries :: "base_env \<Rightarrow> base_store \<Rightarrow> (guardian_error + unit) \<times> base_store" where
  "persist_entries env st =
     (case serialize (entries_to_allocvec env) (log_values (bs_oplog st)) of
        Inl err \<Rightarrow> (Inl (StoreError (''Failed to serialize all entries for caching: '' @ display_error err)), st)
      | Inr bs \<Rightarrow>
          (case cache_put env ''_allEntries'' bs st of
             (Inl err, st') \<Rightarrow> (Inl (StoreError (''Failed to cache all entries: '' @ display_error err)), st')
           | (Inr _, st') \<Rightarrow> (Inr (), st')))"

definition add_operation :: "base_env \<Rightarrow> operation \<Rightarrow> base_store \<Rightarrow> ((guardian_error + entry) \<times> base_store) option" where
  "add_operation env op st =
     (case marshal (be_codec env) op of
        Inl err \<Rightarrow> Some (Inl (StoreError (''Unable to marshal operation: '' @ display_error err)), st)
      | Inr data \<Rightarrow>
          (case log_append (be_client env) (bs_oplog st) (b64_encode (be_codec env) data) (Some (bs_reference_count st)) of
             None \<Rightarrow> None
           | Some (e, l) \<Rightarrow>
               (let st1 = snd (update_index env (set_oplog l st))
                in case persist_heads env st1 of
                     (Inl err, st2) \<Rightarrow> Some (Inl err, st2)
                   | (Inr _, st2) \<Rightarrow>
                       (case persist_entries env st2 of
                          (Inl err, st3) \<Rightarrow> Some (Inl err, st3)
                        | (Inr _, st3) \<Rightarrow>
                            Some (Inr e, emit (EventWrite (bs_address st3) e (log_sorted_heads (bs_oplog st1))) st3)))))"

subsection \<open>Loading\<close>

definition load_heads_from_cache_key :: "base_env \<Rightarrow> string \<Rightarrow> base_store \<Rightarrow> entry list \<Rightarrow> guardian_error + entry list" where
  "load_heads_from_cache_key env k st heads =
     (case cache_get env k st of
        Inr (Some bs) \<Rightarrow>
          and_then
            (map_err (\<lambda>err. StoreError (''Failed to deserialize heads from cache key '' @ [CHR 0x27] @ k @ [CHR 0x27] @
                '': '' @ display_error err))
              (deserialize (entries_from_bytes env) bs))
            (\<lambda>cached. Inr (heads @ cached))
      | _ \<Rightarrow> Inr heads)"

definition cached_entries :: "base_env \<Rightarrow> base_store \<Rightarrow> entry list" where
  "cached_entries env st =
     (case cache_get env ''_allEntries'' st of
        Inr (Some bs) \<Rightarrow> (case deserialize (entries_from_bytes env) bs of Inr es \<Rightarrow> es | Inl _ \<Rightarrow> [])
      | _ \<Rightarrow> [])"

definition load_progress :: "entry list \<Rightarrow> base_store \<Rightarrow> base_store" where
  "load_progress es st =
     fold (\<lambda>(i, e) st.
         emit (EventLoadProgress (bs_address st) (hash e) e (i + 1) (length es))
           (observe (emit_progress (hash e) e (i + 1) (length es)) st))
       (enumerate 0 es) st"

definition load :: "base_env \<Rightarrow> base_store \<Rightarrow> (guardian_error + unit) \<times> base_store" where
  "load env st =
     (case and_then (load_heads_from_cache_key env ''_localHeads'' st [])
             (load_heads_from_cache_key env ''_remoteHeads'' st) of
        Inl err \<Rightarrow> (Inl err, st)
      | Inr heads \<Rightarrow>
          (let st1 = emit (EventLoad (bs_address st) []) (observe (emit_started (length heads)) st);
               all_entries = cached_entries env st1
           in if heads = [] \<and> all_entries = [] then
                (Inr (), emit (EventReady (bs_address st) []) (observe (emit_ready []) st1))
              else
                let es = (if all_entries \<noteq> [] then all_entries else heads);
                    l = snd (fold add_counted es (0, bs_oplog st1));
                    st2 = load_progress es (set_oplog (sync_clock_from_heads l) st1);
                    st3 = snd (update_index env st2)
                in (Inr (), emit (EventReady (bs_address st) heads) (observe (emit_ready heads) st3))))"

subsection \<open>Closing and resetting\<close>

definition close_store :: "base_store \<Rightarrow> base_store" where
  "close_store st =
     (if bs_closed st then st else emit (EventReady (bs_address st) []) (st\<lparr>bs_closed := True\<rparr>))"

definition reset_keys :: "string list" where
  "reset_keys = [''_localHeads'', ''_remoteHeads'', ''_allEntries'', ''queue'', ''snapshot'',
     ''replication_progress'', ''peers_status'', ''sync_state'']"

definition cache_delete :: "base_env \<Rightarrow> string \<Rightarrow> base_store \<Rightarrow> base_store" where
  "cache_delete env k st =
     (case cache_delete_error env k of
        Some _ \<Rightarrow> st
      | None \<Rightarrow> st\<lparr>bs_cache := AList.delete k (bs_cache st)\<rparr>)"

definition reset :: "base_env \<Rightarrow> base_store \<Rightarrow> base_store" where
  "reset env st =
     (let st1 = close_store st;
          l = log_new (be_now env) (bs_identity st)
                \<lparr> opt_id = Some (bs_id st), opt_entries = [], opt_heads = [], opt_clock = None,
                  opt_sort_fn = Some (bs_sort_fn st) \<rparr>;
          st2 = st1\<lparr>bs_log_and_index := wrapper_clear ((bs_log_and_index st1)\<lparr>li_oplog := l\<rparr>)\<rparr>;
          st3 = fold (cache_delete env) reset_keys st2
      in emit (EventReady (bs_address st) []) (st3\<lparr>bs_metrics := retry_metrics_new\<rparr>))"

definition store_new ::
  "base_env \<Rightarrow> string \<Rightarrow> identity \<Rightarrow> access_controller option \<Rightarrow> (identity \<Rightarrow> guardian_error + unit) \<Rightarrow>
   entry_sort_fn option \<Rightarrow> nat option \<Rightarrow> store_index \<Rightarrow> (string, bytes) hash_map \<Rightarrow> base_store" where
  "store_new env address ident access verify sort_fn reference_count initial_index cache =
     (let f = (case sort_fn of Some f \<Rightarrow> f | None \<Rightarrow> default_sort_fn)
      in \<lparr> bs_id = address, bs_address = address, bs_identity = ident,
           bs_reference_count = (case reference_count of Some n \<Rightarrow> n | None \<Rightarrow> 64),
           bs_sort_fn = f,
           bs_access = (case access of
               Some ac \<Rightarrow> ac
             | None \<Rightarrow> simple_controller verify (simple_new (Some [(''write'', [''*''])]))),
           bs_cache = cache,
           bs_log_and_index =
             \<lparr> li_oplog = log_new (be_now env) ident
                 \<lparr> opt_id = Some address, opt_entries = [], opt_heads = [], opt_clock = None, opt_sort_fn = Some f \<rparr>,
               li_index = Some initial_index \<rparr>,
           bs_observer = observer_new address, bs_events = [], bs_metrics = retry_metrics_new,
           bs_closed = False \<rparr>)"

subsection \<open>Permissions\<close>

definition can_write :: "base_store \<Rightarrow> identity \<Rightarrow> bool" where
  "can_write st ident =
     (case ac_authorized_by_role (bs_access st) ''write'' of
        Inr ks \<Rightarrow> identity_pub_key ident \<in> set ks \<or> ''*'' \<in> set ks
      | Inl _ \<Rightarrow> False)"

definition can_read :: "base_store \<Rightarrow> identity \<Rightarrow> bool" where
  "can_read st ident =
     (case ac_authorized_by_role (bs_access st) ''read'' of
        Inr ks \<Rightarrow> identity_pub_key ident \<in> set ks \<or> ''*'' \<in> set ks \<or> ks = [] \<and> can_write st ident
      | Inl _ \<Rightarrow> False)"

definition extract_log_name :: "base_store \<Rightarrow> string" where
  "extract_log_name st = last (split_char CHR ''/'' (bs_id st))"

end
