(* ===== verification/Store_Correct.thy ===== *)
theory Store_Correct
  imports Base_Store "HOL-Library.Product_Lexorder"
begin

text \<open>
  Correctness of the base store: the order of its log is a function of the entries stored, the
  index always reflects the log, entries of other replicas are merged whatever the order they
  arrive in, and a store is restored from its cache.
\<close>

subsection \<open>The order of the store's log\<close>

definition store_key :: "entry \<Rightarrow> lamport_clock \<times> hash" where
  "store_key e = (clock e, hash e)"

lemma default_sort_fn_cmp: "default_sort_fn a b = cmp (store_key a) (store_key b)"
proof (cases "clock a = clock b")
  case True
  then show ?thesis by (simp add: default_sort_fn_def store_key_def cmp_def)
next
  case False
  then have "clock_time (clock a) \<noteq> clock_time (clock b) \<or> clock_id (clock a) \<noteq> clock_id (clock b)"
    by (metis lamport_clock.expand)
  moreover have "clock a < clock b \<longleftrightarrow> clock_time (clock a) < clock_time (clock b) \<or>
      clock_time (clock a) = clock_time (clock b) \<and> clock_id (clock a) < clock_id (clock b)"
    by (auto simp: less_lamport_clock_def clock_cmp_Less_iff)
  ultimately show ?thesis using False
    by (auto simp: default_sort_fn_def store_key_def cmp_def)
qed

lemma no_zeroes_default:
  assumes "hash a = hash b \<Longrightarrow> clock a = clock b"
  shows "no_zeroes default_sort_fn a b = cmp (store_key a) (store_key b)"
proof (cases "hash a = hash b")
  case True
  with assms show ?thesis by (simp add: no_zeroes_def store_key_def)
next
  case False
  then have "cmp (store_key a) (store_key b) \<noteq> Equal" by (simp add: cmp_simps store_key_def)
  with False show ?thesis by (simp add: no_zeroes_def default_sort_fn_cmp Let_def)
qed

lemma respects_store_key:
  assumes "hash_fixes_clock A"
  shows "respects_key store_key (no_zeroes default_sort_fn) A"
proof -
  have "no_zeroes default_sort_fn x y = cmp (store_key x) (store_key y)" if "x \<in> A" "y \<in> A" for x y
    using assms that unfolding hash_fixes_clock_def by (intro no_zeroes_default) blast
  then show ?thesis unfolding respects_key_def by (simp add: cmp_simps less_imp_le)
qed

lemma parents_earlier_store_key: "causal l \<Longrightarrow> parents_earlier store_key l"
  unfolding parents_earlier_def store_key_def using causal_parent_of
  by (fastforce dest: clock_time_less)

lemma store_values:
  assumes "log_wf l" "causal l" "log_sort_fn l = no_zeroes default_sort_fn"
  shows "set (log_values l) = stored l" "distinct (map hash (log_values l))"
    "sorted (map store_key (log_values l))"
proof -
  note full = traverse_complete [OF assms(1,2)]
  show "set (log_values l) = stored l" using full(1) by (simp add: log_values_def)
  show "distinct (map hash (log_values l))" using full(2) by (simp add: log_values_def rev_map [symmetric])
  have "respects_key store_key (log_sort_fn l) (stored l)"
    unfolding assms(3) by (rule respects_store_key [OF hash_fixes_clock_stored [OF log_wfD(2) [OF assms(1)]]])
  from traverse_newest_first_by [OF assms(1) parents_earlier_store_key [OF assms(2)] this]
  show "sorted (map store_key (log_values l))" by (simp add: log_values_def sorted_map sorted_wrt_rev)
qed

text \<open>Logs with the same entries list the same values.\<close>

lemma store_values_determined:
  assumes "log_wf l" "causal l" "log_sort_fn l = no_zeroes default_sort_fn"
    "log_wf l'" "causal l'" "log_sort_fn l' = no_zeroes default_sort_fn" "stored l = stored l'"
  shows "log_values l = log_values l'"
proof -
  note v = store_values [OF assms(1-3)] and v' = store_values [OF assms(4-6)]
  have dist: "distinct (map store_key (log_values l))" "distinct (map store_key (log_values l'))"
    using v(2) v'(2) by (auto simp: distinct_map inj_on_def store_key_def)
  have "map store_key (log_values l) = map store_key (log_values l')"
    using v(1,3) v'(1,3) dist assms(7) by (intro sorted_distinct_set_unique) simp_all
  moreover have "inj_on store_key (stored l)"
    using stored_inj [OF log_wfD(2) [OF assms(1)]] by (auto simp: inj_on_def store_key_def)
  ultimately show ?thesis
    using v(1) v'(1) assms(7) by (intro map_inj_on [of store_key]) simp_all
qed

subsection \<open>Histories\<close>

text \<open>
  The entries written to a database so far, by any replica: hashes identify entries, and parents
  carry smaller times.
\<close>

definition history :: "entry set \<Rightarrow> bool" where
  "history G \<longleftrightarrow> inj_on hash G \<and>
     (\<forall>e\<in>G. \<forall>p\<in>G. hash p \<in> set (next_hashes e) \<longrightarrow> clock_time (clock p) < clock_time (clock e))"

lemma history_causal: "history G \<Longrightarrow> stored l \<subseteq> G \<Longrightarrow> causal l"
  unfolding history_def causal_def by blast

lemma history_subset: "history G \<Longrightarrow> H \<subseteq> G \<Longrightarrow> history H"
  unfolding history_def by (meson inj_on_subset subsetD)

lemma history_empty [simp]: "history {}"
  by (simp add: history_def)

lemma stored_add_entries:
  assumes "log_wf l" "inj_on hash (stored l \<union> set es)"
  shows "stored (add_entries es l) = stored l \<union> set es"
proof -
  have key: "keyed l" by (rule log_wfD(2) [OF assms(1)])
  have inj: "inj_on hash (set es)" using assms(2) by (auto intro: inj_on_subset)
  have "log_get (add_entries es l) h = Some e \<longleftrightarrow> e \<in> stored l \<union> set es \<and> hash e = h" for h e
  proof (cases "log_get l h")
    case None
    then show ?thesis
      using log_get_add_entries [OF assms(1) inj] get_None_iff [OF key, of h] by (auto simp: get_Some_iff [OF key])
  next
    case (Some x)
    then have x: "x \<in> stored l" "hash x = h" by (simp_all add: get_Some_iff [OF key])
    have "log_get (add_entries es l) h = Some e \<longleftrightarrow> x = e"
      using log_get_add_entries [OF assms(1) inj] Some by auto
    then show ?thesis using x inj_onD [OF assms(2), of x e] by auto
  qed
  then show ?thesis by (auto simp: stored_def ran_def)
qed

lemma fold_add_counted:
  "snd (fold add_counted es acc) = add_entries es (snd acc)"
  by (induction es arbitrary: acc) (simp_all add: add_counted_def add_entries_def Let_def)

lemma fold_add_counted_le: "fst acc \<le> fst (fold add_counted es acc)"
proof (induction es arbitrary: acc)
  case (Cons e es)
  have "fst acc \<le> fst (add_counted e acc)" by (simp add: add_counted_def Let_def)
  with Cons [of "add_counted e acc"] show ?case by simp
qed simp

lemma fold_add_counted_pos:
  assumes "e \<in> set es" "log_get l (hash e) = None" "log_wf l"
  shows "0 < fst (fold add_counted es (n, l))"
  using assms
proof (induction es arbitrary: n l)
  case (Cons x es)
  show ?case
  proof (cases "log_get l (hash x) = None")
    case True
    then have "fst (add_counted x (n, l)) = n + 1"
      by (simp add: add_counted_def add_entry_def log_get_def Let_def)
    then show ?thesis using fold_add_counted_le [of "add_counted x (n, l)" es] by simp
  next
    case False
    then have "add_counted x (n, l) = (n, l)"
      by (simp add: add_counted_def add_entry_def log_get_def Let_def)
    then show ?thesis using Cons False by auto
  qed
qed simp

subsection \<open>The invariant of a store\<close>

text \<open>
  The index reflects the values \<open>vs\<close> of the log: the documents are those of a replay of the log
  from nothing, the events are the log itself.  The base index reflects a log of plain operations.
\<close>

primrec index_current :: "op_codec \<Rightarrow> entry list \<Rightarrow> store_index \<Rightarrow> bool" where
  "index_current cd vs (DocumentIndex i) = (map_of (doc_map i) = map_of (doc_update_index cd vs []))"
| "index_current cd vs (BaseIndex i) =
     ((\<forall>e\<in>set vs. plain_entry cd e) \<longrightarrow> map_of (base_map i) = map_of (doc_update_index cd vs []))"
| "index_current cd vs (KvIndex i) = True"
| "index_current cd vs NoopIndex = True"
| "index_current cd vs (EventIndex i) = (entries_cache i = vs)"

lemma covered_current:
  assumes "map_of m = map_of (doc_update_index cd vs [])" "set vs \<subseteq> set ws"
  shows "covered cd ws m"
proof -
  have "covered cd vs (doc_update_index cd vs [])" by (rule covered_update) simp
  then have "covered cd vs m" by (simp add: covered_def assms(1))
  then show ?thesis using assms(2) by (rule covered_mono)
qed

lemma index_current_update:
  assumes "index_current cd vs i" "set vs \<subseteq> set ws"
  shows "index_current cd ws (si_update_index cd ws i)"
proof (cases i)
  case (DocumentIndex d)
  then show ?thesis using doc_update_covered [OF covered_current [OF _ assms(2)]] assms(1) by simp
next
  case (BaseIndex b)
  then show ?thesis
    using doc_update_covered [OF covered_current [OF _ assms(2)]] assms base_update_doc_update by auto
qed (simp_all add: index_defs)

text \<open>An index that has never been updated.\<close>

lemma index_current_clear: "index_current cd [] (si_clear i)"
  by (cases i) (simp_all add: index_defs)

definition store_wf :: "op_codec \<Rightarrow> base_store \<Rightarrow> bool" where
  "store_wf cd st \<longleftrightarrow>
     log_wf (bs_oplog st) \<and> causal (bs_oplog st) \<and> log_sort_fn (bs_oplog st) = no_zeroes default_sort_fn \<and>
     bs_sort_fn st = default_sort_fn \<and> log_id (bs_oplog st) = bs_id st \<and> observer_wf (bs_observer st) \<and>
     (\<forall>i. bs_index st = Some i \<longrightarrow> index_current cd (log_values (bs_oplog st)) i)"

lemma store_wfD:
  assumes "store_wf cd st"
  shows "log_wf (bs_oplog st)" "causal (bs_oplog st)" "log_sort_fn (bs_oplog st) = no_zeroes default_sort_fn"
    "bs_sort_fn st = default_sort_fn" "log_id (bs_oplog st) = bs_id st" "observer_wf (bs_observer st)"
    "\<And>i. bs_index st = Some i \<Longrightarrow> index_current cd (log_values (bs_oplog st)) i"
  using assms by (simp_all add: store_wf_def)

text \<open>What the auxiliary steps of the handlers leave alone.\<close>

lemma step_frames [simp]:
  "bs_log_and_index (observe f st) = bs_log_and_index st" "bs_log_and_index (emit ev st) = bs_log_and_index st"
  "bs_sort_fn (observe f st) = bs_sort_fn st" "bs_sort_fn (emit ev st) = bs_sort_fn st"
  "bs_id (observe f st) = bs_id st" "bs_id (emit ev st) = bs_id st"
  "bs_access (observe f st) = bs_access st" "bs_access (emit ev st) = bs_access st"
  "bs_observer (observe f st) = f (bs_observer st)" "bs_observer (emit ev st) = bs_observer st"
  "bs_cache (observe f st) = bs_cache st" "bs_cache (emit ev st) = bs_cache st"
  by (simp_all add: observe_def emit_def)

lemma set_oplog_frames [simp]:
  "bs_oplog (set_oplog l st) = l" "bs_index (set_oplog l st) = bs_index st"
  "bs_sort_fn (set_oplog l st) = bs_sort_fn st" "bs_id (set_oplog l st) = bs_id st"
  "bs_access (set_oplog l st) = bs_access st" "bs_observer (set_oplog l st) = bs_observer st"
  "bs_cache (set_oplog l st) = bs_cache st"
  by (simp_all add: set_oplog_def)

lemma cache_put_frames [simp]:
  "bs_log_and_index (snd (cache_put env k v st)) = bs_log_and_index st"
  "bs_sort_fn (snd (cache_put env k v st)) = bs_sort_fn st" "bs_id (snd (cache_put env k v st)) = bs_id st"
  "bs_access (snd (cache_put env k v st)) = bs_access st"
  "bs_observer (snd (cache_put env k v st)) = bs_observer st"
  by (simp_all add: cache_put_def split: option.splits)

lemma update_index_frames [simp]:
  "bs_oplog (snd (update_index env st)) = bs_oplog st" "bs_sort_fn (snd (update_index env st)) = bs_sort_fn st"
  "bs_id (snd (update_index env st)) = bs_id st" "bs_access (snd (update_index env st)) = bs_access st"
  "bs_observer (snd (update_index env st)) = bs_observer st" "bs_cache (snd (update_index env st)) = bs_cache st"
  by (simp_all add: update_index_def update_index_safe_def Let_def split: option.splits)

lemma bs_index_update:
  "bs_index (snd (update_index env st)) =
     map_option (si_update_index (be_codec env) (log_values (bs_oplog st))) (bs_index st)"
  by (simp add: update_index_def update_index_safe_def Let_def split: option.splits)

lemma progress_frames [simp]:
  fixes es :: "entry list"
  shows "bs_log_and_index (report_progress es st) = bs_log_and_index st"
    "bs_sort_fn (report_progress es st) = bs_sort_fn st" "bs_id (report_progress es st) = bs_id st"
    "bs_access (report_progress es st) = bs_access st" "bs_cache (report_progress es st) = bs_cache st"
    "observer_wf (bs_observer st) \<Longrightarrow> observer_wf (bs_observer (report_progress es st))"
    "bs_log_and_index (load_progress es st) = bs_log_and_index st"
    "bs_sort_fn (load_progress es st) = bs_sort_fn st" "bs_id (load_progress es st) = bs_id st"
    "bs_access (load_progress es st) = bs_access st" "bs_cache (load_progress es st) = bs_cache st"
    "observer_wf (bs_observer st) \<Longrightarrow> observer_wf (bs_observer (load_progress es st))"
proof -
  have "bs_log_and_index (fold (\<lambda>(i, e). observe (emit_progress (hash e) e (i + 1) n)) xs st) = bs_log_and_index st \<and>
      bs_sort_fn (fold (\<lambda>(i, e). observe (emit_progress (hash e) e (i + 1) n)) xs st) = bs_sort_fn st \<and>
      bs_id (fold (\<lambda>(i, e). observe (emit_progress (hash e) e (i + 1) n)) xs st) = bs_id st \<and>
      bs_access (fold (\<lambda>(i, e). observe (emit_progress (hash e) e (i + 1) n)) xs st) = bs_access st \<and>
      bs_cache (fold (\<lambda>(i, e). observe (emit_progress (hash e) e (i + 1) n)) xs st) = bs_cache st \<and>
      (observer_wf (bs_observer st) \<longrightarrow>
        observer_wf (bs_observer (fold (\<lambda>(i, e). observe (emit_progress (hash e) e (i + 1) n)) xs st)))"
    for n and xs :: "(nat \<times> entry) list"
    by (induction xs arbitrary: st) (auto simp: observer_wf_emit)
  then show "bs_log_and_index (report_progress es st) = bs_log_and_index st"
    "bs_sort_fn (report_progress es st) = bs_sort_fn st" "bs_id (report_progress es st) = bs_id st"
    "bs_access (report_progress es st) = bs_access st" "bs_cache (report_progress es st) = bs_cache st"
    "observer_wf (bs_observer st) \<Longrightarrow> observer_wf (bs_observer (report_progress es st))"
    by (simp_all add: report_progress_def)
  let ?f = "\<lambda>n (i, e) st. emit (EventLoadProgress (bs_address st) (hash e) e (i + 1) n)
           (observe (emit_progress (hash e) e (i + 1) n) st)"
  have "bs_log_and_index (fold (?f n) xs st) = bs_log_and_index st \<and> bs_sort_fn (fold (?f n) xs st) = bs_sort_fn st \<and>
      bs_id (fold (?f n) xs st) = bs_id st \<and> bs_access (fold (?f n) xs st) = bs_access st \<and>
      bs_cache (fold (?f n) xs st) = bs_cache st \<and>
      (observer_wf (bs_observer st) \<longrightarrow> observer_wf (bs_observer (fold (?f n) xs st)))"
    for n and xs :: "(nat \<times> entry) list"
    by (induction xs arbitrary: st) (auto simp: observer_wf_emit)
  then show "bs_log_and_index (load_progress es st) = bs_log_and_index st"
    "bs_sort_fn (load_progress es st) = bs_sort_fn st" "bs_id (load_progress es st) = bs_id st"
    "bs_access (load_progress es st) = bs_access st" "bs_cache (load_progress es st) = bs_cache st"
    "observer_wf (bs_observer st) \<Longrightarrow> observer_wf (bs_observer (load_progress es st))"
    by (simp_all add: load_progress_def)
qed

lemma store_wf_frame:
  assumes "store_wf cd st" "bs_log_and_index st' = bs_log_and_index st" "bs_sort_fn st' = bs_sort_fn st"
    "bs_id st' = bs_id st" "observer_wf (bs_observer st')"
  shows "store_wf cd st'"
  using assms by (simp add: store_wf_def)

lemma store_wf_update_index:
  assumes "log_wf (bs_oplog st)" "causal (bs_oplog st)" "log_sort_fn (bs_oplog st) = no_zeroes default_sort_fn"
    "bs_sort_fn st = default_sort_fn" "log_id (bs_oplog st) = bs_id st" "observer_wf (bs_observer st)"
    "\<And>i. bs_index st = Some i \<Longrightarrow> index_current (be_codec env) vs i" "set vs \<subseteq> stored (bs_oplog st)"
  shows "store_wf (be_codec env) (snd (update_index env st))"
proof -
  have "set vs \<subseteq> set (log_values (bs_oplog st))" using store_values(1) [OF assms(1-3)] assms(8) by simp
  then have "index_current (be_codec env) (log_values (bs_oplog st)) (si_update_index (be_codec env) (log_values (bs_oplog st)) i)"
    if "bs_index st = Some i" for i
    using index_current_update [OF assms(7) [OF that]] by blast
  then show ?thesis using assms(1-6) by (auto simp: store_wf_def bs_index_update)
qed

text \<open>A store as it is created, with the default order and an index that holds nothing.\<close>

lemma store_wf_new:
  assumes "index_current cd [] i"
  shows "store_wf cd (store_new env addr ident ac v None n i cache)"
    "stored (bs_oplog (store_new env addr ident ac v None n i cache)) = {}"
proof -
  let ?st = "store_new env addr ident ac v None n i cache"
  let ?opts = "\<lparr> opt_id = Some addr, opt_entries = [], opt_heads = [], opt_clock = None, opt_sort_fn = Some default_sort_fn \<rparr>"
  have l: "bs_oplog ?st = log_new (be_now env) ident ?opts" by (simp add: store_new_def Let_def)
  have get: "log_get (bs_oplog ?st) = Map.empty"
    unfolding l by (simp add: log_new_def log_get_def insert_entries_def Let_def fun_eq_iff)
  then show empty: "stored (bs_oplog ?st) = {}" by (simp add: stored_def)
  have "log_wf (bs_oplog ?st)" unfolding l by (rule log_wf_new) simp_all
  moreover have "causal (bs_oplog ?st)" unfolding causal_def empty by simp
  moreover have "log_values (bs_oplog ?st) = []"
    unfolding l by (simp add: log_values_def traverse_def log_new_def find_heads_def log_dedup_def dedup_by_def
        sort_stack_def sort_by_def Let_def)
  moreover have "log_sort_fn (bs_oplog ?st) = no_zeroes default_sort_fn" "log_id (bs_oplog ?st) = addr"
    unfolding l by (simp_all add: log_new_def Let_def)
  ultimately show "store_wf cd ?st"
    using assms by (simp add: store_wf_def store_new_def observer_wf_emit Let_def)
qed

subsection \<open>Entries of other replicas\<close>

definition accepted :: "base_store \<Rightarrow> entry \<Rightarrow> bool" where
  "accepted st h \<longleftrightarrow> hash h \<noteq> 0 \<and> payload h \<noteq> [] \<and> ac_can_append (bs_access st) h = Inr ()"

lemma verified_head_iff:
  "verified_head st h \<longleftrightarrow> accepted st h \<and> log_get (bs_oplog st) (hash h) = None"
  by (auto simp: verified_head_def accepted_def log_has_def log_get_def)

lemma store_wf_add_entries:
  assumes "store_wf (be_codec env) st" "history G" "stored (bs_oplog st) \<union> set es \<subseteq> G"
    "bs_oplog st' = add_entries es (bs_oplog st)" "bs_index st' = bs_index st"
    "bs_sort_fn st' = bs_sort_fn st" "bs_id st' = bs_id st" "observer_wf (bs_observer st')"
  shows "store_wf (be_codec env) (snd (update_index env st'))"
    "stored (bs_oplog st') = stored (bs_oplog st) \<union> set es"
proof -
  note wf = store_wfD [OF assms(1)]
  have inj: "inj_on hash (stored (bs_oplog st) \<union> set es)"
    using assms(2,3) unfolding history_def by (meson inj_on_subset)
  show st: "stored (bs_oplog st') = stored (bs_oplog st) \<union> set es"
    unfolding assms(4) by (rule stored_add_entries [OF wf(1) inj])
  show "store_wf (be_codec env) (snd (update_index env st'))"
  proof (rule store_wf_update_index)
    show "log_wf (bs_oplog st')" unfolding assms(4) by (rule log_wf_add_entries [OF wf(1)])
    show "causal (bs_oplog st')" using history_causal [OF assms(2)] assms(3) st by simp
    show "set (log_values (bs_oplog st)) \<subseteq> stored (bs_oplog st')"
      using store_values(1) [OF wf(1-3)] st by simp
    show "index_current (be_codec env) (log_values (bs_oplog st)) i" if "bs_index st' = Some i" for i
      using wf(7) that assms(5) by simp
  qed (use wf assms(4-8) in \<open>simp_all add: sort_fn_add_entries\<close>)
qed

lemma history_stored:
  assumes "history G" "stored l \<union> {h} \<subseteq> G" "keyed l" "log_get l (hash h) \<noteq> None"
  shows "h \<in> stored l"
proof -
  obtain x where x: "x \<in> stored l" "hash x = hash h"
    using assms(4) get_None_iff [OF assms(3), of "hash h"] by auto
  moreover have "inj_on hash G" using assms(1) by (simp add: history_def)
  ultimately have "x = h" using assms(2) by (auto dest: inj_onD)
  then show ?thesis using x(1) by simp
qed

lemma sync_facts:
  assumes wf: "store_wf (be_codec env) st" and G: "history G" "stored (bs_oplog st) \<union> set heads \<subseteq> G"
  shows "store_wf (be_codec env) (sync env heads st)"
    "stored (bs_oplog (sync env heads st)) = stored (bs_oplog st) \<union> {h\<in>set heads. accepted st h}"
    "bs_access (sync env heads st) = bs_access st"
proof -
  define st1 where "st1 = observe (emit_started (length heads)) st"
  define vs where "vs = filter (verified_head st1) heads"
  define st2 where "st2 = report_progress vs (set_oplog (add_entries vs (bs_oplog st)) st1)"
  define st3 where "st3 = observe (emit_ready vs) (snd (update_index env st2))"
  have frame1: "bs_log_and_index st1 = bs_log_and_index st" "bs_sort_fn st1 = bs_sort_fn st" "bs_id st1 = bs_id st"
    "bs_access st1 = bs_access st" "observer_wf (bs_observer st1)"
    using store_wfD(6) [OF wf] by (simp_all add: st1_def observer_wf_emit)
  have acc: "accepted st1 = accepted st" by (simp add: accepted_def frame1(4) fun_eq_iff)
  note key = log_wfD(2) [OF store_wfD(1) [OF wf]]
  have old: "log_get (bs_oplog st) (hash h) = None" if "h \<in> set heads" "h \<notin> stored (bs_oplog st)" for h
    using history_stored [OF G(1) _ key, of h] G(2) that by blast
  have vs_set: "stored (bs_oplog st) \<union> set vs = stored (bs_oplog st) \<union> {h\<in>set heads. accepted st h}"
    using old by (auto simp: vs_def verified_head_iff acc frame1(1))
  have frame2: "bs_oplog st2 = add_entries vs (bs_oplog st)" "bs_index st2 = bs_index st"
    "bs_sort_fn st2 = bs_sort_fn st" "bs_id st2 = bs_id st" "bs_access st2 = bs_access st" "observer_wf (bs_observer st2)"
    using frame1 by (simp_all add: st2_def)
  have "stored (bs_oplog st) \<union> set vs \<subseteq> G" using G(2) by (auto simp: vs_def)
  note add = store_wf_add_entries [OF wf G(1) this frame2(1-4,6)]
  have st3: "store_wf (be_codec env) st3"
    by (rule store_wf_frame [OF add(1)]) (use frame2(6) in \<open>simp_all add: st3_def observer_wf_emit\<close>)
  have wf3: "store_wf (be_codec env) (persist_all_entries env st3)"
    by (rule store_wf_frame [OF st3])
      (use store_wfD(6) [OF st3] in \<open>simp_all add: persist_all_entries_def split: sum.splits\<close>)
  have frame3: "bs_log_and_index (persist_all_entries env st3) = bs_log_and_index st3"
    "bs_access (persist_all_entries env st3) = bs_access st3"
    by (simp_all add: persist_all_entries_def split: sum.splits)
  consider (none) "heads = []" | (old) "heads \<noteq> []" "vs = []" | (new) "heads \<noteq> []" "vs \<noteq> []" by blast
  then have "store_wf (be_codec env) (sync env heads st) \<and>
      stored (bs_oplog (sync env heads st)) = stored (bs_oplog st) \<union> set vs \<and>
      bs_access (sync env heads st) = bs_access st"
  proof cases
    case none
    then show ?thesis using wf by (simp add: sync_def vs_def)
  next
    case old
    then have "sync env heads st = observe (emit_ready []) st1"
      by (simp add: sync_def st1_def [symmetric] vs_def [symmetric] Let_def)
    moreover have "store_wf (be_codec env) (observe (emit_ready []) st1)"
      by (rule store_wf_frame [OF wf]) (use frame1 in \<open>simp_all add: observer_wf_emit\<close>)
    ultimately show ?thesis using old frame1 by simp
  next
    case new
    have "hd vs \<in> set vs" using new(2) by simp
    moreover from this have "log_get (bs_oplog st) (hash (hd vs)) = None"
      by (simp add: vs_def verified_head_iff frame1(1))
    ultimately have "0 < fst (fold add_counted vs (0, bs_oplog st))"
      using fold_add_counted_pos store_wfD(1) [OF wf] by blast
    then have "sync env heads st = persist_all_entries env st3"
      using new by (simp add: sync_def st1_def [symmetric] vs_def [symmetric] Let_def split_def fold_add_counted
          frame1(1) st2_def [symmetric] st3_def [symmetric])
    then show ?thesis using wf3 frame3 add(2) frame2(5) by (simp add: st3_def)
  qed
  then show "store_wf (be_codec env) (sync env heads st)"
    "stored (bs_oplog (sync env heads st)) = stored (bs_oplog st) \<union> {h\<in>set heads. accepted st h}"
    "bs_access (sync env heads st) = bs_access st"
    using vs_set by simp_all
qed

subsection \<open>The write path\<close>

lemma persist_heads_frames:
  "persist_heads env st = (r, st') \<Longrightarrow>
     bs_log_and_index st' = bs_log_and_index st \<and> bs_sort_fn st' = bs_sort_fn st \<and> bs_id st' = bs_id st \<and>
     bs_access st' = bs_access st \<and> bs_observer st' = bs_observer st"
  by (auto simp: persist_heads_def cache_put_def split: sum.splits prod.splits option.splits)

lemma persist_entries_frames:
  "persist_entries env st = (r, st') \<Longrightarrow>
     bs_log_and_index st' = bs_log_and_index st \<and> bs_sort_fn st' = bs_sort_fn st \<and> bs_id st' = bs_id st \<and>
     bs_access st' = bs_access st \<and> bs_observer st' = bs_observer st"
  by (auto simp: persist_entries_def cache_put_def split: sum.splits prod.splits option.splits)

lemma persist_heads_cached:
  "persist_heads env st = (Inr u, st') \<Longrightarrow>
     \<exists>hs. serialize (entries_to_allocvec env) (log_sorted_heads (bs_oplog st)) = Inr hs \<and>
       bs_cache st' = AList.update ''_localHeads'' hs (bs_cache st)"
  by (auto simp: persist_heads_def cache_put_def split: sum.splits prod.splits option.splits)

lemma persist_entries_cached:
  "persist_entries env st = (Inr u, st') \<Longrightarrow>
     \<exists>bs. serialize (entries_to_allocvec env) (log_values (bs_oplog st)) = Inr bs \<and>
       bs_cache st' = AList.update ''_allEntries'' bs (bs_cache st)"
  by (auto simp: persist_entries_def cache_put_def split: sum.splits prod.splits option.splits)

lemma add_operation_cases:
  assumes "add_operation env op st = Some (r, st')"
  obtains (refused) "st' = st" "isl r"
  | (appended) data e l where "marshal (be_codec env) op = Inr data"
      "log_append (be_client env) (bs_oplog st) (b64_encode (be_codec env) data) (Some (bs_reference_count st)) = Some (e, l)"
      "bs_log_and_index st' = bs_log_and_index (snd (update_index env (set_oplog l st)))"
      "bs_sort_fn st' = bs_sort_fn st" "bs_id st' = bs_id st" "bs_access st' = bs_access st"
      "bs_observer st' = bs_observer st" "r = Inr e \<or> isl r"
      "r = Inr e \<Longrightarrow> \<exists>hs bs. serialize (entries_to_allocvec env) (log_sorted_heads l) = Inr hs \<and>
         serialize (entries_to_allocvec env) (log_values l) = Inr bs \<and>
         bs_cache st' = AList.update ''_allEntries'' bs (AList.update ''_localHeads'' hs (bs_cache st))"
proof (cases "marshal (be_codec env) op")
  case (Inl err)
  then show ?thesis using assms by (intro refused) (auto simp: add_operation_def)
next
  case (Inr data)
  let ?app = "log_append (be_client env) (bs_oplog st) (b64_encode (be_codec env) data) (Some (bs_reference_count st))"
  obtain e l where app: "?app = Some (e, l)"
    using assms Inr by (cases ?app) (auto simp: add_operation_def)
  define st1 where "st1 = snd (update_index env (set_oplog l st))"
  obtain r2 st2 where p2: "persist_heads env st1 = (r2, st2)" by fastforce
  obtain r3 st3 where p3: "persist_entries env st2 = (r3, st3)" by fastforce
  note f2 = persist_heads_frames [OF p2] and f3 = persist_entries_frames [OF p3]
  have f1: "bs_sort_fn st1 = bs_sort_fn st" "bs_id st1 = bs_id st" "bs_access st1 = bs_access st"
    "bs_observer st1 = bs_observer st" "bs_oplog st2 = l"
    using f2 by (simp_all add: st1_def)
  have res: "Some (r, st') = (case r2 of Inl err \<Rightarrow> Some (Inl err, st2) | Inr _ \<Rightarrow>
      (case r3 of Inl err \<Rightarrow> Some (Inl err, st3) | Inr _ \<Rightarrow>
         Some (Inr e, emit (EventWrite (bs_address st3) e (log_sorted_heads (bs_oplog st1))) st3)))"
    using assms Inr app p2 p3 by (simp add: add_operation_def st1_def [symmetric] Let_def split: sum.splits)
  consider (heads) err where "r2 = Inl err" "r = Inl err" "st' = st2"
    | (entries) u err where "r2 = Inr u" "r3 = Inl err" "r = Inl err" "st' = st3"
    | (ok) u u' where "r2 = Inr u" "r3 = Inr u'" "r = Inr e"
        "st' = emit (EventWrite (bs_address st3) e (log_sorted_heads (bs_oplog st1))) st3"
    using res by (cases r2; cases r3) auto
  then show ?thesis
  proof cases
    case heads
    then show ?thesis using f1 f2 by (intro appended [OF Inr app]) (simp_all add: st1_def)
  next
    case entries
    then show ?thesis using f1 f2 f3 by (intro appended [OF Inr app]) (simp_all add: st1_def)
  next
    case ok
    have "bs_oplog st1 = l" "bs_cache st1 = bs_cache st" by (simp_all add: st1_def)
    with persist_heads_cached p2 persist_entries_cached p3 ok(1,2) f1(5)
    have "\<exists>hs bs. serialize (entries_to_allocvec env) (log_sorted_heads l) = Inr hs \<and>
         serialize (entries_to_allocvec env) (log_values l) = Inr bs \<and>
         bs_cache st3 = AList.update ''_allEntries'' bs (AList.update ''_localHeads'' hs (bs_cache st))"
      by metis
    with ok show ?thesis using f1 f2 f3 by (intro appended [OF Inr app]) (simp_all add: st1_def)
  qed
qed

text \<open>A hash that no entry of the history has or names.\<close>

definition new_hash :: "hash \<Rightarrow> entry set \<Rightarrow> bool" where
  "new_hash h G \<longleftrightarrow> h \<notin> hash ` G \<and> (\<forall>x\<in>G. h \<notin> set (next_hashes x))"

lemma new_hash_fresh: "new_hash h G \<Longrightarrow> stored l \<subseteq> G \<Longrightarrow> log_wf l \<Longrightarrow> fresh_hash h l"
  using log_wfD(4) unfolding new_hash_def fresh_hash_def named_parents_def by blast

lemma history_append:
  assumes "history G" "log_wf l" "causal l" "stored l \<subseteq> G"
    "log_append env l data n = Some (e, l')" "new_hash (hash e) G"
    "max_time (clock_time (log_clock l)) (log_heads l) \<noteq> - 1"
  shows "history (insert e G)"
proof -
  note app = log_append_facts [OF assms(2,3,5) new_hash_fresh [OF assms(6,4,2)] assms(7)]
  obtain refs where refs: "set refs \<subseteq> set (log_heads l) \<union> stored l"
      "next_hashes e = map hash (log_dedup (rev (log_heads l)) @ refs)"
    using log_appendD [OF assms(5)] by metis
  have "set (log_dedup (rev (log_heads l))) \<subseteq> stored l"
    using set_dedup_by_subset [of hash "rev (log_heads l)"] log_wfD(6) [OF assms(2)]
    by (auto simp: log_dedup_def)
  then have nexts: "set (next_hashes e) \<subseteq> hash ` stored l"
    using refs log_wfD(6) [OF assms(2)] by auto
  have inj: "inj_on hash G" using assms(1) by (simp add: history_def)
  have time: "clock_time (clock p) < clock_time (clock e)" if p: "p \<in> G" "hash p \<in> set (next_hashes e)" for p
  proof -
    obtain q where q: "q \<in> stored l" "hash p = hash q" using nexts p(2) by blast
    then have "p = q" using inj_onD [OF inj q(2)] p(1) assms(4) by blast
    then show ?thesis using app q(1) by blast
  qed
  have self: "hash e \<notin> set (next_hashes e)"
    using nexts assms(4,6) unfolding new_hash_def by blast
  show ?thesis
    using assms(1,6) time self inj unfolding history_def new_hash_def
    by (auto simp: inj_on_insert)
qed

text \<open>The entry an operation is about to append.\<close>

definition written :: "base_env \<Rightarrow> operation \<Rightarrow> base_store \<Rightarrow> entry option" where
  "written env op st =
     (case marshal (be_codec env) op of
        Inl _ \<Rightarrow> None
      | Inr data \<Rightarrow>
          map_option fst (log_append (be_client env) (bs_oplog st) (b64_encode (be_codec env) data)
            (Some (bs_reference_count st))))"

lemma add_operation_facts:
  assumes wf: "store_wf (be_codec env) st" and G: "history G" "stored (bs_oplog st) \<subseteq> G"
    and op: "add_operation env op st = Some (r, st')"
    and new: "\<And>e. written env op st = Some e \<Longrightarrow> new_hash (hash e) G"
    and time: "max_time (clock_time (log_clock (bs_oplog st))) (log_heads (bs_oplog st)) \<noteq> - 1"
  shows "store_wf (be_codec env) st' \<and> history (G \<union> stored (bs_oplog st')) \<and> bs_access st' = bs_access st \<and>
    (if isl r then stored (bs_oplog st') \<subseteq> stored (bs_oplog st) \<union> set_option (written env op st)
     else written env op st = Some (projr r)) \<and>
    (\<not> isl r \<longrightarrow> stored (bs_oplog st') = insert (projr r) (stored (bs_oplog st)))"
  using op
proof (cases rule: add_operation_cases)
  case refused
  then show ?thesis using wf G by (simp add: Un_absorb2)
next
  case (appended data e l)
  note w = store_wfD [OF wf]
  have we: "written env op st = Some e" using appended(1,2) by (simp add: written_def)
  note fresh = new_hash_fresh [OF new [OF we] G(2) w(1)]
  note app = log_append_facts [OF w(1,2) appended(2) fresh time]
  have hist: "history (insert e G)" by (rule history_append [OF G(1) w(1,2) G(2) appended(2) new [OF we] time])
  have l: "log_sort_fn l = log_sort_fn (bs_oplog st)" "log_id l = log_id (bs_oplog st)"
    by (rule log_appendD [OF appended(2)], simp)+
  have "store_wf (be_codec env) (snd (update_index env (set_oplog l st)))"
    by (rule store_wf_update_index [where vs = "log_values (bs_oplog st)"])
      (use w app l store_values(1) [OF w(1-3)] in auto)
  then have "store_wf (be_codec env) st'"
    by (rule store_wf_frame) (use appended w(6) in simp_all)
  moreover have log: "bs_oplog st' = l" using appended(3) by simp
  moreover have "G \<union> stored l = insert e G" using app G(2) by auto
  ultimately show ?thesis using hist app appended(6,8) we by auto
qed

lemma history_of_log: "log_wf l \<Longrightarrow> causal l \<Longrightarrow> history (stored l)"
  unfolding history_def causal_def using stored_inj log_wfD(2) by blast

lemma fresh_new_hash: "log_wf l \<Longrightarrow> fresh_hash h l \<Longrightarrow> new_hash h (stored l)"
  using log_wfD(4) unfolding new_hash_def fresh_hash_def named_parents_def by blast

text \<open>An entry later than all others comes last.\<close>

lemma store_values_snoc:
  assumes "log_wf l" "causal l" "log_sort_fn l = no_zeroes default_sort_fn"
    "log_wf l'" "causal l'" "log_sort_fn l' = no_zeroes default_sort_fn" "stored l' = insert e (stored l)"
    "\<And>x. x \<in> stored l \<Longrightarrow> clock_time (clock x) < clock_time (clock e)"
  shows "log_values l' = log_values l @ [e]"
proof -
  note v = store_values [OF assms(1-3)] and v' = store_values [OF assms(4-6)]
  have less: "store_key x < store_key e" if "x \<in> stored l" for x
    using clock_time_less [OF assms(8) [OF that]] by (simp add: store_key_def)
  have inj: "inj_on store_key (stored l')"
    using stored_inj [OF log_wfD(2) [OF assms(4)]] by (auto simp: inj_on_def store_key_def)
  have "map store_key (log_values l') = map store_key (log_values l @ [e])"
  proof (rule sorted_distinct_set_unique)
    show "sorted (map store_key (log_values l @ [e]))"
      using v(1,3) less by (auto simp: sorted_append less_imp_le)
    have "distinct (map store_key (log_values l))" "distinct (map store_key (log_values l'))"
      using v(2) v'(2) by (auto simp: distinct_map inj_on_def store_key_def)
    moreover have "store_key e \<notin> store_key ` stored l" using less by fastforce
    ultimately show "distinct (map store_key (log_values l @ [e]))" "distinct (map store_key (log_values l'))"
      using v(1) by simp_all
  qed (use v(1) v'(1,3) assms(7) in auto)
  then show ?thesis by (rule map_inj_on) (use inj v(1) v'(1) assms(7) in auto)
qed

text \<open>What the base64 and postcard libraries promise about the operation \<open>op\<close>.\<close>

definition codec_reads :: "op_codec \<Rightarrow> operation \<Rightarrow> bool" where
  "codec_reads cd op \<longleftrightarrow>
     (\<forall>bs. b64_decode cd (b64_encode cd bs) = Inr bs) \<and>
     (\<forall>bs. op_to_allocvec cd op = Inr bs \<longrightarrow> bs \<noteq> [] \<and> op_from_bytes cd bs = Inr (op\<lparr>op_entry := None\<rparr>))"

lemma parse_written:
  assumes "codec_reads cd op" "marshal cd op = Inr data" "payload e = b64_encode cd data"
  shows "parse_operation cd e = Inr (op\<lparr>op_entry := Some e\<rparr>)"
  using assms by (simp add: codec_reads_def marshal_def serialize_def parse_operation_def deserialize_def)

lemma op_effect_entry [simp]: "op_effect (op\<lparr>op_entry := x\<rparr>) k = op_effect op k"
  by (simp add: op_effect_def)

text \<open>
  C6: what an operation writes is read back at once: after a successful write to a well-formed store
  with a document index, every key reads as the operation left it, and the keys it does not touch
  read as before.  The new hash is fresh and the clock is not about to overflow.
\<close>

theorem read_your_writes:
  assumes "store_wf (be_codec env) st" "add_operation env op st = Some (Inr e, st')"
    "bs_index st = Some (DocumentIndex i)" "codec_reads (be_codec env) op" "fresh_hash (hash e) (bs_oplog st)"
    "max_time (clock_time (log_clock (bs_oplog st))) (log_heads (bs_oplog st)) \<noteq> - 1"
  shows "wrapper_get_bytes (bs_log_and_index st') k =
    (case op_effect op k of Some v \<Rightarrow> v | None \<Rightarrow> wrapper_get_bytes (bs_log_and_index st) k)"
  using assms(2)
proof (cases rule: add_operation_cases)
  case (appended data e' l)
  note w = store_wfD [OF assms(1)] and cur = doc_update_covered [OF covered_current]
  have e: "e' = e" using appended(8) by simp
  note app = log_append_facts [OF w(1,2) appended(2) assms(5) [folded e] assms(6)]
  have l: "log_sort_fn l = log_sort_fn (bs_oplog st)" "payload e = b64_encode (be_codec env) data"
    unfolding e [symmetric] by (rule log_appendD [OF appended(2)], simp)+
  have vals: "log_values l = log_values (bs_oplog st) @ [e]"
    by (rule store_values_snoc) (use w app l(1) e in auto)
  have old: "map_of (doc_map i) = map_of (doc_update_index (be_codec env) (log_values (bs_oplog st)) [])"
    using w(7) [OF assms(3)] by simp
  have "entry_effect (be_codec env) e k = op_effect op k"
    using parse_written [OF assms(4) appended(1) l(2)] by (simp add: entry_effect_def)
  moreover have "map_of (doc_update_index (be_codec env) (log_values (bs_oplog st) @ [e]) (doc_map i)) =
      map_of (doc_update_index (be_codec env) (log_values (bs_oplog st) @ [e]) [])"
    by (rule cur [OF old]) auto
  ultimately show ?thesis
    using assms(3) appended(3) old
    by (auto simp: wrapper_get_bytes_def bs_index_update vals index_defs map_of_doc_update_index last_write_snoc
        split: option.splits)
qed simp

subsection \<open>Examples\<close>

text \<open>A client whose blobs are named by the time of the entry, and stores that use it.\<close>

definition demo_client :: client_env where
  "demo_client =
     \<lparr> json_entry = (\<lambda>_ _ _ _ c. replicate (unat (clock_time c)) CHR ''x''), add_bytes = Inr,
       hex_decode = (\<lambda>s. Inr (replicate 31 0 @ [of_nat (length s)])), cat_bytes = (\<lambda>_. Inl ''offline''),
       deserialize_entry = (\<lambda>_. Inl ''offline'') \<rparr>"

definition demo_env :: base_env where
  "demo_env =
     \<lparr> be_client = demo_client, be_now = ''0'', be_codec = demo_codec,
       entries_to_allocvec = (\<lambda>es. Inr (CHR ''E'' # concat (map payload es))),
       entries_from_bytes = (\<lambda>_. Inl ''opaque''),
       cache_put_error = (\<lambda>_ _. None), cache_get_error = (\<lambda>_. None), cache_delete_error = (\<lambda>_. None) \<rparr>"

definition demo_identity :: "string \<Rightarrow> identity" where
  "demo_identity s = \<lparr> identity_id = s, identity_pub_key = s, identity_signatures = \<lparr> sig_id = [], sig_pub_key = [] \<rparr> \<rparr>"

definition demo_store :: "string \<Rightarrow> base_store" where
  "demo_store s = store_new demo_env ''/db'' (demo_identity s) None (\<lambda>_. Inr ()) None None (DocumentIndex \<lparr> doc_map = [] \<rparr>) []"

abbreviation demo_put :: operation where
  "demo_put \<equiv> operation_new (Some ''a'') ''PUT'' (Some ''1'')"

definition demo_written :: "entry \<times> base_store" where
  "demo_written =
     (case add_operation demo_env demo_put (demo_store ''n'') of
        Some (Inr e, st) \<Rightarrow> (e, st)
      | _ \<Rightarrow> (entry_empty, demo_store ''n''))"

lemma store_wf_demo: "store_wf cd (demo_store s)" "stored (bs_oplog (demo_store s)) = {}"
  unfolding demo_store_def by (rule store_wf_new, simp)+

lemma demo_start:
  "add_operation demo_env demo_put (demo_store ''n'') = Some (Inr (fst demo_written), snd demo_written)"
  "max_time (clock_time (log_clock (bs_oplog (demo_store ''n'')))) (log_heads (bs_oplog (demo_store ''n''))) \<noteq> - 1"
  "bs_index (demo_store ''n'') = Some (DocumentIndex \<lparr> doc_map = [] \<rparr>)"
proof -
  have "(case add_operation demo_env demo_put (demo_store ''n'') of Some (Inr e, st) \<Rightarrow> True | _ \<Rightarrow> False)"
    by code_simp
  then show "add_operation demo_env demo_put (demo_store ''n'') = Some (Inr (fst demo_written), snd demo_written)"
    by (auto simp: demo_written_def split: option.splits prod.splits sum.splits)
  show "max_time (clock_time (log_clock (bs_oplog (demo_store ''n'')))) (log_heads (bs_oplog (demo_store ''n''))) \<noteq> - 1"
    by code_simp
  show "bs_index (demo_store ''n'') = Some (DocumentIndex \<lparr> doc_map = [] \<rparr>)"
    by (simp add: demo_store_def store_new_def Let_def)
qed

lemma demo_fresh: "fresh_hash h (bs_oplog (demo_store s))"
  using log_wfD(4) [OF store_wfD(1) [OF store_wf_demo(1)]] store_wf_demo(2)
  by (simp add: fresh_hash_def named_parents_def)

lemma demo_codec_reads: "codec_reads demo_codec demo_put"
  by (simp add: codec_reads_def demo_codec_def operation_new_def)

theorem read_your_writes_witness:
  "wrapper_get_bytes (bs_log_and_index (snd demo_written)) ''a'' = Some ''1''"
proof -
  have "op_effect demo_put ''a'' = Some (Some ''1'')" by (simp add: op_effect_def operation_new_def)
  moreover have codec: "be_codec demo_env = demo_codec" by (simp add: demo_env_def)
  ultimately show ?thesis
    using read_your_writes [OF store_wf_demo(1) demo_start(1,3) demo_codec_reads [folded codec] demo_fresh demo_start(2)]
    by simp
qed

subsection \<open>Replicas and restarts\<close>

definition same_log_index :: "store_index \<Rightarrow> store_index \<Rightarrow> bool" where
  "same_log_index i j =
     (case i of
        DocumentIndex _ \<Rightarrow> (case j of DocumentIndex _ \<Rightarrow> True | _ \<Rightarrow> False)
      | EventIndex _ \<Rightarrow> (case j of EventIndex _ \<Rightarrow> True | _ \<Rightarrow> False)
      | _ \<Rightarrow> False)"

lemma same_log_index_sym: "same_log_index i j \<Longrightarrow> same_log_index j i"
  by (cases i; cases j) (simp_all add: same_log_index_def)

lemma same_log_index_reads:
  assumes "index_current cd vs i" "index_current cd vs j" "same_log_index i j"
  shows "si_get_bytes i k = si_get_bytes j k"
  using assms by (cases i; cases j) (simp_all add: same_log_index_def index_defs split: option.splits)

lemma stores_agree:
  assumes "store_wf cd a" "store_wf cd b" "stored (bs_oplog a) = stored (bs_oplog b)"
  shows "log_values (bs_oplog a) = log_values (bs_oplog b)"
    "bs_index a = Some i \<Longrightarrow> bs_index b = Some j \<Longrightarrow> same_log_index i j \<Longrightarrow>
       wrapper_get_bytes (bs_log_and_index a) k = wrapper_get_bytes (bs_log_and_index b) k"
proof -
  note wa = store_wfD [OF assms(1)] and wb = store_wfD [OF assms(2)]
  show vals: "log_values (bs_oplog a) = log_values (bs_oplog b)"
    by (rule store_values_determined [OF wa(1-3) wb(1-3) assms(3)])
  show "bs_index a = Some i \<Longrightarrow> bs_index b = Some j \<Longrightarrow> same_log_index i j \<Longrightarrow>
       wrapper_get_bytes (bs_log_and_index a) k = wrapper_get_bytes (bs_log_and_index b) k"
    using wa(7) [of i] wb(7) [of j] vals same_log_index_reads by (auto simp: wrapper_get_bytes_def)
qed

lemma sync_clock_frames [simp]:
  "stored (sync_clock_from_heads l) = stored l" "log_wf (sync_clock_from_heads l) = log_wf l"
  "log_sort_fn (sync_clock_from_heads l) = log_sort_fn l" "log_id (sync_clock_from_heads l) = log_id l"
  "log_heads (sync_clock_from_heads l) = log_heads l"
  by (simp_all add: sync_clock_from_heads_def)

text \<open>What postcard promises about the list \<open>es\<close>.\<close>

definition entries_readable :: "base_env \<Rightarrow> entry list \<Rightarrow> bool" where
  "entries_readable env es \<longleftrightarrow>
     (\<forall>bs. entries_to_allocvec env es = Inr bs \<longrightarrow> bs \<noteq> [] \<and> entries_from_bytes env bs = Inr es)"

lemma deserialize_entries:
  "entries_readable env es \<Longrightarrow> serialize (entries_to_allocvec env) es = Inr bs \<Longrightarrow>
     deserialize (entries_from_bytes env) bs = Inr es"
  by (simp add: entries_readable_def serialize_def deserialize_def)

lemma load_heads_Inr:
  assumes "cache_get_error env k = None" "map_of (bs_cache st) k = Some bs"
    "deserialize (entries_from_bytes env) bs = Inr es"
  shows "load_heads_from_cache_key env k st hs = Inr (hs @ es)"
  using assms by (simp add: load_heads_from_cache_key_def cache_get_def)

lemma load_facts:
  assumes wf: "store_wf (be_codec env) st" and G: "history G" "stored (bs_oplog st) \<union> set es \<subseteq> G"
    and heads: "and_then (load_heads_from_cache_key env ''_localHeads'' st [])
             (load_heads_from_cache_key env ''_remoteHeads'' st) = Inr hs"
    and es: "cached_entries env st = es" "es \<noteq> []"
  shows "\<exists>st1. load env st = (Inr (), st1) \<and> store_wf (be_codec env) st1 \<and>
    stored (bs_oplog st1) = stored (bs_oplog st) \<union> set es \<and>
    bs_index st1 = map_option (si_update_index (be_codec env) (log_values (bs_oplog st1))) (bs_index st)"
proof -
  define st1 where "st1 = emit (EventLoad (bs_address st) []) (observe (emit_started (length hs)) st)"
  define l where "l = add_entries es (bs_oplog st)"
  define st2 where "st2 = load_progress es (set_oplog (sync_clock_from_heads l) st1)"
  define st3 where "st3 = emit (EventReady (bs_address st) hs) (observe (emit_ready hs) (snd (update_index env st2)))"
  have "cache_get env k st1 = cache_get env k st" for k
    by (simp add: cache_get_def st1_def split: option.splits)
  then have "cached_entries env st1 = es"
    using es(1) by (simp add: cached_entries_def)
  moreover have "bs_oplog st1 = bs_oplog st" by (simp add: st1_def)
  ultimately have load: "load env st = (Inr (), st3)"
    using heads es(2)
    by (simp add: load_def st1_def [symmetric] Let_def fold_add_counted l_def [symmetric] st2_def [symmetric]
        st3_def [symmetric])
  note w = store_wfD [OF wf]
  have inj: "inj_on hash (stored (bs_oplog st) \<union> set es)"
    using G unfolding history_def by (meson inj_on_subset)
  have st: "stored l = stored (bs_oplog st) \<union> set es"
    unfolding l_def by (rule stored_add_entries [OF w(1) inj])
  have obs: "observer_wf (bs_observer st2)" using w(6) by (simp add: st2_def st1_def observer_wf_emit)
  have frame: "bs_oplog st2 = sync_clock_from_heads l" "bs_index st2 = bs_index st" "bs_sort_fn st2 = bs_sort_fn st"
    "bs_id st2 = bs_id st"
    by (simp_all add: st2_def st1_def)
  have "store_wf (be_codec env) (snd (update_index env st2))"
  proof (rule store_wf_update_index)
    show "log_wf (bs_oplog st2)" using log_wf_add_entries [OF w(1)] by (simp add: frame(1) l_def)
    show "causal (bs_oplog st2)" using history_causal [OF G(1)] G(2) st by (simp add: frame(1))
    show "set (log_values (bs_oplog st)) \<subseteq> stored (bs_oplog st2)"
      using store_values(1) [OF w(1-3)] st by (simp add: frame(1))
    show "index_current (be_codec env) (log_values (bs_oplog st)) i" if "bs_index st2 = Some i" for i
      using w(7) that frame(2) by simp
  qed (use w obs frame in \<open>simp_all add: l_def sort_fn_add_entries\<close>)
  then have "store_wf (be_codec env) st3"
    by (rule store_wf_frame) (use obs in \<open>simp_all add: st3_def observer_wf_emit\<close>)
  moreover have "bs_oplog st3 = bs_oplog st2" "bs_index st3 = bs_index (snd (update_index env st2))"
    by (simp_all add: st3_def)
  ultimately show ?thesis using load st frame by (auto simp: bs_index_update)
qed

lemma add_operation_stored:
  assumes "store_wf (be_codec env) st" "add_operation env op st = Some (Inr e, st')"
    "fresh_hash (hash e) (bs_oplog st)"
    "max_time (clock_time (log_clock (bs_oplog st))) (log_heads (bs_oplog st)) \<noteq> - 1"
  shows "store_wf (be_codec env) st'" "stored (bs_oplog st') = insert e (stored (bs_oplog st))"
proof -
  note w = store_wfD [OF assms(1)]
  have "new_hash (hash x) (stored (bs_oplog st))" if "written env op st = Some x" for x
  proof -
    have "x = e" using assms(2) that by (cases rule: add_operation_cases) (auto simp: written_def)
    then show ?thesis using fresh_new_hash [OF w(1) assms(3)] by simp
  qed
  from add_operation_facts [OF assms(1) history_of_log [OF w(1,2)] order_refl assms(2) this assms(4)]
  show "store_wf (be_codec env) st'" "stored (bs_oplog st') = insert e (stored (bs_oplog st))" by simp_all
qed


definition demo_disk_env :: base_env where
  "demo_disk_env = demo_env\<lparr>entries_from_bytes := (\<lambda>_. Inr [fst demo_written])\<rparr>"


subsection \<open>Limits\<close>

text \<open>
  An entry of a log with another identifier that the log does not hold is counted as loaded
  by \<open>load_more_from\<close>, but the join keeps only entries of its own identifier: the entry is not in
  the log afterwards.
\<close>

theorem load_more_from_foreign_entry:
  assumes "store_wf (be_codec env) st" "entry_id e \<noteq> bs_id st" "log_get (bs_oplog st) (hash e) = None"
  shows "fst (load_more_from env [e] st) = 1 \<and> \<not> log_has (bs_oplog (snd (load_more_from env [e] st))) (hash e)"
proof -
  let ?t = "create_temporary_log_with_entry env st e" and ?l = "bs_oplog st"
  note w = store_wfD [OF assms(1)]
  have t: "log_id ?t = bs_id st" "log_heads ?t = [e]" "log_get ?t h = (if h = hash e then Some e else None)" for h
    by (simp_all add: create_temporary_log_with_entry_def log_new_def log_dedup_def dedup_by_def log_get_def
        insert_entries_def Let_def)
  have diff: "log_diff ?t ?l = []"
    using assms(2,3) w(5) by (simp add: log_diff_def t)
  have entries: "log_entries (join_merge ?l ?t) = log_entries ?l"
    by (simp add: join_merge_def diff Let_def)
  obtain l' where join: "log_join ?l ?t None = Some l'" "log_entries l' = log_entries ?l"
    using t(1) w(5) entries by (simp add: log_join_def Let_def)
  have not: "\<not> log_has ?l (hash e)" using assms(3) by (simp add: log_has_def log_get_def)
  define st1 where "st1 = observe (emit_progress (hash e) e 1 1) (set_oplog l' st)"
  have "fold (join_one env 1) (enumerate 0 [e]) (0, st) = (1, st1)"
    using join(1) not by (simp add: join_one_def st1_def)
  moreover have "log_entries (bs_oplog st1) = log_entries ?l" by (simp add: st1_def join(2))
  ultimately show ?thesis
    using not by (simp add: load_more_from_def Let_def log_has_def)
qed

theorem load_more_from_foreign_entry_witness:
  "fst (load_more_from demo_env [entry_empty\<lparr>hash := 7\<rparr>] (demo_store ''n'')) = 1 \<and>
   \<not> log_has (bs_oplog (snd (load_more_from demo_env [entry_empty\<lparr>hash := 7\<rparr>] (demo_store ''n'')))) 7"
proof -
  have "entry_id (entry_empty\<lparr>hash := 7\<rparr>) \<noteq> bs_id (demo_store ''n'')"
    by (simp add: entry_empty_def demo_store_def store_new_def Let_def)
  moreover have "log_get (bs_oplog (demo_store ''n'')) 7 = None" by code_simp
  ultimately show ?thesis
    using load_more_from_foreign_entry [OF store_wf_demo(1), of "entry_empty\<lparr>hash := 7\<rparr>" "''n''" demo_env] by simp
qed

text \<open>
  A store answers \<^verbatim>\<open>can_write\<close> by the public key of an identity, while the simple controller lets
  entries in by the identifier: the two disagree on an identity whose identifier is not its key.
\<close>

lemma can_write_by_public_key:
  assumes "bs_access st = simple_controller (\<lambda>_. Inr ()) \<lparr> allowed_keys = [(''write'', [''key''])] \<rparr>"
    "get_identity e = \<lparr> identity_id = ''name'', identity_pub_key = ''key'', identity_signatures = s \<rparr>"
  shows "can_write st (get_identity e)" "isl (ac_can_append (bs_access st) e)"
  using assms
  by (simp_all add: can_write_def simple_controller_def simple_authorized_by_role_def keys_of_def
      simple_can_append_def Let_def)

text \<open>A reset store holds nothing, in its log, its index and the cache, and it stays closed.\<close>

lemma reset_facts:
  shows "stored (bs_oplog (reset env st)) = {}" "wrapper_get_bytes (bs_log_and_index (reset env st)) k = None"
    "bs_closed (reset env st)"
    "(\<And>c. cache_delete_error env c = None) \<Longrightarrow> c \<in> set reset_keys \<Longrightarrow> map_of (bs_cache (reset env st)) c = None"
proof -
  have del: "bs_log_and_index (fold (cache_delete env) ks s) = bs_log_and_index s \<and> bs_closed (fold (cache_delete env) ks s) = bs_closed s" for ks s
    by (induction ks arbitrary: s) (simp_all add: cache_delete_def split: option.splits)
  show "stored (bs_oplog (reset env st)) = {}"
    by (simp add: reset_def Let_def emit_def del wrapper_clear_def stored_def ran_def log_get_def log_new_def insert_entries_def)
  show "wrapper_get_bytes (bs_log_and_index (reset env st)) k = None"
    by (simp add: reset_def Let_def emit_def del wrapper_clear_def wrapper_get_bytes_def si.clear_get
        close_store_def split: option.splits)
  show "bs_closed (reset env st)" by (simp add: reset_def Let_def emit_def del close_store_def)
  assume ok: "\<And>c. cache_delete_error env c = None" and "c \<in> set reset_keys"
  have "map_of (bs_cache (fold (cache_delete env) ks s)) c = (if c \<in> set ks then None else map_of (bs_cache s) c)" for ks s
    by (induction ks arbitrary: s) (simp_all add: cache_delete_def ok delete_conv)
  then show "map_of (bs_cache (reset env st)) c = None"
    using \<open>c \<in> set reset_keys\<close> by (simp add: reset_def Let_def emit_def)
qed

lemmas wrapper_defs = wrapper_contains_key_def wrapper_get_bytes_def wrapper_keys_def wrapper_len_def
  wrapper_is_empty_def wrapper_clear_def

interpretation wrapper: store_index_contract wrapper_contains_key wrapper_get_bytes wrapper_keys wrapper_len
  wrapper_is_empty wrapper_clear "\<lambda>li. \<forall>i. li_index li = Some i \<longrightarrow> si_invar i"
proof unfold_locales
  fix li :: log_and_index and k
  show "wrapper_contains_key li k \<longleftrightarrow> wrapper_get_bytes li k \<noteq> None"
    by (cases "li_index li") (simp_all add: wrapper_defs si.contains_get)
  show "\<forall>i. li_index li = Some i \<longrightarrow> si_invar i \<Longrightarrow> k \<in> set (wrapper_keys li) \<Longrightarrow> wrapper_contains_key li k"
    by (cases "li_index li") (simp_all add: wrapper_defs si.keys_contains)
  show "\<forall>i. li_index li = Some i \<longrightarrow> si_invar i \<Longrightarrow> distinct (wrapper_keys li)"
    by (cases "li_index li") (simp_all add: wrapper_defs si.keys_distinct)
  show "wrapper_len li = length (wrapper_keys li)"
    by (cases "li_index li") (simp_all add: wrapper_defs si.len_keys)
  show "wrapper_is_empty li \<longleftrightarrow> wrapper_len li = 0"
    by (cases "li_index li") (simp_all add: wrapper_defs si.empty_len)
  show "wrapper_get_bytes (wrapper_clear li) k = None" "\<forall>i. li_index (wrapper_clear li) = Some i \<longrightarrow> si_invar i"
    by (cases "li_index li"; simp add: wrapper_defs si.clear_get si.clear_invar)+
qed

end
