(* ===== verification/Replica_Network.thy ===== *)
theory Replica_Network
  imports Store_Correct
begin

text \<open>
  Replicas of one database on a network: each is a base store, writes through \<open>add_operation\<close> and
  receives entries through \<open>sync\<close>.  A message carries any entries written so far, so messages may
  be late, repeated, reordered or incomplete, and lost ones are messages never delivered.  A network
  state is the set of entries written so far together with the stores.
\<close>

type_synonym network = "entry set \<times> (nat \<Rightarrow> base_store)"

inductive net_step :: "(nat \<Rightarrow> base_env) \<Rightarrow> network \<Rightarrow> network \<Rightarrow> bool" for env where
  net_write:
    "add_operation (env i) op (N i) = Some (r, st) \<Longrightarrow>
     (\<And>e. written (env i) op (N i) = Some e \<Longrightarrow> new_hash (hash e) G) \<Longrightarrow>
     max_time (clock_time (log_clock (bs_oplog (N i)))) (log_heads (bs_oplog (N i))) \<noteq> - 1 \<Longrightarrow>
     net_step env (G, N) (G \<union> stored (bs_oplog st), N(i := st))"
| net_deliver: "set hs \<subseteq> G \<Longrightarrow> net_step env (G, N) (G, N(j := sync (env j) hs (N j)))"
| net_refresh: "net_step env (G, N) (G, N(i := snd (update_index (env i) (N i))))"

definition net_start :: "op_codec \<Rightarrow> network \<Rightarrow> bool" where
  "net_start cd S \<longleftrightarrow> fst S = {} \<and> (\<forall>i. store_wf cd (snd S i) \<and> stored (bs_oplog (snd S i)) = {})"

definition net_reachable :: "(nat \<Rightarrow> base_env) \<Rightarrow> op_codec \<Rightarrow> network \<Rightarrow> bool" where
  "net_reachable env cd S \<longleftrightarrow> (\<exists>S0. net_start cd S0 \<and> (net_step env)\<^sup>*\<^sup>* S0 S)"

definition net_inv :: "op_codec \<Rightarrow> network \<Rightarrow> bool" where
  "net_inv cd S \<longleftrightarrow>
     history (fst S) \<and> (\<forall>i. store_wf cd (snd S i) \<and> stored (bs_oplog (snd S i)) \<subseteq> fst S)"

lemma store_wf_refresh:
  assumes "store_wf (be_codec env) st"
  shows "store_wf (be_codec env) (snd (update_index env st))"
proof -
  note w = store_wfD [OF assms]
  show ?thesis
    by (rule store_wf_update_index [OF w(1-6), where vs = "log_values (bs_oplog st)"])
      (use w(7) store_values(1) [OF w(1-3)] in simp_all)
qed

lemma net_inv_step:
  assumes "net_step env S S'" "\<And>i. be_codec (env i) = cd" "net_inv cd S"
  shows "net_inv cd S'"
  using assms(1)
proof (cases rule: net_step.cases)
  case (net_write i op N r st G)
  have wf: "store_wf (be_codec (env i)) (N i)" and G: "history G" "stored (bs_oplog (N i)) \<subseteq> G"
    using assms(2,3) net_write(1) by (simp_all add: net_inv_def)
  from add_operation_facts [OF wf G net_write(3-5)] assms(2,3) net_write(1,2)
  show ?thesis by (auto simp: net_inv_def)
next
  case (net_deliver hs G N j)
  have wf: "store_wf (be_codec (env j)) (N j)" and G: "history G" "stored (bs_oplog (N j)) \<union> set hs \<subseteq> G"
    using assms(2,3) net_deliver by (simp_all add: net_inv_def)
  from sync_facts(1,2) [OF wf G] assms(2,3) net_deliver G(2) show ?thesis
    by (auto simp: net_inv_def)
next
  case (net_refresh G N i)
  then show ?thesis
    using store_wf_refresh [of "env i" "N i"] assms(2,3) by (simp add: net_inv_def)
qed

lemma net_inv_reachable:
  assumes "net_reachable env cd S" "\<And>i. be_codec (env i) = cd"
  shows "net_inv cd S"
proof -
  obtain S0 where "net_start cd S0" and steps: "(net_step env)\<^sup>*\<^sup>* S0 S"
    using assms(1) by (auto simp: net_reachable_def)
  then have "net_inv cd S0" by (simp add: net_start_def net_inv_def)
  with steps show ?thesis by (induction rule: rtranclp_induct) (simp_all add: net_inv_step [OF _ assms(2)])
qed

text \<open>Receiving everything another replica holds, and two replicas doing so in turn.\<close>

lemma sync_all_stored:
  assumes "net_inv cd (G, N)" "\<And>i. be_codec (env i) = cd"
    "\<forall>e\<in>stored (bs_oplog (N i)) - stored (bs_oplog (N j)). accepted (N j) e"
  shows "store_wf cd (sync (env j) (log_values (bs_oplog (N i))) (N j))"
    "stored (bs_oplog (sync (env j) (log_values (bs_oplog (N i))) (N j))) = stored (bs_oplog (N j)) \<union> stored (bs_oplog (N i))"
proof -
  note inv = assms(1) [unfolded net_inv_def fst_conv snd_conv]
  have wi: "store_wf cd (N i)" and wj: "store_wf (be_codec (env j)) (N j)" using inv assms(2) by simp_all
  note vals = store_values(1) [OF store_wfD(1-3) [OF wi]]
  have "stored (bs_oplog (N j)) \<union> set (log_values (bs_oplog (N i))) \<subseteq> G" using inv vals by simp
  note sync = sync_facts [OF wj _ this]
  show "store_wf cd (sync (env j) (log_values (bs_oplog (N i))) (N j))" using sync(1) inv assms(2) by simp
  show "stored (bs_oplog (sync (env j) (log_values (bs_oplog (N i))) (N j))) = stored (bs_oplog (N j)) \<union> stored (bs_oplog (N i))"
    using sync(2) inv vals assms(3) by auto
qed

definition pull :: "(nat \<Rightarrow> base_env) \<Rightarrow> nat \<Rightarrow> nat \<Rightarrow> (nat \<Rightarrow> base_store) \<Rightarrow> nat \<Rightarrow> base_store" where
  "pull env i j N = N(j := sync (env j) (log_values (bs_oplog (N i))) (N j))"

lemma net_pull:
  assumes "net_inv cd (G, N)"
  shows "net_step env (G, N) (G, pull env i j N)"
proof -
  note inv = assms [unfolded net_inv_def fst_conv snd_conv]
  have "store_wf cd (N i)" using inv by simp
  from store_values(1) [OF store_wfD(1-3) [OF this]] inv
  show ?thesis unfolding pull_def by (intro net_deliver) simp
qed

lemma exchange_facts:
  assumes "net_inv cd (G, N)" "\<And>i. be_codec (env i) = cd" "i \<noteq> j"
    "\<forall>e\<in>stored (bs_oplog (N i)). accepted (N j) e" "\<forall>e\<in>stored (bs_oplog (N j)). accepted (N i) e"
  defines "N' \<equiv> pull env j i (pull env i j N)"
  shows "net_inv cd (G, N')"
    "stored (bs_oplog (N' i)) = stored (bs_oplog (N i)) \<union> stored (bs_oplog (N j))"
    "stored (bs_oplog (N' j)) = stored (bs_oplog (N i)) \<union> stored (bs_oplog (N j))"
proof -
  let ?N1 = "pull env i j N"
  have inv1: "net_inv cd (G, ?N1)" by (rule net_inv_step [where env = env, OF net_pull assms(2)]) (rule assms(1))+
  show "net_inv cd (G, N')" unfolding N'_def by (rule net_inv_step [where env = env, OF net_pull assms(2)]) (rule inv1)+
  have j: "stored (bs_oplog (?N1 j)) = stored (bs_oplog (N i)) \<union> stored (bs_oplog (N j))"
    using sync_all_stored(2) [where env = env and i = i and j = j, OF assms(1,2)] assms(4) by (auto simp: pull_def)
  have i: "?N1 i = N i" using assms(3) by (simp add: pull_def)
  show "stored (bs_oplog (N' j)) = stored (bs_oplog (N i)) \<union> stored (bs_oplog (N j))"
    using j assms(3) by (simp add: N'_def pull_def [of env j i])
  have "\<forall>e\<in>stored (bs_oplog (?N1 j)) - stored (bs_oplog (?N1 i)). accepted (?N1 i) e"
    using assms(5) by (auto simp: i j)
  from sync_all_stored(2) [where env = env, OF inv1 assms(2) this] show "stored (bs_oplog (N' i)) = stored (bs_oplog (N i)) \<union> stored (bs_oplog (N j))"
    by (auto simp: N'_def pull_def [of env j i] i j)
qed

subsection \<open>An example network\<close>

definition demo_net :: network where
  "demo_net = ({}, \<lambda>i. if i = 0 then demo_store ''n'' else demo_store ''m'')"

definition demo_net_written :: network where
  "demo_net_written =
     (stored (bs_oplog (snd demo_written)), (snd demo_net)(0 := snd demo_written))"

lemma demo_net_reachable: "net_reachable (\<lambda>_. demo_env) demo_codec demo_net_written"
proof -
  have "net_start demo_codec demo_net"
    by (simp add: net_start_def demo_net_def store_wf_demo)
  moreover have "net_step (\<lambda>_. demo_env) ({}, snd demo_net) ({} \<union> stored (bs_oplog (snd demo_written)), (snd demo_net)(0 := snd demo_written))"
  proof (rule net_write [where op = demo_put and r = "Inr (fst demo_written)"])
    show "add_operation demo_env demo_put (snd demo_net 0) = Some (Inr (fst demo_written), snd demo_written)"
      using demo_start(1) by (simp add: demo_net_def)
    show "max_time (clock_time (log_clock (bs_oplog (snd demo_net 0)))) (log_heads (bs_oplog (snd demo_net 0))) \<noteq> - 1"
      using demo_start(2) by (simp add: demo_net_def)
  qed (simp add: new_hash_def)
  moreover have "demo_net = ({}, snd demo_net)" by (simp add: demo_net_def)
  ultimately show ?thesis
    unfolding net_reachable_def demo_net_written_def by (metis Un_empty_left r_into_rtranclp)
qed

lemma demo_net_accepts:
  "\<forall>e\<in>stored (bs_oplog (snd demo_net_written 0)). accepted (snd demo_net_written 1) e"
  "\<forall>e\<in>stored (bs_oplog (snd demo_net_written 1)). accepted (snd demo_net_written 0) e"
proof -
  have "stored (bs_oplog (snd demo_written)) = {fst demo_written}"
    using add_operation_stored(2) [OF store_wf_demo(1) demo_start(1) demo_fresh demo_start(2)] store_wf_demo(2) by simp
  moreover have "accepted (demo_store ''m'') (fst demo_written)" unfolding accepted_def by code_simp
  ultimately show "\<forall>e\<in>stored (bs_oplog (snd demo_net_written 0)). accepted (snd demo_net_written 1) e"
    by (simp add: demo_net_written_def demo_net_def)
  show "\<forall>e\<in>stored (bs_oplog (snd demo_net_written 1)). accepted (snd demo_net_written 0) e"
    by (simp add: demo_net_written_def demo_net_def store_wf_demo(2))
qed

end
