(* ===== verification/Event_Log.thy ===== *)
theory Event_Log
  imports Store_Correct
begin

text \<open>
  The event log store (\<^verbatim>\<open>src/stores/event_log_store/mod.rs\<close>): appending events to a base store whose
  index caches the whole log, and querying them by hash bounds and amount.  The channel between
  \<^verbatim>\<open>stream\<close> and its receivers is a list; a receiver that goes away only cuts it short.
\<close>

record stream_options =
  so_gt :: "hash option"
  so_gte :: "hash option"
  so_lt :: "hash option"
  so_lte :: "hash option"
  so_amount :: "int option"

definition stream_options_default :: stream_options where
  "stream_options_default = \<lparr> so_gt = None, so_gte = None, so_lt = None, so_lte = None, so_amount = None \<rparr>"

definition read :: "entry list \<Rightarrow> hash option \<Rightarrow> nat \<Rightarrow> bool \<Rightarrow> entry list" where
  "read ops h amount inclusive =
     (if amount = 0 then []
      else case (case h of None \<Rightarrow> Some 0 | Some x \<Rightarrow> position (\<lambda>e. hash e = x) ops) of
             None \<Rightarrow> []
           | Some start \<Rightarrow> take amount (drop (if inclusive then start else start + 1) ops))"

definition optimized_index_query :: "store_index \<Rightarrow> stream_options \<Rightarrow> entry list option" where
  "optimized_index_query index opts =
     (if \<not> si_supports_entry_queries index then None
      else if \<not> 0 < si_len index then None
      else if so_gt opts = None \<and> so_gte opts = None \<and> so_lt opts = None \<and> so_lte opts = None then
        (case so_amount opts of
           None \<Rightarrow> si_get_last_entries index (si_len index)
         | Some a \<Rightarrow>
             if 0 < a then si_get_last_entries index (min (nat a) (si_len index))
             else if a = -1 then si_get_last_entries index (si_len index)
             else None)
      else case so_gte opts of
             Some h \<Rightarrow>
               if so_amount opts = Some 1 \<and> so_gt opts = None \<and> so_lt opts = None \<and> so_lte opts = None
               then (case si_get_entry_by_hash index h of Some e \<Rightarrow> Some [e] | None \<Rightarrow> Some [])
               else None
           | None \<Rightarrow> None)"

definition query_events :: "entry list \<Rightarrow> stream_options \<Rightarrow> entry list" where
  "query_events events opts =
     (let amount = (case so_amount opts of Some a \<Rightarrow> if -1 < a then nat a else length events | None \<Rightarrow> length events)
      in if so_gt opts \<noteq> None \<or> so_gte opts \<noteq> None then
           read events (case so_gt opts of Some h \<Rightarrow> Some h | None \<Rightarrow> so_gte opts) amount (so_gte opts \<noteq> None)
         else
           let h = (case so_lt opts of Some x \<Rightarrow> Some x | None \<Rightarrow> so_lte opts)
           in rev (read (rev events) h amount (so_lte opts \<noteq> None \<or> h = None)))"

definition query :: "base_store \<Rightarrow> stream_options option \<Rightarrow> entry list" where
  "query st options =
     (let opts = (case options of Some o1 \<Rightarrow> o1 | None \<Rightarrow> stream_options_default);
          events = (case bs_index st of
              None \<Rightarrow> log_values (bs_oplog st)
            | Some i \<Rightarrow>
                (case optimized_index_query i opts of
                   Some es \<Rightarrow> es
                 | None \<Rightarrow> log_values (bs_oplog st)))
      in query_events events opts)"

fun parse_all :: "op_codec \<Rightarrow> entry list \<Rightarrow> operation list \<times> guardian_error option" where
  "parse_all cd [] = ([], None)"
| "parse_all cd (e # es) =
     (case parse_operation cd e of
        Inl err \<Rightarrow> ([], Some (StoreError (''unable to parse operation: '' @ display_error err)))
      | Inr op \<Rightarrow> (let r = parse_all cd es in (op # fst r, snd r)))"

text \<open>The operations sent, and the error that ended the stream if one did.\<close>

definition stream :: "op_codec \<Rightarrow> base_store \<Rightarrow> stream_options option \<Rightarrow> operation list \<times> guardian_error option" where
  "stream cd st options = parse_all cd (query st options)"

definition list_operations :: "op_codec \<Rightarrow> base_store \<Rightarrow> stream_options option \<Rightarrow> operation list" where
  "list_operations cd st options = fst (stream cd st options)"

definition get_operation :: "op_codec \<Rightarrow> (hash \<Rightarrow> string) \<Rightarrow> base_store \<Rightarrow> hash \<Rightarrow> guardian_error + operation" where
  "get_operation cd hex st h =
     (case stream cd st (Some (stream_options_default\<lparr>so_gte := Some h, so_amount := Some 1\<rparr>)) of
        (_, Some err) \<Rightarrow> Inl err
      | ([], None) \<Rightarrow> Inl (StoreError (''No operation found for Hash: '' @ hex h))
      | (op # _, None) \<Rightarrow> Inr op)"

definition add_event :: "base_env \<Rightarrow> bytes \<Rightarrow> base_store \<Rightarrow> ((guardian_error + operation) \<times> base_store) option" where
  "add_event env val st =
     (if val = [] then Some (Inl (StoreError ''Cannot add empty data to EventLogStore''), st)
      else case add_operation env (operation_new None ''ADD'' (Some val)) st of
             None \<Rightarrow> None
           | Some (Inl err, st') \<Rightarrow> Some (Inl (StoreError (''Failed to add operation to log: '' @ display_error err)), st')
           | Some (Inr e, st') \<Rightarrow>
               Some (map_err (\<lambda>err. StoreError (''Failed to parse newly created entry: '' @ display_error err))
                       (parse_operation (be_codec env) e), st'))"

subsection \<open>The index does not change the answers\<close>

lemma rev_take_rev: "rev (take n (rev xs)) = drop (length xs - n) xs"
  by (simp add: take_rev)

lemma read_all: "read ops None n True = take n ops"
  by (simp add: read_def)

lemma take_1_drop: "n < length xs \<Longrightarrow> take 1 (drop n xs) = [xs ! n]"
  by (simp add: take_Suc_conv_app_nth)

lemma read_hash_one:
  "read ops (Some h) 1 True = (case find (\<lambda>e. hash e = h) ops of Some e \<Rightarrow> [e] | None \<Rightarrow> [])"
proof (cases "position (\<lambda>e. hash e = h) ops")
  case None
  then show ?thesis by (simp add: read_def position_find)
next
  case (Some n)
  then show ?thesis using take_1_drop [OF position_less [OF Some]] by (simp add: read_def position_find)
qed

lemma find_SomeD: "find P xs = Some x \<Longrightarrow> P x"
  by (auto simp: find_Some_iff)

lemma optimized_query_events:
  assumes "optimized_index_query (EventIndex i) opts = Some es"
  shows "query_events es opts = query_events (entries_cache i) opts"
proof -
  let ?c = "entries_cache i"
  have last: "si_get_last_entries (EventIndex i) n = Some (drop (length ?c - n) ?c)" for n
    by (simp add: si_last_entries event_last_entries_def)
  have len: "si_len (EventIndex i) = length ?c" by (simp add: index_defs)
  consider (all) "es = ?c"
    | (amount) a where "so_gt opts = None" "so_gte opts = None" "so_lt opts = None" "so_lte opts = None"
        "so_amount opts = Some a" "0 < a" "es = drop (length ?c - min (nat a) (length ?c)) ?c"
    | (point) h where "so_gte opts = Some h" "so_amount opts = Some 1" "so_gt opts = None"
        "es = (case find (\<lambda>e. hash e = h) ?c of Some e \<Rightarrow> [e] | None \<Rightarrow> [])"
    using assms unfolding optimized_index_query_def last len
    by (auto simp: si_get_entry_by_hash_def event_entry_by_hash_def split: if_splits option.splits)
  then show ?thesis
  proof cases
    case all
    then show ?thesis by simp
  next
    case (amount a)
    then show ?thesis by (simp add: query_events_def Let_def read_all rev_take_rev min_def)
  next
    case (point h)
    have "query_events ops opts = read ops (Some h) 1 True" for ops
      using point(1-3) by (simp add: query_events_def Let_def)
    moreover have "read es (Some h) 1 True = es"
      unfolding read_hash_one point(4) by (auto split: option.splits dest: find_SomeD)
    ultimately show ?thesis using read_hash_one [of ?c h] point(4) by simp
  qed
qed

lemma query_through_index:
  assumes "store_wf cd st" "bs_index st = Some (EventIndex i)"
  shows "query st options =
    query_events (log_values (bs_oplog st)) (case options of Some o1 \<Rightarrow> o1 | None \<Rightarrow> stream_options_default)"
proof -
  have "entries_cache i = log_values (bs_oplog st)" using store_wfD(7) [OF assms] by simp
  then show ?thesis
    using optimized_query_events [of i] assms(2) by (simp add: query_def Let_def split: option.splits)
qed

text \<open>
  C23: on a well-formed event log store a query answers the same through the index as on the log
  itself, for every combination of bounds and amount.
\<close>

theorem event_query_index_transparent:
  assumes "store_wf cd st" "bs_index st = Some (EventIndex i)"
  shows "query st options =
    query_events (log_values (bs_oplog st)) (case options of Some o1 \<Rightarrow> o1 | None \<Rightarrow> stream_options_default)"
  using query_through_index [OF assms] .

text \<open>With no bound and no amount, a query is the whole log.\<close>

lemma query_all:
  assumes "store_wf cd st" "bs_index st = Some (EventIndex i)"
  shows "query st None = log_values (bs_oplog st)"
  unfolding query_through_index [OF assms]
  by (simp add: query_events_def stream_options_default_def read_all Let_def)

lemma query_hash:
  assumes "store_wf cd st" "bs_index st = Some (EventIndex i)" "e \<in> stored (bs_oplog st)"
  shows "query st (Some (stream_options_default\<lparr>so_gte := Some (hash e), so_amount := Some 1\<rparr>)) = [e]"
proof -
  note w = store_wfD [OF assms(1)]
  have "find (\<lambda>x. hash x = hash e) (log_values (bs_oplog st)) = Some e"
    using store_values(1,2) [OF w(1-3)] assms(3) find_hash_iff by blast
  then show ?thesis
    unfolding query_through_index [OF assms(1,2)]
    using read_hash_one [of "log_values (bs_oplog st)" "hash e"]
    by (simp add: query_events_def stream_options_default_def Let_def)
qed

text \<open>
  C24: adding an event appends it: the log read afterwards is the log read before followed by the new
  entry, the operation returned carries the data and that entry, and it is found under its hash.
\<close>

theorem add_event_appends:
  assumes "store_wf (be_codec env) st" "bs_index st = Some (EventIndex i)"
    "add_event env val st = Some (Inr op, st')" "codec_reads (be_codec env) (operation_new None ''ADD'' (Some val))"
    "\<And>e. written env (operation_new None ''ADD'' (Some val)) st = Some e \<Longrightarrow> fresh_hash (hash e) (bs_oplog st)"
    "max_time (clock_time (log_clock (bs_oplog st))) (log_heads (bs_oplog st)) \<noteq> - 1"
  shows "\<exists>e. op_entry op = Some e \<and> op_value op = val \<and> query st' None = query st None @ [e] \<and>
    get_operation (be_codec env) hex st' (hash e) = Inr op"
proof -
  let ?op = "operation_new None ''ADD'' (Some val)"
  obtain e where add: "add_operation env ?op st = Some (Inr e, st')" and parse: "parse_operation (be_codec env) e = Inr op"
    using assms(3) by (auto simp: add_event_def split: if_splits option.splits sum.splits prod.splits)
  note w = store_wfD [OF assms(1)]
  from add show ?thesis
  proof (cases rule: add_operation_cases)
    case (appended data e' l)
    have e: "e' = e" using appended(8) by simp
    have we: "written env ?op st = Some e" using appended(1,2) e by (simp add: written_def)
    note st' = add_operation_stored [OF assms(1) add assms(5) [OF we] assms(6)]
    note app = log_append_facts [OF w(1,2) appended(2) assms(5) [OF we, folded e] assms(6)]
    have l: "log_sort_fn l = log_sort_fn (bs_oplog st)" "payload e = b64_encode (be_codec env) data"
      unfolding e [symmetric] by (rule log_appendD [OF appended(2)], simp)+
    have log: "bs_oplog st' = l" using appended(3) by simp
    have vals: "log_values l = log_values (bs_oplog st) @ [e]"
      by (rule store_values_snoc) (use w app l(1) e in auto)
    obtain i' where i': "bs_index st' = Some (EventIndex i')"
      using appended(3) assms(2) by (simp add: bs_index_update)
    have "op = ?op\<lparr>op_entry := Some e\<rparr>" using parse_written [OF assms(4) appended(1) l(2)] parse by simp
    moreover have "get_operation (be_codec env) hex st' (hash e) = Inr op"
      using query_hash [OF st'(1) i', of e] st'(2) parse by (simp add: get_operation_def stream_def)
    ultimately show ?thesis
      using query_all [OF assms(1,2)] query_all [OF st'(1) i'] vals log by (simp add: operation_new_def)
  qed simp
qed

subsection \<open>Examples\<close>

definition demo_event_env :: base_env where
  "demo_event_env = demo_env\<lparr>be_codec := demo_codec\<lparr>op_to_allocvec := (\<lambda>op. Inr (CHR ''A'' # op_value op)),
     op_from_bytes := (\<lambda>bs. Inr (operation_new None ''ADD'' (Some (tl bs))))\<rparr>\<rparr>"

definition demo_events :: base_store where
  "demo_events = store_new demo_event_env ''/log'' (demo_identity ''n'') None (\<lambda>_. Inr ()) None None
     (EventIndex \<lparr> entries_cache = [] \<rparr>) []"

lemma store_wf_demo_events: "store_wf cd demo_events" "stored (bs_oplog demo_events) = {}"
  unfolding demo_events_def by (rule store_wf_new, simp)+

lemma demo_events_index: "bs_index demo_events = Some (EventIndex \<lparr> entries_cache = [] \<rparr>)"
  by (simp add: demo_events_def store_new_def Let_def)

definition demo_added :: "operation \<times> base_store" where
  "demo_added =
     (case add_event demo_event_env ''hi'' demo_events of
        Some (Inr op, st) \<Rightarrow> (op, st)
      | _ \<Rightarrow> (operation_new None [] None, demo_events))"

lemma demo_added: "add_event demo_event_env ''hi'' demo_events = Some (Inr (fst demo_added), snd demo_added)"
proof -
  have "(case add_event demo_event_env ''hi'' demo_events of Some (Inr e, st) \<Rightarrow> True | _ \<Rightarrow> False)"
    by code_simp
  then show ?thesis by (auto simp: demo_added_def split: option.splits prod.splits sum.splits)
qed

theorem event_query_index_transparent_witness:
  "query demo_events (Some (stream_options_default\<lparr>so_amount := Some 1\<rparr>)) =
     query_events (log_values (bs_oplog demo_events)) (stream_options_default\<lparr>so_amount := Some 1\<rparr>)"
  using event_query_index_transparent [OF store_wf_demo_events(1) demo_events_index,
      of "Some (stream_options_default\<lparr>so_amount := Some 1\<rparr>)"] by simp

theorem add_event_appends_witness:
  "\<exists>e. query (snd demo_added) None = query demo_events None @ [e] \<and> op_value (fst demo_added) = ''hi''"
proof -
  have codec: "codec_reads (be_codec demo_event_env) (operation_new None ''ADD'' (Some ''hi''))"
    by (simp add: codec_reads_def demo_event_env_def demo_codec_def operation_new_def)
  have fresh: "fresh_hash h (bs_oplog demo_events)" for h
    using log_wfD(4) [OF store_wfD(1) [OF store_wf_demo_events(1)]] store_wf_demo_events(2)
    by (simp add: fresh_hash_def named_parents_def)
  have time: "max_time (clock_time (log_clock (bs_oplog demo_events))) (log_heads (bs_oplog demo_events)) \<noteq> - 1"
    by code_simp
  from add_event_appends [OF store_wf_demo_events(1) demo_events_index demo_added codec fresh time]
  show ?thesis by blast
qed

end
