(* ===== verification/Store_Snapshot.thy ===== *)
theory Store_Snapshot
  imports Store_Correct
begin

text \<open>
  Snapshots of a base store: writing one (\<^verbatim>\<open>save_snapshot\<close> of \<^verbatim>\<open>src/stores/base_store/utils.rs\<close>) and
  loading one (\<^verbatim>\<open>load_from_snapshot\<close> and \<^verbatim>\<open>process_snapshot_data\<close> of \<^verbatim>\<open>src/stores/base_store/mod.rs\<close>).
  A byte is a character here; \<open>from_utf8_lossy\<close> is the conversion of the standard library, which
  puts U+FFFD (the bytes EF BF BD) in place of every ill-formed sequence.
\<close>

subsection \<open>Bytes\<close>

definition byte_at :: "bytes \<Rightarrow> nat \<Rightarrow> nat" where
  "byte_at bs i = (if i < length bs then of_char (bs ! i) else 0)"

definition is_cont :: "nat \<Rightarrow> bool" where
  "is_cont b \<longleftrightarrow> 0x80 \<le> b \<and> b \<le> 0xBF"

text \<open>The length of the first sequence of a non-empty text, and whether it is well formed.\<close>

definition utf8_step :: "bytes \<Rightarrow> nat \<times> bool" where
  "utf8_step bs =
     (let b0 = byte_at bs 0; b1 = byte_at bs 1; b2 = byte_at bs 2; b3 = byte_at bs 3
      in if b0 < 0x80 then (1, True)
         else if 0xC2 \<le> b0 \<and> b0 \<le> 0xDF then (if is_cont b1 then (2, True) else (1, False))
         else if 0xE0 \<le> b0 \<and> b0 \<le> 0xEF then
           (if \<not> (is_cont b1 \<and> (b0 = 0xE0 \<longrightarrow> 0xA0 \<le> b1) \<and> (b0 = 0xED \<longrightarrow> b1 \<le> 0x9F)) then (1, False)
            else if is_cont b2 then (3, True) else (2, False))
         else if 0xF0 \<le> b0 \<and> b0 \<le> 0xF4 then
           (if \<not> (is_cont b1 \<and> (b0 = 0xF0 \<longrightarrow> 0x90 \<le> b1) \<and> (b0 = 0xF4 \<longrightarrow> b1 \<le> 0x8F)) then (1, False)
            else if \<not> is_cont b2 then (2, False)
            else if is_cont b3 then (4, True) else (3, False))
         else (1, False))"

lemma utf8_step_pos: "0 < fst (utf8_step bs)"
  by (simp add: utf8_step_def Let_def)

function from_utf8_lossy :: "bytes \<Rightarrow> bytes" where
  "from_utf8_lossy bs =
     (if bs = [] then []
      else let (n, ok) = utf8_step bs
           in (if ok then take n bs else [CHR 0xEF, CHR 0xBF, CHR 0xBD]) @ from_utf8_lossy (drop n bs))"
  by pat_completeness auto
termination
proof (relation "measure length", goal_cases)
  case (2 bs x n ok)
  from 2(2,3) have "n = fst (utf8_step bs)" by (metis fst_conv)
  then show ?case using 2(1) utf8_step_pos [of bs] by simp
qed simp

declare from_utf8_lossy.simps [simp del]

function valid_utf8 :: "bytes \<Rightarrow> bool" where
  "valid_utf8 bs =
     (if bs = [] then True else let (n, ok) = utf8_step bs in ok \<and> valid_utf8 (drop n bs))"
  by pat_completeness auto
termination
proof (relation "measure length", goal_cases)
  case (2 bs x n ok)
  from 2(2,3) have "n = fst (utf8_step bs)" by (metis fst_conv)
  then show ?case using 2(1) utf8_step_pos [of bs] by simp
qed simp

declare valid_utf8.simps [simp del]

lemma utf8_step_ascii: "(of_char c :: nat) < 0x80 \<Longrightarrow> utf8_step (c # bs) = (1, True)"
  by (simp add: utf8_step_def byte_at_def Let_def)

lemma ascii_utf8:
  assumes "\<forall>c\<in>set bs. (of_char c :: nat) < 0x80"
  shows "from_utf8_lossy bs = bs" "valid_utf8 bs"
proof -
  have "from_utf8_lossy bs = bs \<and> valid_utf8 bs"
    using assms
  proof (induction bs)
    case (Cons c bs)
    then show ?case
      by (subst from_utf8_lossy.simps, subst valid_utf8.simps) (simp add: utf8_step_ascii)
  qed (simp_all add: from_utf8_lossy.simps valid_utf8.simps)
  then show "from_utf8_lossy bs = bs" "valid_utf8 bs" by simp_all
qed

text \<open>Big-endian integers; a length is cut to 16 bits when it is written.\<close>

definition be16 :: "nat \<Rightarrow> bytes" where
  "be16 n = [char_of (n div 256 mod 256), char_of (n mod 256)]"

definition be32 :: "nat \<Rightarrow> bytes" where
  "be32 n = [char_of (n div 2 ^ 24 mod 256), char_of (n div 2 ^ 16 mod 256), char_of (n div 256 mod 256), char_of (n mod 256)]"

definition read_be32 :: "bytes \<Rightarrow> nat" where
  "read_be32 bs = byte_at bs 0 * 2 ^ 24 + byte_at bs 1 * 2 ^ 16 + byte_at bs 2 * 256 + byte_at bs 3"

subsection \<open>Writing\<close>

record store_snapshot =
  ss_id :: string
  ss_heads :: "entry list"
  ss_size :: nat
  ss_type :: string

text \<open>
  The external code a snapshot goes through: the serialisation of headers, entries and hash lists,
  the hexadecimal name of a blob, the blob store's read by that name, and the wording of the
  standard library's decoding error.
\<close>

record snapshot_env =
  sn_base :: base_env
  header_to_allocvec :: "store_snapshot \<Rightarrow> string + bytes"
  entry_to_allocvec :: "entry \<Rightarrow> string + bytes"
  entry_from_bytes :: "bytes \<Rightarrow> string + entry"
  hashes_to_allocvec :: "hash list \<Rightarrow> string + bytes"
  hex_encode :: "hash \<Rightarrow> string"
  cat_path :: "string \<Rightarrow> guardian_error + bytes"
  utf8_error :: "bytes \<Rightarrow> string"

definition snapshot_header :: "string \<Rightarrow> base_store \<Rightarrow> store_snapshot" where
  "snapshot_header t st =
     \<lparr> ss_id = log_id (bs_oplog st), ss_heads = log_sorted_heads (bs_oplog st),
       ss_size = log_length (bs_oplog st), ss_type = t \<rparr>"

fun write_entries :: "snapshot_env \<Rightarrow> entry list \<Rightarrow> bytes \<Rightarrow> guardian_error + bytes" where
  "write_entries env [] rs = Inr rs"
| "write_entries env (e # es) rs =
     (case serialize (entry_to_allocvec env) e of
        Inl err \<Rightarrow> Inl (StoreError (''Unable to serialize entry: '' @ display_error err))
      | Inr bs \<Rightarrow> write_entries env es (rs @ be16 (length bs) @ bs))"

definition snapshot_bytes :: "snapshot_env \<Rightarrow> string \<Rightarrow> base_store \<Rightarrow> guardian_error + bytes" where
  "snapshot_bytes env t st =
     (case serialize (header_to_allocvec env) (snapshot_header t st) of
        Inl err \<Rightarrow> Inl (StoreError (''Unable to serialize snapshot header: '' @ display_error err))
      | Inr hb \<Rightarrow>
          and_then (write_entries env (log_values (bs_oplog st)) (be16 (length hb) @ hb))
            (\<lambda>rs. Inr (rs @ [CHR 0x00])))"

definition store_blob :: "snapshot_env \<Rightarrow> bytes \<Rightarrow> guardian_error + hash" where
  "store_blob env rs =
     (case add_bytes (be_client (sn_base env)) rs of
        Inl err \<Rightarrow> Inl (StoreError (''Unable to save log data on store: '' @ err))
      | Inr response \<Rightarrow>
          (case hex_decode (be_client (sn_base env)) response of
             Inl err \<Rightarrow> Inl (StoreError (''Failed to decode hash hex: '' @ err))
           | Inr bs \<Rightarrow>
               if length bs \<noteq> 32 then Inl (StoreError ''Invalid hash length'') else Inr (word_rcat bs)))"

definition save_snapshot :: "snapshot_env \<Rightarrow> string \<Rightarrow> base_store \<Rightarrow> (guardian_error + hash) \<times> base_store" where
  "save_snapshot env t st =
     (case and_then (snapshot_bytes env t st) (store_blob env) of
        Inl err \<Rightarrow> (Inl err, st)
      | Inr h \<Rightarrow>
          (case cache_put (sn_base env) ''snapshot'' (hex_encode env h) st of
             (Inl err, st1) \<Rightarrow> (Inl (StoreError (''Unable to add snapshot data to cache: '' @ display_error err)), st1)
           | (Inr _, st1) \<Rightarrow>
               (case serialize (hashes_to_allocvec env) [] of
                  Inl err \<Rightarrow> (Inl (StoreError (''Unable to marshal unfinished hashes: '' @ display_error err)), st1)
                | Inr q \<Rightarrow>
                    (case cache_put (sn_base env) ''queue'' q st1 of
                       (Inl err, st2) \<Rightarrow> (Inl (StoreError (''Unable to add unfinished data to cache: '' @ display_error err)), st2)
                     | (Inr _, st2) \<Rightarrow> (Inr h, st2)))))"

subsection \<open>Loading\<close>

text \<open>
  The number of entries read and the store, or \<open>None\<close> where appending panics.  An entry the log
  does not hold is appended as a new one, with its payload as text.
\<close>

definition snapshot_entry :: "snapshot_env \<Rightarrow> entry \<Rightarrow> base_store \<Rightarrow> base_store option" where
  "snapshot_entry env e st =
     (if log_has (bs_oplog st) (hash e) then Some st
      else map_option (\<lambda>r. set_oplog (snd r) st)
             (log_append (be_client (sn_base env)) (bs_oplog st) (from_utf8_lossy (payload e)) None))"

function snapshot_loop :: "snapshot_env \<Rightarrow> bytes \<Rightarrow> nat \<Rightarrow> base_store \<Rightarrow> (nat \<times> base_store) option" where
  "snapshot_loop env data entries_loaded st =
     (if length data < 4 then Some (entries_loaded, st)
      else let entry_size = read_be32 (take 4 data); rest = drop 4 data
           in if length rest < entry_size then Some (entries_loaded, st)
              else case deserialize (entry_from_bytes env) (take entry_size rest) of
                     Inl _ \<Rightarrow> snapshot_loop env (drop entry_size rest) entries_loaded st
                   | Inr e \<Rightarrow>
                       (case snapshot_entry env e st of
                          None \<Rightarrow> None
                        | Some st' \<Rightarrow> snapshot_loop env (drop entry_size rest) (entries_loaded + 1) st'))"
  by pat_completeness auto
termination
  by (relation "measure (\<lambda>(env, data, entries_loaded, st). length data)") simp_all

declare snapshot_loop.simps [simp del]

definition process_snapshot_data :: "snapshot_env \<Rightarrow> bytes \<Rightarrow> base_store \<Rightarrow> (nat \<times> base_store) option" where
  "process_snapshot_data env data st = snapshot_loop env data 0 st"

definition load_from_snapshot :: "snapshot_env \<Rightarrow> base_store \<Rightarrow> ((guardian_error + unit) \<times> base_store) option" where
  "load_from_snapshot env st =
     (let base = sn_base env;
          st1 = (case cache_get base ''queue'' st of
              Inr (Some qb) \<Rightarrow>
                (case deserialize (entries_from_bytes base) qb of
                   Inr queue \<Rightarrow> sync base queue st
                 | Inl _ \<Rightarrow> st)
            | _ \<Rightarrow> st)
      in case cache_get base ''snapshot'' st1 of
           Inr (Some path) \<Rightarrow>
             (if \<not> valid_utf8 path then
                Some (Inl (StoreError (''Invalid UTF-8 in snapshot path: '' @ utf8_error env path)), st1)
              else case cat_path env path of
                     Inl _ \<Rightarrow> Some (Inr (), snd (update_index base st1))
                   | Inr data \<Rightarrow>
                       map_option (\<lambda>(_, st2). (Inr (), snd (update_index base st2)))
                         (process_snapshot_data env data st1))
         | _ \<Rightarrow> Some (Inr (), snd (update_index base st1)))"

subsection \<open>What is written is not what is read\<close>

lemma of_char_char_of: "(of_char (char_of (n :: nat)) :: nat) = n mod 256"
  by simp

lemma write_entries_append: "write_entries env es rs = Inr out \<Longrightarrow> \<exists>r. out = rs @ r"
proof (induction es arbitrary: rs)
  case (Cons e es)
  from Cons.prems obtain bs where "write_entries env es (rs @ be16 (length bs) @ bs) = Inr out"
    by (auto split: sum.splits)
  from Cons.IH [OF this] show ?case by auto
qed simp

lemma snapshot_layout:
  assumes "snapshot_bytes env t st = Inr data" "header_to_allocvec env (snapshot_header t st) = Inr hb"
  shows "\<exists>r. data = be16 (length hb) @ hb @ r"
proof -
  obtain rs where "write_entries env (log_values (bs_oplog st)) (be16 (length hb) @ hb) = Inr rs" "data = rs @ [CHR 0x00]"
    using assms by (auto simp: snapshot_bytes_def serialize_def and_then_Inr)
  moreover from write_entries_append [OF this(1)] obtain r where "rs = (be16 (length hb) @ hb) @ r" ..
  ultimately have "data = be16 (length hb) @ hb @ (r @ [CHR 0x00])" by simp
  then show ?thesis ..
qed

text \<open>The first four bytes of a snapshot read as a length: at least the header's length times 65536.\<close>

lemma read_be32_header:
  assumes "2 \<le> length hb" "length hb < 65536"
  shows "length hb * 65536 \<le> read_be32 (take 4 (be16 (length hb) @ hb @ r))"
proof -
  let ?n = "length hb"
  obtain c d hb' where hb: "hb = c # d # hb'" using assms(1) by (cases hb; cases "tl hb") auto
  have t: "take 4 (be16 ?n @ hb @ r) = [char_of (?n div 256 mod 256), char_of (?n mod 256), c, d]"
    by (simp add: be16_def hb)
  have m: "?n div 256 mod 256 = ?n div 256" using assms(2) by simp
  have scale: "(a * 256 + b) * 65536 = a * 2 ^ 24 + b * 2 ^ 16" for a b :: nat by simp
  have "?n * 65536 = (?n div 256 * 256 + ?n mod 256) * 65536" by (simp only: div_mult_mod_eq)
  also have "\<dots> = ?n div 256 * 2 ^ 24 + ?n mod 256 * 2 ^ 16" by (rule scale)
  also have "\<dots> \<le> read_be32 [char_of (?n div 256 mod 256), char_of (?n mod 256), c, d]"
    unfolding read_be32_def byte_at_def by (simp add: m)
  finally show ?thesis unfolding t .
qed

lemma process_snapshot_header:
  assumes "data = be16 (length hb) @ hb @ r" "2 \<le> length hb" "length hb < 65536" "length data \<le> 65536 * length hb"
  shows "process_snapshot_data env data st = Some (0, st)"
proof -
  have four: "4 \<le> length data" using assms(1,2) by (simp add: be16_def)
  have "length data \<le> read_be32 (take 4 data)"
    using read_be32_header [OF assms(2,3), of r] assms(1,4) by simp
  with four have "length (drop 4 data) < read_be32 (take 4 data)" by simp
  with four show ?thesis
    unfolding process_snapshot_data_def by (subst snapshot_loop.simps) (simp add: Let_def)
qed

lemma read_be32_be32:
  assumes "n < 2 ^ 32"
  shows "read_be32 (be32 n) = n"
proof -
  define a where "a = n div 256"
  define b where "b = a div 256"
  define c where "c = b div 256"
  have d: "n div 2 ^ 16 = b" "n div 2 ^ 24 = c"
    by (simp_all add: a_def b_def c_def flip: div_mult2_eq)
  have "c < 256" using assms by (simp add: a_def b_def c_def flip: div_mult2_eq)
  then have c: "c mod 256 = c" by simp
  have scale: "x * 2 ^ 24 + y * 2 ^ 16 + z * 256 + w = ((x * 256 + y) * 256 + z) * 256 + w" for x y z w :: nat
    by simp
  have "read_be32 (be32 n) = c * 2 ^ 24 + b mod 256 * 2 ^ 16 + a mod 256 * 256 + n mod 256"
    unfolding read_be32_def be32_def d a_def [symmetric] c by (simp add: byte_at_def c)
  also have "\<dots> = n" unfolding scale by (simp only: div_mult_mod_eq a_def b_def c_def)
  finally show ?thesis .
qed

text \<open>A length in four bytes, as the loader expects it, is read as written.\<close>

lemma snapshot_loop_frame:
  assumes "length b < 2 ^ 32"
  shows "snapshot_loop env (be32 (length b) @ b @ rest) n st =
     (case deserialize (entry_from_bytes env) b of
        Inl _ \<Rightarrow> snapshot_loop env rest n st
      | Inr e \<Rightarrow> (case snapshot_entry env e st of
                    None \<Rightarrow> None | Some st' \<Rightarrow> snapshot_loop env rest (n + 1) st'))"
proof -
  let ?n = "length b"
  have len: "length (be32 ?n) = 4" by (simp add: be32_def)
  have rest: "drop ?n (b @ rest) = rest" by simp
  have "read_be32 (be32 ?n) = ?n" by (rule read_be32_be32 [OF assms])
  with len show ?thesis by (subst snapshot_loop.simps) (simp add: Let_def rest split: sum.split option.split)
qed

text \<open>
  C30: Saving a snapshot and loading it again restores nothing.  The writer starts with a 16-bit
  length and a header, the loader takes the first four bytes as the 32-bit length of an entry, finds
  less data than that, and stops.  This holds whenever the header has between 2 and 65535 bytes and
  the snapshot at most 65536 bytes per byte of its header, the cache can be read, and the blob store
  returns what was stored.  The load reports success, and all it does is to refresh the index.
\<close>

theorem snapshot_not_restored:
  assumes "save_snapshot env t st = (Inr h, saved)"
    and "snapshot_bytes env t st = Inr data" "header_to_allocvec env (snapshot_header t st) = Inr hb"
    and "2 \<le> length hb" "length hb < 65536" "length data \<le> 65536 * length hb"
    and "bs_cache st' = bs_cache saved" "\<And>k. cache_get_error (sn_base env) k = None"
    and "\<And>q. hashes_to_allocvec env [] = Inr q \<Longrightarrow> entries_from_bytes (sn_base env) q = Inr []"
    and "valid_utf8 (hex_encode env h)" "cat_path env (hex_encode env h) = Inr data"
  shows "load_from_snapshot env st' = Some (Inr (), snd (update_index (sn_base env) st')) \<and>
    bs_oplog (snd (update_index (sn_base env) st')) = bs_oplog st'"
proof -
  obtain q where q: "hashes_to_allocvec env [] = Inr q"
    "bs_cache saved = AList.update ''queue'' q (AList.update ''snapshot'' (hex_encode env h) (bs_cache st))"
    using assms(1)
    by (auto simp: save_snapshot_def cache_put_def serialize_def map_err_Inr split: sum.splits option.splits)
  have queue: "cache_get (sn_base env) ''queue'' st' = Inr (Some q)"
    and path: "cache_get (sn_base env) ''snapshot'' st' = Inr (Some (hex_encode env h))"
    using assms(7,8) q(2) by (simp_all add: cache_get_def update_conv)
  have "(case deserialize (entries_from_bytes (sn_base env)) q of Inr es \<Rightarrow> sync (sn_base env) es st' | Inl _ \<Rightarrow> st') = st'"
    using assms(9) [OF q(1)] by (simp add: deserialize_def sync_def)
  moreover obtain r where "data = be16 (length hb) @ hb @ r" using snapshot_layout [OF assms(2,3)] by blast
  note process_snapshot_header [OF this assms(4-6), of env st']
  ultimately have "load_from_snapshot env st' = Some (Inr (), snd (update_index (sn_base env) st'))"
    using assms(10,11) by (simp add: load_from_snapshot_def queue path)
  moreover have "bs_oplog (snd (update_index (sn_base env) st')) = bs_oplog st'"
    by (simp add: update_index_def update_index_safe_def Let_def split: option.split)
  ultimately show ?thesis ..
qed

definition demo_snapshot_env :: "bytes \<Rightarrow> snapshot_env" where
  "demo_snapshot_env data =
     \<lparr> sn_base = demo_env\<lparr>entries_from_bytes := (\<lambda>_. Inr [])\<rparr>,
       header_to_allocvec = (\<lambda>s. Inr (''header '' @ ss_id s)), entry_to_allocvec = (\<lambda>e. Inr (payload e)),
       entry_from_bytes = (\<lambda>_. Inl ''opaque''), hashes_to_allocvec = (\<lambda>_. Inr ''Q''),
       hex_encode = (\<lambda>_. ''ab''), cat_path = (\<lambda>_. Inr data), utf8_error = (\<lambda>_. []) \<rparr>"

definition demo_snapshot :: bytes where
  "demo_snapshot =
     (case snapshot_bytes (demo_snapshot_env []) ''eventlog'' (snd demo_written) of Inr d \<Rightarrow> d | Inl _ \<Rightarrow> [])"

lemma demo_log_id: "log_id (bs_oplog (snd demo_written)) = ''/db''"
  by code_simp

theorem snapshot_not_restored_witness:
  "(\<exists>st1. load_from_snapshot (demo_snapshot_env demo_snapshot) ((demo_store ''n'')\<lparr>bs_cache :=
       bs_cache (snd (save_snapshot (demo_snapshot_env demo_snapshot) ''eventlog'' (snd demo_written)))\<rparr>) =
       Some (Inr (), st1) \<and> bs_oplog st1 = bs_oplog (demo_store ''n'')) \<and>
   log_values (bs_oplog (snd demo_written)) \<noteq> []"
proof -
  let ?env = "demo_snapshot_env demo_snapshot"
  let ?saved = "save_snapshot ?env ''eventlog'' (snd demo_written)"
  have saved: "\<not> isl (fst ?saved)" by code_simp
  then obtain h where h: "?saved = (Inr h, snd ?saved)" by (cases ?saved, cases "fst ?saved") auto
  have "\<not> isl (snapshot_bytes ?env ''eventlog'' (snd demo_written))" by code_simp
  moreover have "snapshot_bytes ?env ''eventlog'' (snd demo_written) = snapshot_bytes (demo_snapshot_env []) ''eventlog'' (snd demo_written)"
    by code_simp
  ultimately have data: "snapshot_bytes ?env ''eventlog'' (snd demo_written) = Inr demo_snapshot"
    by (auto simp: demo_snapshot_def split: sum.splits)
  have hb: "header_to_allocvec ?env (snapshot_header ''eventlog'' (snd demo_written)) = Inr ''header /db''"
    by (simp add: demo_snapshot_env_def snapshot_header_def demo_log_id)
  have "length demo_snapshot \<le> 200" by code_simp
  then have sz: "length demo_snapshot \<le> 65536 * length ''header /db''" by simp
  have vals: "log_values (bs_oplog (snd demo_written)) \<noteq> []" by code_simp
  have "valid_utf8 (hex_encode ?env h)" by (simp add: demo_snapshot_env_def ascii_utf8)
  then show ?thesis
    using snapshot_not_restored [OF h data hb _ _ sz, of "(demo_store ''n'')\<lparr>bs_cache := bs_cache (snd ?saved)\<rparr>"] vals
    by (simp add: demo_snapshot_env_def demo_env_def)
qed

end
