(* ===== verification/Sql_Catalog.thy ===== *)
theory Sql_Catalog
  imports Sql_Types "HOL-Library.Product_Lexorder"
begin

text \<open>
  The relational catalog (\<^verbatim>\<open>src/relational/catalog.rs\<close>): schemas, tables with their constraints,
  indexes, sequences, views, functions, dictionaries, embedding rules and extensions, and every
  operation that changes them.  A qualified name is the pair of schema and name, ordered as the
  derived order of the struct.  The two acceleration maps (\<open>tbl_column_map\<close> of a table, and
  \<open>cat_table_to_indexes\<close>) are part of the state, and the invariant \<open>catalog_wf\<close> says they agree with
  what they accelerate.
\<close>

subsection \<open>Data\<close>

type_synonym qualified_name = "string \<times> string"

definition to_string_qualified :: "qualified_name \<Rightarrow> string" where
  "to_string_qualified q = fst q @ ''.'' @ snd q"

text \<open>The text form as a key of a JSON object, and its reader.\<close>

definition serialize_name :: "qualified_name \<Rightarrow> string" where
  "serialize_name q = fst q @ [CHR 0x1F] @ snd q"

definition deserialize_name :: "string \<Rightarrow> qualified_name option" where
  "deserialize_name s = split_once CHR 0x1F s"

record schema_def =
  sch_name :: string
  sch_oid :: u32
  sch_owner :: string

record column =
  col_name :: string
  col_ty :: sql_type
  col_nullable :: bool
  col_default :: "string option"
  col_identity_sequence :: "string option"
  col_ordinal :: nat

record key_constraint =
  key_name :: string
  key_columns :: "string list"

datatype referential_action = NoAction | Restrict | Cascade | SetNull | SetDefault

primrec action_sql :: "referential_action \<Rightarrow> string" where
  "action_sql NoAction = ''NO ACTION''"
| "action_sql Restrict = ''RESTRICT''"
| "action_sql Cascade = ''CASCADE''"
| "action_sql SetNull = ''SET NULL''"
| "action_sql SetDefault = ''SET DEFAULT''"

datatype match_type = MatchSimple | MatchFull

datatype deferrable = NotDeferrable | DeferrableImmediate | DeferrableDeferred

definition is_deferrable :: "deferrable \<Rightarrow> bool" where
  "is_deferrable d \<longleftrightarrow> d \<noteq> NotDeferrable"

definition initially_deferred :: "deferrable \<Rightarrow> bool" where
  "initially_deferred d \<longleftrightarrow> d = DeferrableDeferred"

record foreign_key =
  fk_name :: string
  fk_columns :: "string list"
  fk_ref_schema :: string
  fk_ref_table :: string
  fk_ref_columns :: "string list"
  fk_on_delete :: referential_action
  fk_on_update :: referential_action
  fk_match_type :: match_type
  fk_deferrable :: deferrable

record check_constraint =
  check_name :: string
  check_expr :: string

datatype policy_cmd = PolicyAll | PolicySelect | PolicyInsert | PolicyUpdate | PolicyDelete

record policy =
  pol_name :: string
  pol_cmd :: policy_cmd
  pol_roles :: "string list"
  pol_using_expr :: "string option"
  pol_check_expr :: "string option"
  pol_permissive :: bool

datatype trigger_timing = Before | After | InsteadOf
datatype trigger_level = RowLevel | StatementLevel
datatype trigger_event = OnInsert | OnUpdate "string list" | OnDelete | OnTruncate

record trigger_def =
  trg_oid :: u32
  trg_name :: string
  trg_timing :: trigger_timing
  trg_events :: "trigger_event list"
  trg_level :: trigger_level
  trg_when_expr :: "string option"
  trg_function :: qualified_name
  trg_enabled :: bool
  trg_is_constraint :: bool
  trg_deferrable :: bool
  trg_initially_deferred :: bool
  trg_referencing_old :: "string option"
  trg_referencing_new :: "string option"
  trg_on_view :: bool

record sql_table =
  tbl_oid :: u32
  tbl_schema :: string
  tbl_name :: string
  tbl_columns :: "column list"
  tbl_primary_key :: "key_constraint option"
  tbl_uniques :: "key_constraint list"
  tbl_foreign_keys :: "foreign_key list"
  tbl_checks :: "check_constraint list"
  tbl_storage_collection :: string
  tbl_rls_enabled :: bool
  tbl_rls_forced :: bool
  tbl_policies :: "policy list"
  tbl_triggers :: "trigger_def list"
  tbl_column_map :: "(string, nat) hash_map"

definition build_column_map :: "column list \<Rightarrow> (string, nat) hash_map" where
  "build_column_map cs = fold (\<lambda>(i, c). AList.update (col_name c) i) (enumerate 0 cs) []"

definition rebuild_column_map :: "sql_table \<Rightarrow> sql_table" where
  "rebuild_column_map t = t\<lparr>tbl_column_map := build_column_map (tbl_columns t)\<rparr>"

definition column_index :: "sql_table \<Rightarrow> string \<Rightarrow> nat option" where
  "column_index t c = map_of (tbl_column_map t) c"

definition table_column :: "sql_table \<Rightarrow> string \<Rightarrow> column option" where
  "table_column t c = map_option (\<lambda>i. tbl_columns t ! i) (map_of (tbl_column_map t) c)"

definition find_policy :: "sql_table \<Rightarrow> string \<Rightarrow> policy option" where
  "find_policy t n = find (\<lambda>p. pol_name p = n) (tbl_policies t)"

definition find_trigger :: "sql_table \<Rightarrow> string \<Rightarrow> trigger_def option" where
  "find_trigger t n = find (\<lambda>g. trg_name g = n) (tbl_triggers t)"

definition table_qualified :: "sql_table \<Rightarrow> qualified_name" where
  "table_qualified t = (tbl_schema t, tbl_name t)"

definition pk_columns :: "sql_table \<Rightarrow> string list" where
  "pk_columns t = (case tbl_primary_key t of Some pk \<Rightarrow> key_columns pk | None \<Rightarrow> [])"

record index_def =
  ix_oid :: u32
  ix_name :: string
  ix_schema :: string
  ix_table :: string
  ix_columns :: "string list"
  ix_unique :: bool
  ix_primary :: bool
  ix_method :: string
  ix_opclasses :: "string list"
  ix_with_options :: "(string \<times> string) list"

text \<open>The numbers of a sequence are 64-bit integers.\<close>

record sequence_def =
  seq_schema :: string
  seq_name :: string
  seq_current :: int
  seq_increment :: int
  seq_start :: int

record embedding_rule =
  emb_schema :: string
  emb_table :: string
  emb_text_column :: string
  emb_vector_column :: string
  emb_model :: string
  emb_policy :: string

record view_def =
  view_oid :: u32
  view_schema :: string
  view_name :: string
  view_query :: string
  view_columns :: "string list"
  view_triggers :: "trigger_def list"

datatype function_language = SqlLanguage | PlPgSql
datatype function_volatility = Immutable | Stable | Volatile

record function_arg =
  arg_name :: string
  arg_ty :: sql_type

record function_def =
  fn_oid :: u32
  fn_schema :: string
  fn_name :: string
  fn_args :: "function_arg list"
  fn_return_type :: sql_type
  fn_language :: function_language
  fn_volatility :: function_volatility
  fn_strict :: bool
  fn_body :: string
  fn_returns_trigger :: bool

definition arity :: "function_def \<Rightarrow> nat" where
  "arity f = length (fn_args f)"

datatype drop_by_name = Removed | NotFound | Ambiguous

record ts_dictionary =
  tsd_name :: string
  tsd_schema :: string
  tsd_oid :: u32
  tsd_synonyms :: "(string, string list) btree_map"
  tsd_thesaurus :: "(string, string list) btree_map"

record catalog =
  cat_database :: string
  cat_schemas :: "(string, schema_def) btree_map"
  cat_tables :: "(qualified_name, sql_table) btree_map"
  cat_indexes :: "(qualified_name, index_def) btree_map"
  cat_sequences :: "(qualified_name, sequence_def) btree_map"
  cat_views :: "(qualified_name, view_def) btree_map"
  cat_next_oid :: u32
  cat_search_path :: "string list"
  cat_extensions :: "(string, string) btree_map"
  cat_functions :: "function_def list"
  cat_ts_dictionaries :: "ts_dictionary list"
  cat_embedding_rules :: "embedding_rule list"
  cat_table_to_indexes :: "(qualified_name, qualified_name list) hash_map"

text \<open>
  When a catalog is read from storage, the column map of each table and the reverse map from a table
  to its indexes, which are not stored, are rebuilt.
\<close>

definition push_index :: "qualified_name \<times> index_def \<Rightarrow> (qualified_name, qualified_name list) hash_map \<Rightarrow> (qualified_name, qualified_name list) hash_map" where
  "push_index p m =
     (let k = (ix_schema (snd p), ix_table (snd p))
      in AList.update k ((case map_of m k of Some qs \<Rightarrow> qs | None \<Rightarrow> []) @ [fst p]) m)"

definition from_table_de :: "sql_table \<Rightarrow> sql_table" where
  "from_table_de d = rebuild_column_map (d\<lparr>tbl_column_map := []\<rparr>)"

definition from_raw :: "catalog \<Rightarrow> catalog" where
  "from_raw c = c\<lparr>cat_tables := map_values from_table_de (cat_tables c),
                  cat_table_to_indexes := fold push_index (cat_indexes c) []\<rparr>"

definition allocate_oid :: "catalog \<Rightarrow> u32 \<times> catalog" where
  "allocate_oid c = (cat_next_oid c, c\<lparr>cat_next_oid := cat_next_oid c + 1\<rparr>)"

definition add_schema :: "string \<Rightarrow> catalog \<Rightarrow> catalog" where
  "add_schema n c =
     (let (oid, c1) = allocate_oid c
      in c1\<lparr>cat_schemas := btree_insert n \<lparr> sch_name = n, sch_oid = oid, sch_owner = ''guardian'' \<rparr> (cat_schemas c1)\<rparr>)"

definition catalog_new :: "string \<Rightarrow> catalog" where
  "catalog_new database =
     add_schema ''public'' (add_schema ''information_schema'' (add_schema ''pg_catalog''
       \<lparr> cat_database = database, cat_schemas = [], cat_tables = [], cat_indexes = [], cat_sequences = [],
         cat_views = [], cat_next_oid = 16384, cat_search_path = [''public''],
         cat_extensions = btree_insert ''plpgsql'' ''1.0'' [], cat_functions = [],
         cat_ts_dictionaries = [], cat_embedding_rules = [], cat_table_to_indexes = [] \<rparr>))"

subsection \<open>Extensions\<close>

abbreviation sidecar_marker :: string where
  "sidecar_marker \<equiv> ''@sidecar''"

definition strip_sidecar_marker :: "string \<Rightarrow> string" where
  "strip_sidecar_marker v = (case strip_suffix sidecar_marker v of Some w \<Rightarrow> w | None \<Rightarrow> v)"

definition extension_version :: "catalog \<Rightarrow> string \<Rightarrow> string option" where
  "extension_version c n = map_option strip_sidecar_marker (map_of (cat_extensions c) n)"

definition extension_installed :: "catalog \<Rightarrow> string \<Rightarrow> bool" where
  "extension_installed c n \<longleftrightarrow> map_of (cat_extensions c) n \<noteq> None"

definition extension_is_sidecar :: "catalog \<Rightarrow> string \<Rightarrow> bool" where
  "extension_is_sidecar c n =
     (case map_of (cat_extensions c) n of Some v \<Rightarrow> strip_suffix sidecar_marker v \<noteq> None | None \<Rightarrow> False)"

definition install_extension :: "string \<Rightarrow> string \<Rightarrow> catalog \<Rightarrow> bool \<times> catalog" where
  "install_extension n v c =
     (map_of (cat_extensions c) n = None, c\<lparr>cat_extensions := btree_insert n v (cat_extensions c)\<rparr>)"

definition install_sidecar_extension :: "string \<Rightarrow> string \<Rightarrow> catalog \<Rightarrow> bool \<times> catalog" where
  "install_sidecar_extension n v c =
     (map_of (cat_extensions c) n = None,
      c\<lparr>cat_extensions := btree_insert n (v @ sidecar_marker) (cat_extensions c)\<rparr>)"

definition uninstall_extension :: "string \<Rightarrow> catalog \<Rightarrow> bool \<times> catalog" where
  "uninstall_extension n c =
     (map_of (cat_extensions c) n \<noteq> None, c\<lparr>cat_extensions := AList.delete n (cat_extensions c)\<rparr>)"

definition set_extension_version :: "string \<Rightarrow> string \<Rightarrow> catalog \<Rightarrow> bool \<times> catalog" where
  "set_extension_version n v c =
     (case map_of (cat_extensions c) n of
        Some old \<Rightarrow>
          (True, c\<lparr>cat_extensions := btree_insert n
             (if strip_suffix sidecar_marker old \<noteq> None then v @ sidecar_marker else v) (cat_extensions c)\<rparr>)
      | None \<Rightarrow> (False, c))"

subsection \<open>Schemas and names\<close>

definition has_schema :: "catalog \<Rightarrow> string \<Rightarrow> bool" where
  "has_schema c n \<longleftrightarrow> map_of (cat_schemas c) n \<noteq> None"

definition create_schema :: "string \<Rightarrow> bool \<Rightarrow> catalog \<Rightarrow> rel_error + catalog" where
  "create_schema n if_not_exists c =
     (if has_schema c n then (if if_not_exists then Inr c else Inl (DuplicateSchema n))
      else Inr (add_schema n c))"

definition names_object :: "catalog \<Rightarrow> qualified_name \<Rightarrow> bool" where
  "names_object c q \<longleftrightarrow> map_of (cat_tables c) q \<noteq> None \<or> map_of (cat_views c) q \<noteq> None"

definition resolve_table_name :: "catalog \<Rightarrow> string option \<Rightarrow> string \<Rightarrow> qualified_name option" where
  "resolve_table_name c sch n =
     (case sch of
        Some s \<Rightarrow> if names_object c (s, n) then Some (s, n) else None
      | None \<Rightarrow> find (names_object c) (map (\<lambda>s. (s, n)) (cat_search_path c)))"

definition creation_schema :: "catalog \<Rightarrow> string option \<Rightarrow> rel_error + string" where
  "creation_schema c sch =
     (case sch of
        Some s \<Rightarrow> if has_schema c s then Inr s else Inl (UndefinedSchema s)
      | None \<Rightarrow> Inr (case cat_search_path c of s # _ \<Rightarrow> s | [] \<Rightarrow> ''public''))"

subsection \<open>Tables\<close>

definition require_table :: "catalog \<Rightarrow> qualified_name \<Rightarrow> rel_error + sql_table" where
  "require_table c q =
     (case map_of (cat_tables c) q of Some t \<Rightarrow> Inr t | None \<Rightarrow> Inl (UndefinedTable (to_string_qualified q)))"

definition insert_table :: "sql_table \<Rightarrow> catalog \<Rightarrow> rel_error + catalog" where
  "insert_table t c =
     (let q = table_qualified t
      in if names_object c q then Inl (DuplicateTable (to_string_qualified q))
         else if \<not> has_schema c (tbl_schema t) then Inl (UndefinedSchema (tbl_schema t))
         else let t1 = (if tbl_storage_collection t = []
                        then t\<lparr>tbl_storage_collection := ''__gdb_sql_rows_'' @ show_nat (unat (tbl_oid t))\<rparr> else t)
              in Inr (c\<lparr>cat_tables := btree_insert q (rebuild_column_map t1) (cat_tables c)\<rparr>))"

definition references :: "qualified_name \<Rightarrow> foreign_key \<Rightarrow> bool" where
  "references q fk \<longleftrightarrow> fk_ref_schema fk = fst q \<and> fk_ref_table fk = snd q"

definition referencing_foreign_keys :: "catalog \<Rightarrow> qualified_name \<Rightarrow> (qualified_name \<times> foreign_key) list" where
  "referencing_foreign_keys c q =
     concat (map (\<lambda>(_, t). map (Pair (table_qualified t)) (filter (references q) (tbl_foreign_keys t))) (cat_tables c))"

definition named_in :: "catalog \<Rightarrow> string \<Rightarrow> string \<Rightarrow> (qualified_name \<times> foreign_key) list" where
  "named_in c n s =
     concat (map (\<lambda>(_, t). map (Pair (table_qualified t)) (filter (\<lambda>fk. fk_name fk = n) (tbl_foreign_keys t)))
       (filter (\<lambda>(_, t). tbl_schema t = s) (cat_tables c)))"

definition foreign_keys_named :: "catalog \<Rightarrow> string option \<Rightarrow> string \<Rightarrow> (qualified_name \<times> foreign_key) list" where
  "foreign_keys_named c sch n =
     (case find (\<lambda>found. found \<noteq> []) (map (named_in c n) (case sch of Some s \<Rightarrow> [s] | None \<Rightarrow> cat_search_path c)) of
        Some found \<Rightarrow> found | None \<Rightarrow> [])"

definition drop_sequences :: "string \<Rightarrow> column list \<Rightarrow> (qualified_name, sequence_def) btree_map \<Rightarrow> (qualified_name, sequence_def) btree_map" where
  "drop_sequences sch cs m =
     fold (\<lambda>col m. case col_identity_sequence col of Some s \<Rightarrow> AList.delete (sch, s) m | None \<Rightarrow> m) cs m"

definition drop_table_qualified :: "qualified_name \<Rightarrow> catalog \<Rightarrow> rel_error + (sql_table \<times> catalog)" where
  "drop_table_qualified q c =
     (case map_of (cat_tables c) q of
        None \<Rightarrow> Inl (UndefinedTable (to_string_qualified q))
      | Some t \<Rightarrow>
          Inr (t, c\<lparr>
            cat_tables := map_values (\<lambda>u. u\<lparr>tbl_foreign_keys := filter (\<lambda>fk. \<not> references q fk) (tbl_foreign_keys u)\<rparr>)
              (AList.delete q (cat_tables c)),
            cat_indexes := fold AList.delete
              (map fst (filter (\<lambda>(_, i). ix_schema i = fst q \<and> ix_table i = snd q) (cat_indexes c))) (cat_indexes c),
            cat_table_to_indexes := AList.delete q (cat_table_to_indexes c),
            cat_sequences := drop_sequences (fst q) (tbl_columns t) (cat_sequences c)\<rparr>))"

fun drop_tables :: "qualified_name list \<Rightarrow> catalog \<Rightarrow> rel_error + catalog" where
  "drop_tables [] c = Inr c"
| "drop_tables (q # qs) c = and_then (drop_table_qualified q c) (\<lambda>(_, c1). drop_tables qs c1)"

definition drop_schema :: "string \<Rightarrow> bool \<Rightarrow> bool \<Rightarrow> catalog \<Rightarrow> rel_error + catalog" where
  "drop_schema n if_exists cascade c =
     (if \<not> has_schema c n then (if if_exists then Inr c else Inl (UndefinedSchema n))
      else let table_names = filter (\<lambda>q. fst q = n) (map fst (cat_tables c))
           in if table_names \<noteq> [] \<and> \<not> cascade then
                Inl (FeatureNotSupported (''cannot drop schema '' @ n @ '' because it contains objects (use CASCADE)''))
              else and_then (drop_tables table_names c)
                     (\<lambda>c1. Inr (c1\<lparr>cat_schemas := AList.delete n (cat_schemas c1)\<rparr>)))"

subsection \<open>Indexes\<close>

definition indexes_for_table :: "catalog \<Rightarrow> qualified_name \<Rightarrow> index_def list" where
  "indexes_for_table c q =
     (case map_of (cat_table_to_indexes c) q of
        Some names \<Rightarrow> List.map_filter (map_of (cat_indexes c)) names
      | None \<Rightarrow> [])"

definition index_qualified :: "index_def \<Rightarrow> qualified_name" where
  "index_qualified i = (ix_schema i, ix_name i)"

definition insert_index :: "index_def \<Rightarrow> catalog \<Rightarrow> rel_error + catalog" where
  "insert_index i c =
     (let q = index_qualified i
      in if map_of (cat_indexes c) q \<noteq> None then Inl (DuplicateIndex (to_string_qualified q))
         else Inr (c\<lparr>cat_table_to_indexes := push_index (q, i) (cat_table_to_indexes c),
                     cat_indexes := btree_insert q i (cat_indexes c)\<rparr>))"

definition remove_index_name :: "qualified_name \<Rightarrow> qualified_name \<Rightarrow> (qualified_name, qualified_name list) hash_map \<Rightarrow> (qualified_name, qualified_name list) hash_map" where
  "remove_index_name tkey q m =
     (case map_of m tkey of
        None \<Rightarrow> m
      | Some v \<Rightarrow>
          (let v' = filter (\<lambda>iq. iq \<noteq> q) v
           in if v' = [] then AList.delete tkey m else AList.update tkey v' m))"

definition drop_index :: "string option \<Rightarrow> string \<Rightarrow> bool \<Rightarrow> catalog \<Rightarrow> rel_error + catalog" where
  "drop_index sch n if_exists c =
     (case (case sch of
              Some s \<Rightarrow> Some (s, n)
            | None \<Rightarrow> find (\<lambda>q. map_of (cat_indexes c) q \<noteq> None) (map (\<lambda>s. (s, n)) (cat_search_path c))) of
        None \<Rightarrow> if if_exists then Inr c else Inl (UndefinedIndex n)
      | Some q \<Rightarrow>
          (case map_of (cat_indexes c) q of
             Some removed \<Rightarrow>
               Inr (c\<lparr>cat_indexes := AList.delete q (cat_indexes c),
                     cat_table_to_indexes := remove_index_name (ix_schema removed, ix_table removed) q (cat_table_to_indexes c)\<rparr>)
           | None \<Rightarrow> if if_exists then Inr c else Inl (UndefinedIndex (to_string_qualified q))))"

subsection \<open>Sequences and views\<close>

definition create_sequence :: "string \<Rightarrow> string \<Rightarrow> catalog \<Rightarrow> catalog" where
  "create_sequence sch n c =
     (if map_of (cat_sequences c) (sch, n) = None
      then c\<lparr>cat_sequences := btree_insert (sch, n)
             \<lparr> seq_schema = sch, seq_name = n, seq_current = 0, seq_increment = 1, seq_start = 1 \<rparr> (cat_sequences c)\<rparr>
      else c)"

definition next_sequence_value :: "string \<Rightarrow> string \<Rightarrow> catalog \<Rightarrow> rel_error + (int \<times> catalog)" where
  "next_sequence_value sch n c =
     (case map_of (cat_sequences c) (sch, n) of
        None \<Rightarrow> Inl (UndefinedObject (''sequence '' @ sch @ ''.'' @ n))
      | Some s \<Rightarrow>
          (let v = (if seq_current s = 0 then seq_start s else signed_take_bit 63 (seq_current s + seq_increment s))
           in Inr (v, c\<lparr>cat_sequences := btree_insert (sch, n) (s\<lparr>seq_current := v\<rparr>) (cat_sequences c)\<rparr>)))"

definition observe_sequence_value :: "string \<Rightarrow> string \<Rightarrow> int \<Rightarrow> catalog \<Rightarrow> catalog" where
  "observe_sequence_value sch n v c =
     (case map_of (cat_sequences c) (sch, n) of
        Some s \<Rightarrow>
          if seq_current s < v
          then c\<lparr>cat_sequences := btree_insert (sch, n) (s\<lparr>seq_current := v\<rparr>) (cat_sequences c)\<rparr> else c
      | None \<Rightarrow> c)"

definition insert_view :: "view_def \<Rightarrow> catalog \<Rightarrow> rel_error + catalog" where
  "insert_view v c =
     (let q = (view_schema v, view_name v)
      in if names_object c q then Inl (DuplicateTable (to_string_qualified q))
         else Inr (c\<lparr>cat_views := btree_insert q v (cat_views c)\<rparr>))"

definition drop_view :: "qualified_name \<Rightarrow> bool \<Rightarrow> catalog \<Rightarrow> rel_error + catalog" where
  "drop_view q if_exists c =
     (if map_of (cat_views c) q = None \<and> \<not> if_exists then Inl (UndefinedTable (to_string_qualified q))
      else Inr (c\<lparr>cat_views := AList.delete q (cat_views c)\<rparr>))"

subsection \<open>Functions, dictionaries and embedding rules\<close>

definition same_signature :: "string \<Rightarrow> string \<Rightarrow> nat \<Rightarrow> function_def \<Rightarrow> bool" where
  "same_signature sch n ar f \<longleftrightarrow> fn_schema f = sch \<and> fn_name f = n \<and> arity f = ar"

fun first_some :: "('a \<Rightarrow> 'b option) \<Rightarrow> 'a list \<Rightarrow> 'b option" where
  "first_some f [] = None"
| "first_some f (x # xs) = (case f x of Some y \<Rightarrow> Some y | None \<Rightarrow> first_some f xs)"

definition resolve_function_index :: "catalog \<Rightarrow> string option \<Rightarrow> string \<Rightarrow> nat \<Rightarrow> nat option" where
  "resolve_function_index c sch n ar =
     (case sch of
        Some s \<Rightarrow> position (same_signature s n ar) (cat_functions c)
      | None \<Rightarrow> first_some (\<lambda>s. position (same_signature s n ar) (cat_functions c)) (cat_search_path c))"

definition find_function :: "catalog \<Rightarrow> string option \<Rightarrow> string \<Rightarrow> nat \<Rightarrow> function_def option" where
  "find_function c sch n ar = map_option ((!) (cat_functions c)) (resolve_function_index c sch n ar)"

definition insert_function :: "function_def \<Rightarrow> catalog \<Rightarrow> rel_error + catalog" where
  "insert_function d c =
     (if list_ex (same_signature (fn_schema d) (fn_name d) (arity d)) (cat_functions c)
      then Inl (DuplicateFunction (''function '' @ [CHR 0x22] @ fn_name d @ [CHR 0x22] @ '' already exists with same argument count''))
      else Inr (c\<lparr>cat_functions := cat_functions c @ [d]\<rparr>))"

definition replace_function :: "function_def \<Rightarrow> catalog \<Rightarrow> catalog" where
  "replace_function d c =
     (case position (same_signature (fn_schema d) (fn_name d) (arity d)) (cat_functions c) of
        Some i \<Rightarrow> c\<lparr>cat_functions := (cat_functions c)[i := d\<lparr>fn_oid := fn_oid (cat_functions c ! i)\<rparr>]\<rparr>
      | None \<Rightarrow> c\<lparr>cat_functions := cat_functions c @ [d]\<rparr>)"

definition drop_function :: "string option \<Rightarrow> string \<Rightarrow> nat \<Rightarrow> catalog \<Rightarrow> bool \<times> catalog" where
  "drop_function sch n ar c =
     (case resolve_function_index c sch n ar of
        Some i \<Rightarrow> (True, c\<lparr>cat_functions := remove_at i (cat_functions c)\<rparr>)
      | None \<Rightarrow> (False, c))"

definition drop_function_by_name :: "string option \<Rightarrow> string \<Rightarrow> catalog \<Rightarrow> drop_by_name \<times> catalog" where
  "drop_function_by_name sch n c =
     (let matches = map fst (filter (\<lambda>(_, f). fn_name f = n \<and> (case sch of Some s \<Rightarrow> fn_schema f = s | None \<Rightarrow> True))
                      (enumerate 0 (cat_functions c)))
      in case matches of
           [] \<Rightarrow> (NotFound, c)
         | [i] \<Rightarrow> (Removed, c\<lparr>cat_functions := remove_at i (cat_functions c)\<rparr>)
         | _ \<Rightarrow> (Ambiguous, c))"

definition same_rule :: "string \<Rightarrow> string \<Rightarrow> string \<Rightarrow> embedding_rule \<Rightarrow> bool" where
  "same_rule sch t v r \<longleftrightarrow> emb_schema r = sch \<and> emb_table r = t \<and> emb_vector_column r = v"

definition put_embedding_rule :: "embedding_rule \<Rightarrow> catalog \<Rightarrow> catalog" where
  "put_embedding_rule r c =
     c\<lparr>cat_embedding_rules :=
        filter (\<lambda>x. \<not> same_rule (emb_schema r) (emb_table r) (emb_vector_column r) x) (cat_embedding_rules c) @ [r]\<rparr>"

definition drop_embedding_rule :: "string \<Rightarrow> string \<Rightarrow> string \<Rightarrow> catalog \<Rightarrow> bool \<times> catalog" where
  "drop_embedding_rule sch t v c =
     (let rules = filter (\<lambda>x. \<not> same_rule sch t v x) (cat_embedding_rules c)
      in (length rules \<noteq> length (cat_embedding_rules c), c\<lparr>cat_embedding_rules := rules\<rparr>))"

definition insert_ts_dictionary :: "ts_dictionary \<Rightarrow> bool \<Rightarrow> catalog \<Rightarrow> rel_error + catalog" where
  "insert_ts_dictionary d if_not_exists c =
     (if list_ex (\<lambda>x. tsd_schema x = tsd_schema d \<and> tsd_name x = tsd_name d) (cat_ts_dictionaries c)
      then (if if_not_exists then Inr c
            else Inl (DuplicateObject (''text search dictionary '' @ [CHR 0x22] @ tsd_schema d @ ''.'' @ tsd_name d @ [CHR 0x22])))
      else Inr (c\<lparr>cat_ts_dictionaries := cat_ts_dictionaries c @ [d]\<rparr>))"

definition drop_ts_dictionary :: "string option \<Rightarrow> string \<Rightarrow> bool \<Rightarrow> catalog \<Rightarrow> rel_error + (bool \<times> catalog)" where
  "drop_ts_dictionary sch n if_exists c =
     (case position (\<lambda>d. tsd_name d = n \<and> (case sch of Some s \<Rightarrow> tsd_schema d = s | None \<Rightarrow> True)) (cat_ts_dictionaries c) of
        Some i \<Rightarrow> Inr (True, c\<lparr>cat_ts_dictionaries := remove_at i (cat_ts_dictionaries c)\<rparr>)
      | None \<Rightarrow>
          if if_exists then Inr (False, c)
          else Inl (UndefinedObject (''text search dictionary '' @ [CHR 0x22] @ n @ [CHR 0x22])))"

end
