(* ===== verification/Catalog_Correct.thy ===== *)
theory Catalog_Correct
  imports Sql_Catalog
begin

text \<open>
  Correctness of the catalog: in every catalog that the operations can reach, names and keys agree,
  every table lies in a schema, no table has the name of a view, and the two acceleration maps give
  what a search gives.
\<close>

subsection \<open>The invariant\<close>

definition column_map_ok :: "sql_table \<Rightarrow> bool" where
  "column_map_ok t \<longleftrightarrow> tbl_column_map t = build_column_map (tbl_columns t)"

definition tables_wf :: "catalog \<Rightarrow> bool" where
  "tables_wf c \<longleftrightarrow> btree_wf (cat_schemas c) \<and> btree_wf (cat_tables c) \<and> btree_wf (cat_views c) \<and>
     (\<forall>q t. map_of (cat_tables c) q = Some t \<longrightarrow>
        table_qualified t = q \<and> has_schema c (fst q) \<and> column_map_ok t \<and> map_of (cat_views c) q = None)"

definition index_names :: "(qualified_name, qualified_name list) hash_map \<Rightarrow> qualified_name \<Rightarrow> qualified_name list" where
  "index_names m q = (case map_of m q of Some qs \<Rightarrow> qs | None \<Rightarrow> [])"

definition index_table :: "index_def \<Rightarrow> qualified_name" where
  "index_table i = (ix_schema i, ix_table i)"

definition indexes_wf :: "(qualified_name, index_def) btree_map \<Rightarrow> (qualified_name, qualified_name list) hash_map \<Rightarrow> bool" where
  "indexes_wf is m \<longleftrightarrow> btree_wf is \<and> hash_wf m \<and>
     (\<forall>q i. map_of is q = Some i \<longrightarrow> index_qualified i = q) \<and>
     (\<forall>tq. distinct (index_names m tq) \<and>
        (\<forall>q. q \<in> set (index_names m tq) \<longleftrightarrow> (\<exists>i. map_of is q = Some i \<and> index_table i = tq)))"

lemma indexes_wfD:
  assumes "indexes_wf is m"
  shows "btree_wf is" "hash_wf m" "map_of is q = Some i \<Longrightarrow> index_qualified i = q" "distinct (index_names m tq)"
    "q \<in> set (index_names m tq) \<longleftrightarrow> (\<exists>i. map_of is q = Some i \<and> index_table i = tq)"
  using assms unfolding indexes_wf_def by blast+

lemma indexes_wfI:
  assumes "btree_wf is" "hash_wf m" "\<And>q i. map_of is q = Some i \<Longrightarrow> index_qualified i = q"
    "\<And>tq. distinct (index_names m tq)"
    "\<And>q tq. q \<in> set (index_names m tq) \<longleftrightarrow> (\<exists>i. map_of is q = Some i \<and> index_table i = tq)"
  shows "indexes_wf is m"
  using assms unfolding indexes_wf_def by blast

definition catalog_wf :: "catalog \<Rightarrow> bool" where
  "catalog_wf c \<longleftrightarrow> tables_wf c \<and> indexes_wf (cat_indexes c) (cat_table_to_indexes c) \<and> btree_wf (cat_sequences c)"

lemma index_names_update [simp]:
  "index_names (AList.update k qs m) q = (if q = k then qs else index_names m q)"
  by (simp add: index_names_def update_conv)

lemma index_names_delete [simp]:
  "index_names (AList.delete k m) q = (if q = k then [] else index_names m q)"
  by (simp add: index_names_def map_of_delete)

lemma index_names_push [simp]:
  "index_names (push_index (q, i) m) tq = (if tq = index_table i then index_names m tq @ [q] else index_names m tq)"
  by (simp add: push_index_def Let_def index_table_def [symmetric]) (simp add: index_names_def)

lemma hash_wf_push [simp]: "hash_wf m \<Longrightarrow> hash_wf (push_index p m)"
  by (simp add: push_index_def Let_def)

subsection \<open>Indexes\<close>

lemma indexes_wf_empty: "indexes_wf [] []"
  by (simp add: indexes_wf_def index_names_def btree_wf_def)

lemma indexes_wf_insert:
  assumes "indexes_wf is m" "map_of is (index_qualified i) = None"
  shows "indexes_wf (btree_insert (index_qualified i) i is) (push_index (index_qualified i, i) m)"
proof -
  note w = indexes_wfD [OF assms(1)] and ins = map_of_btree_insert [OF indexes_wfD(1) [OF assms(1)]]
  have new: "index_qualified i \<notin> set (index_names m tq)" for tq
    using assms(2) by (simp add: w(5))
  show ?thesis
  proof (rule indexes_wfI)
    show "index_qualified j = q" if "map_of (btree_insert (index_qualified i) i is) q = Some j" for q j
      using that w(3) [of q j] by (simp add: ins split: if_splits)
    show "q \<in> set (index_names (push_index (index_qualified i, i) m) tq) \<longleftrightarrow>
        (\<exists>j. map_of (btree_insert (index_qualified i) i is) q = Some j \<and> index_table j = tq)" for q tq
      using new [of tq] by (simp add: ins w(5))
  qed (simp_all add: w assms(2) btree_wf_insert)
qed

lemma indexes_wf_remove:
  assumes "indexes_wf is m" "map_of is q = Some i"
  shows "indexes_wf (AList.delete q is) (remove_index_name (index_table i) q m)"
proof -
  note w = indexes_wfD [OF assms(1)]
  have names: "index_names (remove_index_name (index_table i) q m) tq =
      (if tq = index_table i then filter (\<lambda>x. x \<noteq> q) (index_names m tq) else index_names m tq)" for tq
    by (simp add: remove_index_name_def Let_def split: option.split) (simp add: index_names_def)
  have other: "q \<notin> set (index_names m tq)" if "tq \<noteq> index_table i" for tq
    using that assms(2) by (simp add: w(5))
  show ?thesis
  proof (rule indexes_wfI)
    show "hash_wf (remove_index_name (index_table i) q m)"
      using w(2) by (simp add: remove_index_name_def Let_def split: option.split)
    show "index_qualified j = k" if "map_of (AList.delete q is) k = Some j" for k j
      using that w(3) [of k j] by (simp add: map_of_delete split: if_splits)
    show "k \<in> set (index_names (remove_index_name (index_table i) q m) tq) \<longleftrightarrow>
        (\<exists>j. map_of (AList.delete q is) k = Some j \<and> index_table j = tq)" for k tq
      using other [of tq] by (auto simp: names map_of_delete w(5) simp del: split_paired_Ex split_paired_All)
  qed (simp_all add: w names btree_wf_delete)
qed

lemma map_of_fold_delete:
  "map_of (fold AList.delete ks m) k = (if k \<in> set ks then None else map_of m k)"
  by (induction ks arbitrary: m) (auto simp: map_of_delete)

lemma btree_wf_fold_delete: "btree_wf m \<Longrightarrow> btree_wf (fold AList.delete ks m)"
  by (induction ks arbitrary: m) (simp_all add: btree_wf_delete)

lemma map_of_in_filter:
  assumes "btree_wf m"
  shows "k \<in> set (map fst (filter P m)) \<longleftrightarrow> (\<exists>v. map_of m k = Some v \<and> P (k, v))"
  using map_of_eq_Some_iff [OF btree_wf_distinct [OF assms]] by force

lemma indexes_wf_drop_table:
  assumes "indexes_wf is m"
  shows "indexes_wf (fold AList.delete (map fst (filter (\<lambda>(_, i). ix_schema i = fst q \<and> ix_table i = snd q) is)) is)
    (AList.delete q m)"
proof -
  have wf: "btree_wf is" using assms by (simp add: indexes_wf_def)
  note w = indexes_wfD [OF assms]
  have gone: "k \<in> set (map fst (filter (\<lambda>(_, i). ix_schema i = fst q \<and> ix_table i = snd q) is)) \<longleftrightarrow>
      (\<exists>i. map_of is k = Some i \<and> index_table i = q)" for k
    unfolding map_of_in_filter [OF wf] by (auto simp: index_table_def)
  show ?thesis
    by (rule indexes_wfI)
      (auto simp: w map_of_fold_delete gone btree_wf_fold_delete simp del: set_map split_paired_Ex split_paired_All
        split: if_splits)
qed

lemma fold_push_index:
  assumes "indexes_wf is0 m" "btree_wf (is0 @ is)" "\<forall>(q, i)\<in>set is. index_qualified i = q"
  shows "indexes_wf (is0 @ is) (fold push_index is m)"
  using assms
proof (induction "is" arbitrary: is0 m)
  case (Cons p ps)
  obtain q i where p: "p = (q, i)" by (cases p)
  have q: "index_qualified i = q" using Cons.prems(3) p by simp
  have d: "distinct (map fst (is0 @ p # ps))" by (rule btree_wf_distinct [OF Cons.prems(2)])
  then have new: "map_of is0 q = None" by (auto simp: p map_of_eq_None_iff)
  have wf: "btree_wf is0" using Cons.prems(1) by (simp add: indexes_wf_def)
  have snoc: "btree_wf (is0 @ [(q, i)])" using Cons.prems(2) by (auto simp: btree_wf_def p sorted_wrt_append)
  have "btree_insert q i is0 = is0 @ [(q, i)]"
    by (rule btree_wf_eqI [OF btree_wf_insert [OF wf] snoc])
      (auto simp: map_of_btree_insert [OF wf] fun_eq_iff new map_add_def split: option.split)
  then have "indexes_wf (is0 @ [(q, i)]) (push_index (q, i) m)"
    using indexes_wf_insert [OF Cons.prems(1), of i] new by (simp add: q)
  from Cons.IH [OF this] Cons.prems(2,3) show ?case by (simp add: p)
qed simp

lemma indexes_wf_from_raw:
  assumes "indexes_wf is m"
  shows "indexes_wf is (fold push_index is [])"
proof -
  note w = indexes_wfD [OF assms]
  have "\<forall>(q, i)\<in>set is. index_qualified i = q"
    using w(3) map_of_is_SomeI [OF btree_wf_distinct [OF w(1)]] by blast
  with w(1) show ?thesis using fold_push_index [OF indexes_wf_empty, of "is"] by simp
qed

text \<open>The indexes of a table through the reverse map are those a search over all indexes finds.\<close>

lemma indexes_for_table_exact:
  assumes "indexes_wf (cat_indexes c) (cat_table_to_indexes c)"
  shows "distinct (indexes_for_table c q)"
    "set (indexes_for_table c q) = {i. (\<exists>k. map_of (cat_indexes c) k = Some i) \<and> index_table i = q}"
proof -
  let ?ns = "index_names (cat_table_to_indexes c) q"
  have eq: "indexes_for_table c q = List.map_filter (map_of (cat_indexes c)) ?ns"
    by (simp add: indexes_for_table_def index_names_def List.map_filter_def split: option.split)
  note w = indexes_wfD [OF assms]
  have some: "map_of (cat_indexes c) k \<noteq> None" if "k \<in> set ?ns" for k using that w(5) [of k q] by auto
  have eq': "indexes_for_table c q = map (the \<circ> map_of (cat_indexes c)) ?ns"
    unfolding eq List.map_filter_def using some by (auto intro!: arg_cong [where f = "map _"] filter_True)
  have "inj_on (the \<circ> map_of (cat_indexes c)) (set ?ns)"
  proof (rule inj_on_inverseI)
    show "index_qualified ((the \<circ> map_of (cat_indexes c)) k) = k" if "k \<in> set ?ns" for k
      using some [OF that] w(3) [of k] by auto
  qed
  then show "distinct (indexes_for_table c q)"
    using w(4) by (simp add: eq' distinct_map)
  show "set (indexes_for_table c q) = {i. (\<exists>k. map_of (cat_indexes c) k = Some i) \<and> index_table i = q}"
  proof (rule set_eqI)
    fix i
    have "i \<in> set (indexes_for_table c q) \<longleftrightarrow> (\<exists>k\<in>set ?ns. map_of (cat_indexes c) k = Some i)"
      unfolding eq' set_map image_iff comp_def by (intro bex_cong refl) (use some in auto)
    also have "\<dots> \<longleftrightarrow> (\<exists>k. map_of (cat_indexes c) k = Some i \<and> index_table i = q)"
      unfolding Bex_def w(5) by auto
    finally show "i \<in> set (indexes_for_table c q) \<longleftrightarrow> i \<in> {i. (\<exists>k. map_of (cat_indexes c) k = Some i) \<and> index_table i = q}"
      by blast
  qed
qed

subsection \<open>Tables\<close>

lemma tables_wfD:
  assumes "tables_wf c"
  shows "btree_wf (cat_schemas c)" "btree_wf (cat_tables c)" "btree_wf (cat_views c)"
    "map_of (cat_tables c) q = Some t \<Longrightarrow> table_qualified t = q"
    "map_of (cat_tables c) q = Some t \<Longrightarrow> has_schema c (fst q)"
    "map_of (cat_tables c) q = Some t \<Longrightarrow> column_map_ok t"
    "map_of (cat_tables c) q = Some t \<Longrightarrow> map_of (cat_views c) q = None"
  using assms unfolding tables_wf_def by blast+

lemma tables_wfI:
  assumes "btree_wf (cat_schemas c)" "btree_wf (cat_tables c)" "btree_wf (cat_views c)"
    "\<And>q t. map_of (cat_tables c) q = Some t \<Longrightarrow>
       table_qualified t = q \<and> has_schema c (fst q) \<and> column_map_ok t \<and> map_of (cat_views c) q = None"
  shows "tables_wf c"
  using assms unfolding tables_wf_def by blast

lemma tables_wf_cong:
  "cat_schemas c = cat_schemas d \<Longrightarrow> cat_tables c = cat_tables d \<Longrightarrow> cat_views c = cat_views d \<Longrightarrow>
     tables_wf c = tables_wf d"
  by (simp add: tables_wf_def has_schema_def)

lemma has_schema_add: "btree_wf (cat_schemas c) \<Longrightarrow> has_schema (add_schema n c) s \<longleftrightarrow> s = n \<or> has_schema c s"
  by (simp add: has_schema_def add_schema_def allocate_oid_def map_of_btree_insert)

lemma add_schema_simps [simp]:
  "cat_tables (add_schema n c) = cat_tables c" "cat_views (add_schema n c) = cat_views c"
  "cat_indexes (add_schema n c) = cat_indexes c" "cat_table_to_indexes (add_schema n c) = cat_table_to_indexes c"
  "cat_sequences (add_schema n c) = cat_sequences c"
  by (simp_all add: add_schema_def allocate_oid_def)

lemma tables_wf_add_schema: "tables_wf c \<Longrightarrow> tables_wf (add_schema n c)"
  by (rule tables_wfI)
    (use tables_wfD [of c] in \<open>auto simp: has_schema_add\<close>, simp add: add_schema_def allocate_oid_def btree_wf_insert)

lemma column_map_ok_rebuild [simp]: "column_map_ok (rebuild_column_map t)"
  by (simp add: column_map_ok_def rebuild_column_map_def)

lemma tables_wf_from_raw:
  assumes "tables_wf c"
  shows "tables_wf (from_raw c)"
proof (rule tables_wfI)
  fix q t
  assume "map_of (cat_tables (from_raw c)) q = Some t"
  then obtain u where u: "map_of (cat_tables c) q = Some u" "t = from_table_de u"
    by (auto simp: from_raw_def map_of_map_values)
  have "table_qualified t = table_qualified u" "column_map_ok t"
    by (simp_all add: u(2) from_table_de_def table_qualified_def rebuild_column_map_def column_map_ok_def)
  then show "table_qualified t = q \<and> has_schema (from_raw c) (fst q) \<and> column_map_ok t \<and> map_of (cat_views (from_raw c)) q = None"
    using tables_wfD(4,5,7) [OF assms u(1)] by (simp add: from_raw_def has_schema_def)
qed (use tables_wfD(1-3) [OF assms] in \<open>simp_all add: from_raw_def\<close>)

lemma tables_wf_insert_table:
  assumes "tables_wf c" "insert_table t c = Inr c'"
  shows "tables_wf c'"
proof -
  note w = tables_wfD [OF assms(1)]
  obtain u where u: "\<not> names_object c (table_qualified t)" "has_schema c (tbl_schema t)" "table_qualified u = table_qualified t"
    "c' = c\<lparr>cat_tables := btree_insert (table_qualified t) (rebuild_column_map u) (cat_tables c)\<rparr>"
  proof -
    let ?u = "if tbl_storage_collection t = []
      then t\<lparr>tbl_storage_collection := ''__gdb_sql_rows_'' @ show_nat (unat (tbl_oid t))\<rparr> else t"
    show ?thesis
      by (rule that [of ?u]) (use assms(2) in \<open>auto simp: insert_table_def Let_def table_qualified_def split: if_splits\<close>)
  qed
  have q: "table_qualified (rebuild_column_map u) = table_qualified t" "fst (table_qualified t) = tbl_schema t"
    using u(3) by (simp_all add: table_qualified_def rebuild_column_map_def)
  show ?thesis
    unfolding u(4)
    by (rule tables_wfI)
      (use w u(1,2) q in \<open>auto simp: map_of_btree_insert btree_wf_insert has_schema_def names_object_def split: if_splits\<close>)
qed

lemma drop_table_simps:
  assumes "drop_table_qualified q c = Inr (t, c')"
  shows "map_of (cat_tables c) q = Some t" "cat_schemas c' = cat_schemas c" "cat_views c' = cat_views c"
    "cat_tables c' = map_values (\<lambda>u. u\<lparr>tbl_foreign_keys := filter (\<lambda>fk. \<not> references q fk) (tbl_foreign_keys u)\<rparr>)
       (AList.delete q (cat_tables c))"
    "cat_indexes c' = fold AList.delete
       (map fst (filter (\<lambda>(_, i). ix_schema i = fst q \<and> ix_table i = snd q) (cat_indexes c))) (cat_indexes c)"
    "cat_table_to_indexes c' = AList.delete q (cat_table_to_indexes c)"
    "cat_sequences c' = drop_sequences (fst q) (tbl_columns t) (cat_sequences c)"
  using assms by (auto simp: drop_table_qualified_def split: option.splits)

lemma map_of_drop_sequences:
  "map_of (drop_sequences s cs m) k =
     (if fst k = s \<and> Some (snd k) \<in> col_identity_sequence ` set cs then None else map_of m k)"
  by (induction cs arbitrary: m) (auto simp: drop_sequences_def map_of_delete split: option.splits)

lemma btree_wf_drop_sequences: "btree_wf m \<Longrightarrow> btree_wf (drop_sequences s cs m)"
  by (induction cs arbitrary: m) (auto simp: drop_sequences_def btree_wf_delete split: option.splits)

lemma catalog_wf_drop_table:
  assumes "catalog_wf c" "drop_table_qualified q c = Inr (t, c')"
  shows "catalog_wf c'"
proof -
  note d = drop_table_simps [OF assms(2)]
  have wf: "tables_wf c" using assms(1) by (simp add: catalog_wf_def)
  note w = tables_wfD [OF wf]
  have "tables_wf c'"
  proof (rule tables_wfI)
    fix k u assume "map_of (cat_tables c') k = Some u"
    then obtain v where "map_of (cat_tables c) k = Some v"
      "u = v\<lparr>tbl_foreign_keys := filter (\<lambda>fk. \<not> references q fk) (tbl_foreign_keys v)\<rparr>"
      by (auto simp: d map_of_map_values map_of_delete split: if_splits)
    then show "table_qualified u = k \<and> has_schema c' (fst k) \<and> column_map_ok u \<and> map_of (cat_views c') k = None"
      using w(4-7) [of k v] by (simp add: table_qualified_def column_map_ok_def has_schema_def d)
  qed (use w in \<open>simp_all add: d btree_wf_delete\<close>)
  then show ?thesis
    using assms(1) indexes_wf_drop_table by (simp add: catalog_wf_def d btree_wf_drop_sequences)
qed

subsection \<open>Every operation keeps the invariant\<close>

lemma drop_tables_facts:
  assumes "catalog_wf c" "drop_tables qs c = Inr c'"
  shows "catalog_wf c' \<and> cat_schemas c' = cat_schemas c \<and> cat_views c' = cat_views c \<and>
    (\<forall>k. map_of (cat_tables c') k \<noteq> None \<longleftrightarrow> map_of (cat_tables c) k \<noteq> None \<and> k \<notin> set qs)"
  using assms
proof (induction qs arbitrary: c)
  case (Cons q qs)
  then obtain t c1 where 1: "drop_table_qualified q c = Inr (t, c1)" "drop_tables qs c1 = Inr c'"
    by (auto simp: and_then_Inr)
  from Cons.IH [OF catalog_wf_drop_table [OF Cons.prems(1) 1(1)] 1(2)] show ?case
    by (auto simp: drop_table_simps [OF 1(1)] map_of_map_values map_of_delete)
qed simp

lemma catalog_wf_drop_schema:
  assumes "catalog_wf c" "drop_schema n ie cas c = Inr c'"
  shows "catalog_wf c'"
proof (cases "has_schema c n")
  case True
  let ?qs = "filter (\<lambda>q. fst q = n) (map fst (cat_tables c))"
  obtain c1 where c1: "drop_tables ?qs c = Inr c1" "c' = c1\<lparr>cat_schemas := AList.delete n (cat_schemas c1)\<rparr>"
    using assms(2) True by (auto simp: drop_schema_def Let_def and_then_Inr split: if_splits)
  note f = drop_tables_facts [OF assms(1) c1(1)]
  have wf: "tables_wf c1" using f by (simp add: catalog_wf_def)
  note w = tables_wfD [OF wf]
  have "fst q \<noteq> n" if "map_of (cat_tables c1) q = Some t" for q t
  proof -
    have "map_of (cat_tables c) q \<noteq> None" "q \<notin> set ?qs" using f that by blast+
    then show ?thesis by (auto simp: map_of_eq_None_iff)
  qed
  then have "tables_wf c'"
    unfolding c1(2)
    by (intro tables_wfI) (use w in \<open>auto simp: has_schema_def map_of_delete btree_wf_delete\<close>)
  then show ?thesis using f by (simp add: catalog_wf_def c1(2))
next
  case False
  with assms show ?thesis by (simp add: drop_schema_def split: if_splits)
qed

lemma catalog_wf_cong:
  "cat_schemas d = cat_schemas c \<Longrightarrow> cat_tables d = cat_tables c \<Longrightarrow> cat_views d = cat_views c \<Longrightarrow>
   cat_indexes d = cat_indexes c \<Longrightarrow> cat_table_to_indexes d = cat_table_to_indexes c \<Longrightarrow>
   btree_wf (cat_sequences d) \<Longrightarrow> catalog_wf c \<Longrightarrow> catalog_wf d"
  using tables_wf_cong [of d c] by (simp add: catalog_wf_def)

inductive catalog_step :: "catalog \<Rightarrow> catalog \<Rightarrow> bool" where
  "catalog_step c (snd (allocate_oid c))"
| "create_schema n b c = Inr d \<Longrightarrow> catalog_step c d"
| "drop_schema n b b' c = Inr d \<Longrightarrow> catalog_step c d"
| "insert_table t c = Inr d \<Longrightarrow> catalog_step c d"
| "drop_table_qualified q c = Inr (t, d) \<Longrightarrow> catalog_step c d"
| "insert_index i c = Inr d \<Longrightarrow> catalog_step c d"
| "drop_index s n b c = Inr d \<Longrightarrow> catalog_step c d"
| "catalog_step c (create_sequence s n c)"
| "next_sequence_value s n c = Inr (v, d) \<Longrightarrow> catalog_step c d"
| "catalog_step c (observe_sequence_value s n v c)"
| "insert_view w c = Inr d \<Longrightarrow> catalog_step c d"
| "drop_view q b c = Inr d \<Longrightarrow> catalog_step c d"
| "insert_function f c = Inr d \<Longrightarrow> catalog_step c d"
| "catalog_step c (replace_function f c)"
| "catalog_step c (snd (drop_function s n a c))"
| "catalog_step c (snd (drop_function_by_name s n c))"
| "catalog_step c (put_embedding_rule r c)"
| "catalog_step c (snd (drop_embedding_rule s n v c))"
| "insert_ts_dictionary e b c = Inr d \<Longrightarrow> catalog_step c d"
| "drop_ts_dictionary s n b c = Inr (b', d) \<Longrightarrow> catalog_step c d"
| "catalog_step c (snd (install_extension n w c))"
| "catalog_step c (snd (install_sidecar_extension n w c))"
| "catalog_step c (snd (uninstall_extension n c))"
| "catalog_step c (snd (set_extension_version n w c))"
| "catalog_step c (from_raw c)"

lemma catalog_wf_new: "catalog_wf (catalog_new n)"
proof -
  have "tables_wf \<lparr> cat_database = n, cat_schemas = [], cat_tables = [], cat_indexes = [], cat_sequences = [],
         cat_views = [], cat_next_oid = 16384, cat_search_path = [''public''],
         cat_extensions = e, cat_functions = [], cat_ts_dictionaries = [], cat_embedding_rules = [],
         cat_table_to_indexes = [] \<rparr>" for e
    by (rule tables_wfI) (simp_all add: btree_wf_def)
  then show ?thesis
    by (simp add: catalog_wf_def catalog_new_def tables_wf_add_schema indexes_wf_empty)
qed

lemma catalog_wf_step:
  assumes "catalog_step c d" "catalog_wf c"
  shows "catalog_wf d"
proof -
  have wf: "tables_wf c" "indexes_wf (cat_indexes c) (cat_table_to_indexes c)" "btree_wf (cat_sequences c)"
    using assms(2) by (simp_all add: catalog_wf_def)
  note frame = catalog_wf_cong [OF _ _ _ _ _ _ assms(2)]
  show ?thesis
    using assms(1)
  proof (cases rule: catalog_step.cases)
    case 1 then show ?thesis by (intro frame) (simp_all add: allocate_oid_def wf)
  next
    case (2 n b)
    then show ?thesis
      using assms(2) by (auto simp: create_schema_def catalog_wf_def tables_wf_add_schema split: if_splits)
  next
    case (3 n b b') then show ?thesis using catalog_wf_drop_schema [OF assms(2)] by blast
  next
    case (4 t)
    then have "cat_indexes d = cat_indexes c" "cat_table_to_indexes d = cat_table_to_indexes c" "cat_sequences d = cat_sequences c"
      by (auto simp: insert_table_def Let_def split: if_splits)
    then show ?thesis using tables_wf_insert_table [OF wf(1) 4] wf by (simp add: catalog_wf_def)
  next
    case (5 q t) then show ?thesis using catalog_wf_drop_table [OF assms(2)] by blast
  next
    case (6 i)
    then have "map_of (cat_indexes c) (index_qualified i) = None"
      "d = c\<lparr>cat_table_to_indexes := push_index (index_qualified i, i) (cat_table_to_indexes c),
              cat_indexes := btree_insert (index_qualified i) i (cat_indexes c)\<rparr>"
      by (auto simp: insert_index_def Let_def split: if_splits)
    then show ?thesis
      using indexes_wf_insert [OF wf(2)] wf tables_wf_cong [of d c] by (simp add: catalog_wf_def)
  next
    case (7 s n b)
    show ?thesis
    proof (cases "d = c")
      case False
      with 7 obtain q i where "map_of (cat_indexes c) q = Some i"
        "d = c\<lparr>cat_indexes := AList.delete q (cat_indexes c),
               cat_table_to_indexes := remove_index_name (index_table i) q (cat_table_to_indexes c)\<rparr>"
        by (auto simp: drop_index_def index_table_def split: option.splits if_splits)
      then show ?thesis
        using indexes_wf_remove [OF wf(2)] wf tables_wf_cong [of d c] by (simp add: catalog_wf_def)
    qed (use assms(2) in simp)
  next
    case (8 s n) then show ?thesis by (intro frame) (simp_all add: create_sequence_def btree_wf_insert wf)
  next
    case (9 s n v)
    then show ?thesis by (intro frame) (auto simp: next_sequence_value_def Let_def btree_wf_insert wf split: option.splits)
  next
    case (10 s n v)
    then show ?thesis by (intro frame) (simp_all add: observe_sequence_value_def btree_wf_insert wf split: option.split)
  next
    case (11 w)
    then have "d = c\<lparr>cat_views := btree_insert (view_schema w, view_name w) w (cat_views c)\<rparr>"
      "map_of (cat_tables c) (view_schema w, view_name w) = None"
      by (auto simp: insert_view_def names_object_def Let_def split: if_splits)
    moreover from this have "tables_wf d"
      by (intro tables_wfI) (use tables_wfD [OF wf(1)] in \<open>auto simp: map_of_btree_insert btree_wf_insert has_schema_def\<close>)
    ultimately show ?thesis using wf by (simp add: catalog_wf_def)
  next
    case (12 q b)
    then have "d = c\<lparr>cat_views := AList.delete q (cat_views c)\<rparr>" by (auto simp: drop_view_def split: if_splits)
    moreover from this have "tables_wf d"
      by (intro tables_wfI) (use tables_wfD [OF wf(1)] in \<open>auto simp: map_of_delete btree_wf_delete has_schema_def\<close>)
    ultimately show ?thesis using wf by (simp add: catalog_wf_def)
  next
    case 25
    then show ?thesis
      using indexes_wf_from_raw [OF wf(2)] wf tables_wf_from_raw [OF wf(1)] by (simp add: catalog_wf_def from_raw_def)
  qed (rule frame; use wf(3) in \<open>auto simp: insert_function_def replace_function_def drop_function_def drop_function_by_name_def Let_def
      put_embedding_rule_def drop_embedding_rule_def insert_ts_dictionary_def drop_ts_dictionary_def
      install_extension_def install_sidecar_extension_def uninstall_extension_def set_extension_version_def
      split: if_splits option.splits list.splits\<close>)+
qed

definition catalog_reachable :: "catalog \<Rightarrow> bool" where
  "catalog_reachable c \<longleftrightarrow> (\<exists>n. catalog_step\<^sup>*\<^sup>* (catalog_new n) c)"

lemma catalog_wf_reachable: "catalog_reachable c \<Longrightarrow> catalog_wf c"
proof -
  have "catalog_wf c" if "catalog_step\<^sup>*\<^sup>* (catalog_new n) c" for n
    using that by (induction rule: rtranclp_induct) (simp_all add: catalog_wf_new catalog_wf_step)
  then show "catalog_reachable c \<Longrightarrow> catalog_wf c" by (auto simp: catalog_reachable_def)
qed

subsection \<open>Looking things up\<close>

lemma map_of_build_column_map:
  "map_of (build_column_map cs) n = map_option fst (find (\<lambda>(i, c). col_name c = n) (rev (enumerate 0 cs)))"
proof -
  have "map_of (fold (\<lambda>(i, c). AList.update (col_name c) i) ps m) n =
      (case find (\<lambda>(i, c). col_name c = n) (rev ps) of Some p \<Rightarrow> Some (fst p) | None \<Rightarrow> map_of m n)"
    for ps :: "(nat \<times> column) list" and m
    by (induction ps rule: rev_induct) (auto simp: update_conv split: option.split)
  then show ?thesis by (simp add: build_column_map_def split: option.split)
qed

lemma find_enumerate:
  "map_option snd (find (\<lambda>(i, c). P c) (rev (enumerate n cs))) = find P (rev cs)"
proof -
  have "map_option snd (find (\<lambda>(i, c). P c) ps) = find P (map snd ps)" for ps :: "(nat \<times> 'a) list"
    by (induction ps) auto
  then show ?thesis by (simp add: rev_map [symmetric])
qed

lemma table_column_search:
  assumes "column_map_ok t"
  shows "table_column t n = find (\<lambda>c. col_name c = n) (rev (tbl_columns t))"
proof -
  let ?p = "find (\<lambda>(i, c). col_name c = n) (rev (enumerate 0 (tbl_columns t)))"
  have "tbl_columns t ! fst p = snd p" if "?p = Some p" for p
  proof -
    have "p \<in> set (enumerate 0 (tbl_columns t))"
      using that by (metis find_Some_iff nth_mem set_rev)
    then show ?thesis by (simp add: in_set_enumerate_eq)
  qed
  then have "table_column t n = map_option snd ?p"
    using assms by (cases ?p) (simp_all add: table_column_def column_map_ok_def map_of_build_column_map)
  then show ?thesis by (simp add: find_enumerate)
qed



text \<open>Dropping a schema looks at its tables only: its views stay, in a schema that is gone.\<close>

lemma drop_schema_keeps_views:
  assumes "catalog_wf c" "has_schema c n" "drop_schema n ie cas c = Inr c'"
  shows "cat_views c' = cat_views c \<and> \<not> has_schema c' n"
  using assms drop_tables_facts [OF assms(1)]
  by (auto simp: drop_schema_def Let_def and_then_Inr has_schema_def map_of_delete split: if_splits)

subsection \<open>An example\<close>

definition demo_column :: "string \<Rightarrow> string option \<Rightarrow> column" where
  "demo_column n s =
     \<lparr> col_name = n, col_ty = Integer, col_nullable = False, col_default = None,
       col_identity_sequence = s, col_ordinal = 0 \<rparr>"

definition demo_table :: "string \<Rightarrow> foreign_key list \<Rightarrow> sql_table" where
  "demo_table n fks =
     \<lparr> tbl_oid = 1, tbl_schema = ''public'', tbl_name = n, tbl_columns = [demo_column ''id'' (Some ''s''), demo_column ''ref'' None],
       tbl_primary_key = None, tbl_uniques = [], tbl_foreign_keys = fks, tbl_checks = [], tbl_storage_collection = [],
       tbl_rls_enabled = False, tbl_rls_forced = False, tbl_policies = [], tbl_triggers = [], tbl_column_map = [] \<rparr>"

definition demo_fk :: foreign_key where
  "demo_fk =
     \<lparr> fk_name = ''f'', fk_columns = [''ref''], fk_ref_schema = ''public'', fk_ref_table = ''t'', fk_ref_columns = [''id''],
       fk_on_delete = NoAction, fk_on_update = NoAction, fk_match_type = MatchSimple, fk_deferrable = NotDeferrable \<rparr>"

definition demo_index :: index_def where
  "demo_index =
     \<lparr> ix_oid = 2, ix_name = ''i'', ix_schema = ''public'', ix_table = ''t'', ix_columns = [''id''], ix_unique = True,
       ix_primary = False, ix_method = ''btree'', ix_opclasses = [], ix_with_options = [] \<rparr>"

definition demo_results :: "rel_error + catalog" where
  "demo_results =
     and_then (insert_table (demo_table ''t'' []) (catalog_new ''db''))
       (\<lambda>c. and_then (insert_table (demo_table ''u'' [demo_fk]) c) (insert_index demo_index))"

definition demo_catalog :: catalog where
  "demo_catalog = (case demo_results of Inr c \<Rightarrow> c | Inl _ \<Rightarrow> catalog_new ''db'')"

lemma demo_catalog_reachable: "catalog_reachable demo_catalog"
proof -
  have "catalog_step\<^sup>*\<^sup>* (catalog_new ''db'') c" if demo: "demo_results = Inr c" for c
  proof -
    obtain a b where s: "insert_table (demo_table ''t'' []) (catalog_new ''db'') = Inr a"
      "insert_table (demo_table ''u'' [demo_fk]) a = Inr b" "insert_index demo_index b = Inr c"
      using demo by (auto simp: demo_results_def and_then_Inr)
    have "catalog_step (catalog_new ''db'') a" "catalog_step a b" "catalog_step b c"
      using s by (auto intro: catalog_step.intros(4,6))
    then show ?thesis by simp
  qed
  then have "catalog_step\<^sup>*\<^sup>* (catalog_new ''db'') demo_catalog"
    unfolding demo_catalog_def by (auto split: sum.split)
  then show ?thesis by (auto simp: catalog_reachable_def)
qed



end
