(* ===== verification/Sql_Json.thy ===== *)
theory Sql_Json
  imports Sql_Text
begin

text \<open>
  The storage form of values (\<^verbatim>\<open>encode_json\<close> and \<^verbatim>\<open>decode_json\<close> of \<^verbatim>\<open>src/relational/value.rs\<close>): JSON values, the
  encoding of a value and its decoding at the type of the column.

  A \<open>json_env\<close> stands for code of other crates: the printing of JSON in error messages, the conversion
  of a floating-point number to a 64-bit integer, and the encoding and decoding of opaque values.
\<close>

subsection \<open>JSON values\<close>

text \<open>
  An object is a sorted map.  A number is an integer (of the range of i64 or u64) or a
  floating-point number, given by its text.
\<close>

datatype json =
    JNull
  | JBool bool
  | JInt int
  | JFloat string
  | JString string
  | JArray "json list"
  | JObject "(string \<times> json) list"

record json_env =
  je_text :: "json \<Rightarrow> string"
  je_float :: "string \<Rightarrow> int"
  je_encode :: "sql_value \<Rightarrow> json"
  je_decode :: "sql_type \<Rightarrow> json \<Rightarrow> rel_error + sql_value"

fun json_as_bool :: "json \<Rightarrow> bool option" where
  "json_as_bool (JBool b) = Some b"
| "json_as_bool _ = None"

fun json_as_str :: "json \<Rightarrow> string option" where
  "json_as_str (JString s) = Some s"
| "json_as_str _ = None"

fun json_as_array :: "json \<Rightarrow> json list option" where
  "json_as_array (JArray xs) = Some xs"
| "json_as_array _ = None"

fun json_as_object :: "json \<Rightarrow> (string, json) btree_map option" where
  "json_as_object (JObject m) = Some m"
| "json_as_object _ = None"

definition in_i64 :: "int \<Rightarrow> bool" where
  "in_i64 n \<longleftrightarrow> - (2 ^ 63) \<le> n \<and> n \<le> 2 ^ 63 - 1"

text \<open>\<open>json_int\<close> is the accessor of the JSON library, \<open>json_as_i64\<close> the lenient reading of a stored column.\<close>

fun json_int :: "json \<Rightarrow> int option" where
  "json_int (JInt n) = (if in_i64 n then Some n else None)"
| "json_int _ = None"

text \<open>An integer beyond the signed range goes through a float, whose conversion saturates.\<close>

fun json_as_i64 :: "json_env \<Rightarrow> json \<Rightarrow> int option" where
  "json_as_i64 env (JInt n) = Some (if in_i64 n then n else 2 ^ 63 - 1)"
| "json_as_i64 env (JFloat t) = Some (je_float env t)"
| "json_as_i64 env (JString s) = parse_signed (- (2 ^ 63)) (2 ^ 63 - 1) (trim s)"
| "json_as_i64 env (JBool b) = Some (if b then 1 else 0)"
| "json_as_i64 env _ = None"

subsection \<open>Encoding\<close>

fun encode_json :: "json_env \<Rightarrow> sql_value \<Rightarrow> json" where
  "encode_json env Null = JNull"
| "encode_json env (Bool b) = JBool b"
| "encode_json env (Int2 n) = JInt n"
| "encode_json env (Int4 n) = JInt n"
| "encode_json env (Int8 n) = JInt n"
| "encode_json env (Text s) = JString s"
| "encode_json env (Array items) = JArray (map (encode_json env) items)"
| "encode_json env (Citext s) = JString s"
| "encode_json env (HStore m) = JObject (map_values (\<lambda>v. case v of None \<Rightarrow> JNull | Some s \<Rightarrow> JString s) m)"
| "encode_json env (Ltree p) = JString p"
| "encode_json env (Opaque t s n) = je_encode env (Opaque t s n)"

subsection \<open>Decoding\<close>

definition bad :: "json_env \<Rightarrow> json \<Rightarrow> string \<Rightarrow> 'a option \<Rightarrow> rel_error + 'a" where
  "bad env v t r = (case r of Some x \<Rightarrow> Inr x | None \<Rightarrow> Inl (InvalidTextRepresentation t (je_text env v)))"

definition hstore_value :: "json \<Rightarrow> string option option" where
  "hstore_value v = (case v of JNull \<Rightarrow> Some None | JString s \<Rightarrow> Some (Some s) | _ \<Rightarrow> None)"

fun hstore_pairs :: "(string \<times> json) list \<Rightarrow> pairs \<Rightarrow> pairs option" where
  "hstore_pairs [] m = Some m"
| "hstore_pairs ((k, v) # ps) m = Option.bind (hstore_value v) (\<lambda>w. hstore_pairs ps (btree_insert k w m))"

definition decode_hstore :: "json_env \<Rightarrow> json \<Rightarrow> rel_error + sql_value" where
  "decode_hstore env v =
     and_then (bad env v ''hstore'' (json_as_object v))
       (\<lambda>obj. map_sum id HStore (bad env v ''hstore'' (hstore_pairs obj [])))"

definition nullable :: "json \<Rightarrow> rel_error + sql_value \<Rightarrow> rel_error + sql_value" where
  "nullable v r = (if v = JNull then Inr Null else r)"

fun decode_json :: "json_env \<Rightarrow> sql_type \<Rightarrow> json \<Rightarrow> rel_error + sql_value" where
  "decode_json env Boolean v = nullable v (map_sum id Bool (bad env v ''boolean'' (json_as_bool v)))"
| "decode_json env SmallInt v = nullable v (map_sum id (Int2 \<circ> signed_take_bit 15) (bad env v ''smallint'' (json_as_i64 env v)))"
| "decode_json env Integer v = nullable v (map_sum id (Int4 \<circ> signed_take_bit 31) (bad env v ''integer'' (json_as_i64 env v)))"
| "decode_json env BigInt v = nullable v (map_sum id Int8 (bad env v ''bigint'' (json_as_i64 env v)))"
| "decode_json env Text_type v = nullable v (map_sum id Text (bad env v ''text'' (json_as_str v)))"
| "decode_json env (Varchar _) v = nullable v (map_sum id Text (bad env v ''text'' (json_as_str v)))"
| "decode_json env (Char_type _) v = nullable v (map_sum id Text (bad env v ''text'' (json_as_str v)))"
| "decode_json env (Array_type inner) v =
     nullable v (and_then (bad env v ''array'' (json_as_array v))
       (\<lambda>arr. map_sum id Array (sequence_results (map (decode_json env inner) arr))))"
| "decode_json env Citext_type v = nullable v (map_sum id Citext (bad env v ''citext'' (json_as_str v)))"
| "decode_json env HStore_type v = nullable v (decode_hstore env v)"
| "decode_json env Ltree_type v = nullable v (and_then (bad env v ''ltree'' (json_as_str v)) parse_ltree_text)"
| "decode_json env ty v = nullable v (je_decode env ty v)"

subsection \<open>Round trip\<close>

text \<open>
  The values a column of a type can hold.  What is opaque comes back when the code of the other
  crate reads what it wrote; a float that is not a number, for example, does not.
\<close>

fun elem_type :: "sql_type \<Rightarrow> sql_type option" where
  "elem_type (Array_type t) = Some t"
| "elem_type _ = None"

lemma elem_type_Some [simp]: "elem_type ty = Some t \<longleftrightarrow> ty = Array_type t" "Some t = elem_type ty \<longleftrightarrow> ty = Array_type t"
  by (cases ty; auto)+

fun is_text :: "sql_type \<Rightarrow> bool" where
  "is_text Text_type = True"
| "is_text (Varchar _) = True"
| "is_text (Char_type _) = True"
| "is_text _ = False"

fun storable :: "json_env \<Rightarrow> sql_type \<Rightarrow> sql_value \<Rightarrow> bool" where
  "storable env ty Null = True"
| "storable env ty (Bool _) \<longleftrightarrow> ty = Boolean"
| "storable env ty (Int2 n) \<longleftrightarrow> ty = SmallInt \<and> - (2 ^ 15) \<le> n \<and> n < 2 ^ 15"
| "storable env ty (Int4 n) \<longleftrightarrow> ty = Integer \<and> - (2 ^ 31) \<le> n \<and> n < 2 ^ 31"
| "storable env ty (Int8 n) \<longleftrightarrow> ty = BigInt \<and> - (2 ^ 63) \<le> n \<and> n < 2 ^ 63"
| "storable env ty (Text _) = is_text ty"
| "storable env ty (Array vs) = (case elem_type ty of Some t \<Rightarrow> list_all (storable env t) vs | None \<Rightarrow> False)"
| "storable env ty (Citext _) \<longleftrightarrow> ty = Citext_type"
| "storable env ty (HStore m) \<longleftrightarrow> ty = HStore_type \<and> btree_wf m"
| "storable env ty (Ltree p) \<longleftrightarrow> ty = Ltree_type \<and> valid_path p"
| "storable env ty (Opaque t s n) \<longleftrightarrow> decode_json env ty (je_encode env (Opaque t s n)) = Inr (Opaque t s n)"

lemma nullable_simps [simp]: "nullable JNull r = Inr Null" "v \<noteq> JNull \<Longrightarrow> nullable v r = r"
  by (simp_all add: nullable_def)

lemma bad_Some [simp]: "bad env v t (Some x) = Inr x"
  by (simp add: bad_def)

lemma decode_null [simp]: "decode_json env ty JNull = Inr Null"
  by (cases ty) simp_all

lemma hstore_pairs_encode:
  "hstore_pairs (map_values (\<lambda>v. case v of None \<Rightarrow> JNull | Some s \<Rightarrow> JString s) ps) m =
     Some (btree_extend ps m)"
proof (induction ps arbitrary: m)
  case (Cons p ps)
  obtain k v where "p = (k, v)" by (cases p)
  with Cons show ?case by (cases v) (simp_all add: map_values_def hstore_value_def btree_extend_def)
qed (simp add: map_values_def btree_extend_def)

lemma sequence_results_all: "(\<And>x. x \<in> set xs \<Longrightarrow> f x = Inr (g x)) \<Longrightarrow> sequence_results (map f xs) = Inr (map g xs)"
  by (induction xs) simp_all

lemma json_as_i64_int [simp]: "in_i64 n \<Longrightarrow> json_as_i64 env (JInt n) = Some n"
  by simp

lemma decode_text: "is_text ty \<Longrightarrow> decode_json env ty (JString s) = Inr (Text s)"
  by (cases ty) simp_all

lemma json_roundtrip: "storable env ty v \<Longrightarrow> decode_json env ty (encode_json env v) = Inr v"
proof (induction env ty v rule: storable.induct)
  case (7 env ty vs)
  then obtain t where t: "ty = Array_type t" "list_all (storable env t) vs" by (auto split: option.splits)
  have "sequence_results (map (decode_json env t \<circ> encode_json env) vs) = Inr (map id vs)"
    using t 7(1) [of t] by (intro sequence_results_all) (auto simp: list_all_iff)
  then show ?case by (simp add: t(1))
next
  case (9 env ty m)
  then show ?case
    by (simp add: decode_hstore_def hstore_pairs_encode btree_extend_id)
next
  case (10 env ty p)
  then show ?case by (simp add: parse_ltree_iff trim_path)
qed (simp_all add: in_i64_def signed_take_bit_int_eq_self decode_text)

end
