(* ===== verification/Row_Storage.thy ===== *)
theory Row_Storage
  imports Sql_Json
begin

text \<open>
  The storage boundary of the SQL engine (\<^verbatim>\<open>src/relational/storage.rs\<close>): the operations that a backend
  provides, the contract that the engine relies on (locale \<open>relational_storage\<close>) and the in-memory
  backend, which satisfies it.

  An operation answers its result together with the backend it leaves, which a failed operation may
  have changed.
\<close>

subsection \<open>The operations of a backend\<close>

type_synonym ('s, 'a) io = "'s \<Rightarrow> 's \<times> (rel_error + 'a)"

record 's storage_ops =
  so_scan :: "string \<Rightarrow> 's \<Rightarrow> rel_error + (string \<times> json) list"
  so_get :: "string \<Rightarrow> string \<Rightarrow> 's \<Rightarrow> rel_error + json option"
  so_put :: "string \<Rightarrow> string \<Rightarrow> json \<Rightarrow> ('s, unit) io"
  so_delete :: "string \<Rightarrow> string \<Rightarrow> ('s, unit) io"
  so_truncate :: "string \<Rightarrow> ('s, unit) io"
  so_load_catalog :: "'s \<Rightarrow> rel_error + json option"
  so_save_catalog :: "json \<Rightarrow> ('s, unit) io"
  so_generation :: "string \<Rightarrow> 's \<Rightarrow> nat option"

text \<open>Running an operation for each element of a list, up to the first error.\<close>

fun try_each :: "('x \<Rightarrow> ('s, unit) io) \<Rightarrow> 'x list \<Rightarrow> ('s, unit) io" where
  "try_each f [] s = (s, Inr ())"
| "try_each f (x # xs) s = (case f x s of (s1, Inl e) \<Rightarrow> (s1, Inl e) | (s1, Inr _) \<Rightarrow> try_each f xs s1)"

subsection \<open>The in-memory backend\<close>

record memory_storage =
  ms_collections :: "(string, (string, json) btree_map) btree_map"
  ms_catalog :: "json option"
  ms_generations :: "(string, nat) btree_map"

definition memory_new :: memory_storage where
  "memory_new = \<lparr> ms_collections = [], ms_catalog = None, ms_generations = [] \<rparr>"

definition memory_docs :: "memory_storage \<Rightarrow> string \<Rightarrow> (string, json) btree_map" where
  "memory_docs s c = (case map_of (ms_collections s) c of Some docs \<Rightarrow> docs | None \<Rightarrow> [])"

definition memory_count :: "string \<Rightarrow> memory_storage \<Rightarrow> nat" where
  "memory_count c s = length (memory_docs s c)"

definition memory_generation :: "string \<Rightarrow> memory_storage \<Rightarrow> nat option" where
  "memory_generation c s = Some (case map_of (ms_generations s) c of Some g \<Rightarrow> g | None \<Rightarrow> 0)"

definition bump :: "string \<Rightarrow> memory_storage \<Rightarrow> memory_storage" where
  "bump c s =
     s\<lparr>ms_generations := btree_insert c (Suc (case map_of (ms_generations s) c of Some g \<Rightarrow> g | None \<Rightarrow> 0)) (ms_generations s)\<rparr>"

definition memory_scan :: "string \<Rightarrow> memory_storage \<Rightarrow> rel_error + (string \<times> json) list" where
  "memory_scan c s = Inr (memory_docs s c)"

definition memory_get_row :: "string \<Rightarrow> string \<Rightarrow> memory_storage \<Rightarrow> rel_error + json option" where
  "memory_get_row c r s = Inr (Option.bind (map_of (ms_collections s) c) (\<lambda>docs. map_of docs r))"

definition memory_put_row :: "string \<Rightarrow> string \<Rightarrow> json \<Rightarrow> (memory_storage, unit) io" where
  "memory_put_row c r doc s =
     (bump c (s\<lparr>ms_collections := btree_insert c (btree_insert r doc (memory_docs s c)) (ms_collections s)\<rparr>), Inr ())"

definition update_existing :: "string \<Rightarrow> ((string, json) btree_map \<Rightarrow> (string, json) btree_map) \<Rightarrow> memory_storage \<Rightarrow> memory_storage" where
  "update_existing c f s =
     (case map_of (ms_collections s) c of
        Some docs \<Rightarrow> s\<lparr>ms_collections := btree_insert c (f docs) (ms_collections s)\<rparr>
      | None \<Rightarrow> s)"

definition memory_delete :: "string \<Rightarrow> string \<Rightarrow> (memory_storage, unit) io" where
  "memory_delete c r s = (bump c (update_existing c (AList.delete r) s), Inr ())"

definition memory_truncate :: "string \<Rightarrow> (memory_storage, unit) io" where
  "memory_truncate c s = (bump c (update_existing c (\<lambda>_. []) s), Inr ())"

definition memory_load_catalog :: "memory_storage \<Rightarrow> rel_error + json option" where
  "memory_load_catalog s = Inr (ms_catalog s)"

definition memory_save_catalog :: "json \<Rightarrow> (memory_storage, unit) io" where
  "memory_save_catalog j s = (s\<lparr>ms_catalog := Some j\<rparr>, Inr ())"

definition memory_ops :: "memory_storage storage_ops" where
  "memory_ops =
     \<lparr> so_scan = memory_scan, so_get = memory_get_row, so_put = memory_put_row, so_delete = memory_delete,
       so_truncate = memory_truncate, so_load_catalog = memory_load_catalog,
       so_save_catalog = memory_save_catalog, so_generation = memory_generation \<rparr>"

subsection \<open>The contract\<close>

text \<open>
  A backend holds a map from collections and row ids to documents.  An operation that succeeds acts
  on it as its name says; a write that fails leaves it alone.
\<close>

locale relational_storage =
  fixes ops :: "'s storage_ops" and docs :: "'s \<Rightarrow> string \<Rightarrow> string \<Rightarrow> json option" and invar :: "'s \<Rightarrow> bool"
  assumes scan_docs: "invar s \<Longrightarrow> so_scan ops c s = Inr ps \<Longrightarrow> distinct (map fst ps) \<and> map_of ps = docs s c"
    and get_docs: "invar s \<Longrightarrow> so_get ops c r s = Inr x \<Longrightarrow> x = docs s c r"
    and put_docs: "invar s \<Longrightarrow> so_put ops c r d s = (s', res) \<Longrightarrow> invar s' \<and>
      docs s' = (if isl res then docs s else (docs s)(c := (docs s c)(r \<mapsto> d)))"
    and delete_docs: "invar s \<Longrightarrow> so_delete ops c r s = (s', res) \<Longrightarrow> invar s' \<and>
      docs s' = (if isl res then docs s else (docs s)(c := (docs s c)(r := None)))"
    and truncate_docs: "invar s \<Longrightarrow> so_truncate ops c s = (s', res) \<Longrightarrow> invar s' \<and>
      docs s' = (if isl res then docs s else (docs s)(c := Map.empty))"
    and save_docs: "invar s \<Longrightarrow> so_save_catalog ops j s = (s', res) \<Longrightarrow> invar s' \<and> docs s' = docs s"
    and load_saved: "invar s \<Longrightarrow> so_save_catalog ops j s = (s', Inr u) \<Longrightarrow> so_load_catalog ops s' = Inr (Some j)"

text \<open>One write, to a collection.\<close>

inductive writes :: "'s storage_ops \<Rightarrow> string \<Rightarrow> 's \<Rightarrow> 's \<Rightarrow> bool" for ops where
  "so_put ops c r d s = (s', res) \<Longrightarrow> writes ops c s s'"
| "so_delete ops c r s = (s', res) \<Longrightarrow> writes ops c s s'"
| "so_truncate ops c s = (s', res) \<Longrightarrow> writes ops c s s'"

inductive_cases writesE: "writes ops c s s'"

text \<open>
  The change counter of a collection, where the backend has one, strictly increases with every write
  to the collection, and a write to another collection leaves it alone.
\<close>

locale counting_storage = relational_storage +
  assumes counter_grows: "invar s \<Longrightarrow> writes ops c s s' \<Longrightarrow> so_generation ops c s = Some g \<Longrightarrow>
      \<exists>g'. so_generation ops c s' = Some g' \<and> g < g'"
    and counter_other: "invar s \<Longrightarrow> writes ops c s s' \<Longrightarrow> c' \<noteq> c \<Longrightarrow> so_generation ops c' s' = so_generation ops c' s"
    and counter_catalog: "invar s \<Longrightarrow> so_save_catalog ops j s = (s', res) \<Longrightarrow> so_generation ops c s' = so_generation ops c s"
begin

lemma writes_invar:
  assumes "invar s" "writes ops c s s'"
  shows "invar s' \<and> (c' \<noteq> c \<longrightarrow> docs s' c' = docs s c')"
  using assms(2)
proof (rule writesE)
  show ?thesis if "so_put ops c r d s = (s', res)" for r d res
    using put_docs [OF assms(1) that] by (simp split: if_splits)
  show ?thesis if "so_delete ops c r s = (s', res)" for r res
    using delete_docs [OF assms(1) that] by (simp split: if_splits)
  show ?thesis if "so_truncate ops c s = (s', res)" for res
    using truncate_docs [OF assms(1) that] by (simp split: if_splits)
qed

text \<open>While the counter of a collection stands still, so do its documents.\<close>

inductive changes :: "'a \<Rightarrow> 'a \<Rightarrow> bool" where
  "changes s s"
| "changes s s' \<Longrightarrow> writes ops c s' s'' \<Longrightarrow> changes s s''"
| "changes s s' \<Longrightarrow> so_save_catalog ops j s' = (s'', res) \<Longrightarrow> changes s s''"

lemma counter_decides:
  assumes "changes s s'" "invar s" "so_generation ops c s = Some g"
  shows "invar s' \<and> (\<exists>g'. so_generation ops c s' = Some g' \<and> g \<le> g' \<and> (g' = g \<longrightarrow> docs s' c = docs s c))"
  using assms
proof (induction rule: changes.induct)
  case (2 s s' c' s'')
  then obtain g' where IH: "invar s'" "so_generation ops c s' = Some g'" "g \<le> g'" "g' = g \<longrightarrow> docs s' c = docs s c" by blast
  show ?case
  proof (cases "c' = c")
    case True
    from counter_grows [OF IH(1) 2(2) [unfolded True] IH(2)] obtain g'' where "so_generation ops c s'' = Some g''" "g' < g''"
      by blast
    with IH(3) writes_invar [OF IH(1) 2(2)] show ?thesis by auto
  next
    case False
    with counter_other [OF IH(1) 2(2), of c] writes_invar [OF IH(1) 2(2), of c] IH show ?thesis by auto
  qed
next
  case (3 s s' j s'' res)
  then obtain g' where IH: "invar s'" "so_generation ops c s' = Some g'" "g \<le> g'" "g' = g \<longrightarrow> docs s' c = docs s c" by blast
  from save_docs [OF IH(1) 3(2)] counter_catalog [OF IH(1) 3(2)] IH show ?case by auto
qed simp

end

text \<open>The in-memory backend keeps the contract.\<close>

definition memory_wf :: "memory_storage \<Rightarrow> bool" where
  "memory_wf s \<longleftrightarrow> btree_wf (ms_collections s) \<and> btree_wf (ms_generations s) \<and> (\<forall>c. btree_wf (memory_docs s c))"

lemma memory_docs_simps [simp]:
  "memory_docs (bump c s) = memory_docs s" "memory_docs (s\<lparr>ms_catalog := j\<rparr>) = memory_docs s"
  by (simp_all add: memory_docs_def bump_def fun_eq_iff)

lemma memory_docs_put:
  "btree_wf (ms_collections s) \<Longrightarrow>
     memory_docs (s\<lparr>ms_collections := btree_insert c ds (ms_collections s)\<rparr>) = (memory_docs s)(c := ds)"
  by (auto simp: memory_docs_def map_of_btree_insert fun_eq_iff)

lemma memory_docs_existing:
  assumes "btree_wf (ms_collections s)" "f [] = []"
  shows "memory_docs (update_existing c f s) = (memory_docs s)(c := f (memory_docs s c))"
  using assms(2) memory_docs_put [OF assms(1), of c]
  by (auto simp: update_existing_def memory_docs_def [of s] split: option.split)

lemma memory_wf_bump: "memory_wf s \<Longrightarrow> memory_wf (bump c s)"
  by (simp add: memory_wf_def btree_wf_insert) (simp add: bump_def btree_wf_insert)

lemma memory_wf_put: "memory_wf s \<Longrightarrow> btree_wf ds \<Longrightarrow> memory_wf (s\<lparr>ms_collections := btree_insert c ds (ms_collections s)\<rparr>)"
  by (simp add: memory_wf_def memory_docs_put btree_wf_insert)

lemma memory_wf_existing:
  assumes "memory_wf s" "\<And>ds. btree_wf ds \<Longrightarrow> btree_wf (f ds)"
  shows "memory_wf (update_existing c f s)"
proof (cases "map_of (ms_collections s) c")
  case (Some ds)
  then have "memory_docs s c = ds" by (simp add: memory_docs_def)
  with assms(1) have "btree_wf ds" unfolding memory_wf_def by metis
  with Some memory_wf_put [OF assms(1) assms(2)] show ?thesis by (simp add: update_existing_def)
qed (simp add: update_existing_def assms)

lemma memory_docs_wf: "memory_wf s \<Longrightarrow> btree_wf (memory_docs s c)"
  by (simp add: memory_wf_def)

interpretation ms: relational_storage memory_ops "\<lambda>s c. map_of (memory_docs s c)" memory_wf
proof unfold_locales
  fix s :: memory_storage and c ps
  assume wf: "memory_wf s"
  then have coll: "btree_wf (ms_collections s)" by (simp add: memory_wf_def)
  note docs = memory_docs_wf [OF wf]
  show "so_scan memory_ops c s = Inr ps \<Longrightarrow> distinct (map fst ps) \<and> map_of ps = map_of (memory_docs s c)"
    using btree_wf_distinct [OF docs] by (auto simp: memory_ops_def memory_scan_def)
  show "so_get memory_ops c r s = Inr d \<Longrightarrow> d = map_of (memory_docs s c) r" for r d
    by (auto simp: memory_ops_def memory_get_row_def memory_docs_def split: option.split)
  show "memory_wf s' \<and> (\<lambda>c. map_of (memory_docs s' c)) = (if isl res then \<lambda>c. map_of (memory_docs s c)
      else (\<lambda>c. map_of (memory_docs s c))(c := (map_of (memory_docs s c))(r \<mapsto> d)))"
    if "so_put memory_ops c r d s = (s', res)" for r d s' res
    using that wf docs by (auto simp: memory_ops_def memory_put_row_def memory_docs_put [OF coll] map_of_btree_insert
        memory_wf_bump memory_wf_put btree_wf_insert)
  show "memory_wf s' \<and> (\<lambda>c. map_of (memory_docs s' c)) = (if isl res then \<lambda>c. map_of (memory_docs s c)
      else (\<lambda>c. map_of (memory_docs s c))(c := (map_of (memory_docs s c))(r := None)))"
    if "so_delete memory_ops c r s = (s', res)" for r s' res
    using that wf by (auto simp: memory_ops_def memory_delete_def memory_docs_existing [OF coll] map_of_delete fun_eq_iff
        memory_wf_bump memory_wf_existing btree_wf_delete)
  show "memory_wf s' \<and> (\<lambda>c. map_of (memory_docs s' c)) = (if isl res then \<lambda>c. map_of (memory_docs s c)
      else (\<lambda>c. map_of (memory_docs s c))(c := Map.empty))"
    if "so_truncate memory_ops c s = (s', res)" for s' res
    using that wf by (auto simp: memory_ops_def memory_truncate_def memory_docs_existing [OF coll] fun_eq_iff
        memory_wf_bump memory_wf_existing)
  show "memory_wf s' \<and> (\<lambda>c. map_of (memory_docs s' c)) = (\<lambda>c. map_of (memory_docs s c))"
    if "so_save_catalog memory_ops j s = (s', res)" for j s' res
    using that wf by (auto simp: memory_ops_def memory_save_catalog_def memory_wf_def)
  show "so_load_catalog memory_ops s' = Inr (Some j)" if "so_save_catalog memory_ops j s = (s', Inr u)" for j s' u
    using that by (auto simp: memory_ops_def memory_save_catalog_def memory_load_catalog_def)
qed

lemma update_existing_generation [simp]: "ms_generations (update_existing c f s) = ms_generations s"
  by (simp add: update_existing_def split: option.split)

interpretation mc: counting_storage memory_ops "\<lambda>s c. map_of (memory_docs s c)" memory_wf
proof unfold_locales
  have gen: "so_generation memory_ops c' s' = (if c' = c then map_option Suc (so_generation memory_ops c s) else so_generation memory_ops c' s)"
    if wf: "memory_wf s" and w: "writes memory_ops c s s'" for s s' c c'
  proof -
    have "\<exists>u. s' = bump c u \<and> ms_generations u = ms_generations s"
      using w by (cases rule: writesE) (auto simp: memory_ops_def memory_put_row_def memory_delete_def memory_truncate_def)
    with wf show ?thesis
      by (auto simp: memory_ops_def memory_generation_def bump_def map_of_btree_insert memory_wf_def)
  qed
  show "\<exists>g'. so_generation memory_ops c s' = Some g' \<and> g < g'"
    if "memory_wf s" "writes memory_ops c s s'" "so_generation memory_ops c s = Some g" for s s' c g
    using gen [OF that(1,2), of c] that(3) by simp
  show "so_generation memory_ops c' s' = so_generation memory_ops c' s"
    if "memory_wf s" "writes memory_ops c s s'" "c' \<noteq> c" for s s' c c'
    using gen [OF that(1,2), of c'] that(3) by simp
  show "so_generation memory_ops c s' = so_generation memory_ops c s"
    if "so_save_catalog memory_ops j s = (s', res)" for s j s' res c
    using that by (auto simp: memory_ops_def memory_save_catalog_def memory_generation_def)
qed

lemma memory_wf_new [simp]: "memory_wf memory_new"
  by (simp add: memory_wf_def memory_new_def memory_docs_def)

end
