(* ===== verification/Row_Index.thy ===== *)
theory Row_Index
  imports Sql_Text
begin

text \<open>
  The secondary indexes of the SQL layer (\<^verbatim>\<open>src/relational/index.rs\<close>): the composite keys of a row and
  the ordered map from a key to the set of row ids, behind the interface \<open>keyed_rows\<close> that the
  materialised tables rely on.
\<close>

subsection \<open>Keys\<close>

abbreviation "unit_separator \<equiv> CHR 0x1F"

text \<open>
  The components are joined by the unit separator.  The key of a lookup that may be NULL has the
  code point U+10FFFE, here in UTF-8, for a NULL component.
\<close>

definition composite_key :: "(sql_value \<Rightarrow> string) \<Rightarrow> sql_value list \<Rightarrow> string option" where
  "composite_key dec vs =
     (if list_ex is_null vs then None else Some (join_char unit_separator (map (index_key dec) vs)))"

definition null_key :: string where
  "null_key = [CHR 0xF4, CHR 0x8F, CHR 0xBF, CHR 0xBE]"

definition component_key :: "(sql_value \<Rightarrow> string) \<Rightarrow> sql_value \<Rightarrow> string" where
  "component_key dec v = (if is_null v then null_key else index_key dec v)"

definition ordered_key :: "(sql_value \<Rightarrow> string) \<Rightarrow> sql_value list \<Rightarrow> string" where
  "ordered_key dec vs = join_char unit_separator (map (component_key dec) vs)"

text \<open>Keys whose components do not hold the separator determine their components.\<close>

definition separable :: "(sql_value \<Rightarrow> string) \<Rightarrow> sql_value list \<Rightarrow> bool" where
  "separable dec vs \<longleftrightarrow> list_all (\<lambda>v. unit_separator \<notin> set (component_key dec v)) vs"

lemma ordered_key_inj:
  assumes "length vs = length ws" "separable dec vs" "separable dec ws"
  shows "ordered_key dec vs = ordered_key dec ws \<longleftrightarrow> map (component_key dec) vs = map (component_key dec) ws"
proof (cases "vs = []")
  case False
  with assms have "split_char unit_separator (ordered_key dec us) = map (component_key dec) us" if "us \<in> {vs, ws}" for us
    using that unfolding ordered_key_def by (intro split_join_char) (auto simp: separable_def list_all_iff)
  then show ?thesis by (metis insertCI ordered_key_def)
qed (use assms in simp)

lemma ordered_key_single [simp]: "ordered_key dec [v] = component_key dec v"
  by (simp add: ordered_key_def)

lemma composite_key_ordered: "composite_key dec vs = Some k \<Longrightarrow> k = ordered_key dec vs"
  by (auto simp: composite_key_def ordered_key_def component_key_def list_ex_iff intro!: arg_cong [where f = "join_char _"]
      split: if_splits)

subsection \<open>The index\<close>

type_synonym 'a btree_set = "'a list"

record secondary_index =
  si_map :: "(string, string btree_set) btree_map"
  si_unique :: bool

definition si_new :: "bool \<Rightarrow> secondary_index" where
  "si_new u = \<lparr> si_map = [], si_unique = u \<rparr>"

definition sec_clear :: "secondary_index \<Rightarrow> secondary_index" where
  "sec_clear ix = ix\<lparr>si_map := []\<rparr>"

definition si_get :: "secondary_index \<Rightarrow> string \<Rightarrow> string btree_set" where
  "si_get ix k = (case map_of (si_map ix) k of Some rids \<Rightarrow> rids | None \<Rightarrow> [])"

definition si_insert :: "string \<Rightarrow> string \<Rightarrow> secondary_index \<Rightarrow> secondary_index" where
  "si_insert k rid ix = ix\<lparr>si_map := btree_insert k (insort_insert rid (si_get ix k)) (si_map ix)\<rparr>"

definition si_remove :: "string \<Rightarrow> string \<Rightarrow> secondary_index \<Rightarrow> secondary_index" where
  "si_remove k rid ix =
     (case map_of (si_map ix) k of
        None \<Rightarrow> ix
      | Some rids \<Rightarrow>
          (let rids' = remove1 rid rids
           in ix\<lparr>si_map := (if rids' = [] then AList.delete k (si_map ix) else btree_insert k rids' (si_map ix))\<rparr>))"

definition unique_occupant :: "secondary_index \<Rightarrow> string \<Rightarrow> string option" where
  "unique_occupant ix k =
     Option.bind (map_of (si_map ix) k) (\<lambda>rids. case rids of [] \<Rightarrow> None | r # _ \<Rightarrow> Some r)"

datatype bound = Included string | Excluded string | Unbounded

fun above_lo :: "bound \<Rightarrow> string \<Rightarrow> bool" where
  "above_lo (Included b) k \<longleftrightarrow> b \<le> k"
| "above_lo (Excluded b) k \<longleftrightarrow> b < k"
| "above_lo Unbounded k \<longleftrightarrow> True"

fun below_hi :: "bound \<Rightarrow> string \<Rightarrow> bool" where
  "below_hi (Included b) k \<longleftrightarrow> k \<le> b"
| "below_hi (Excluded b) k \<longleftrightarrow> k < b"
| "below_hi Unbounded k \<longleftrightarrow> True"

text \<open>A range whose start lies behind its end, or is excluded at both sides of one key, panics.\<close>

fun range_ok :: "bound \<Rightarrow> bound \<Rightarrow> bool" where
  "range_ok (Included a) (Included b) \<longleftrightarrow> a \<le> b"
| "range_ok (Included a) (Excluded b) \<longleftrightarrow> a \<le> b"
| "range_ok (Excluded a) (Included b) \<longleftrightarrow> a \<le> b"
| "range_ok (Excluded a) (Excluded b) \<longleftrightarrow> a < b"
| "range_ok _ _ \<longleftrightarrow> True"

definition si_range :: "secondary_index \<Rightarrow> bound \<Rightarrow> bound \<Rightarrow> string btree_set option" where
  "si_range ix lo hi =
     (if range_ok lo hi
      then Some (fold insort_insert (concat (map snd (filter (\<lambda>(k, _). above_lo lo k \<and> below_hi hi k) (si_map ix)))) [])
      else None)"

definition sec_is_empty :: "secondary_index \<Rightarrow> bool" where
  "sec_is_empty ix \<longleftrightarrow> si_map ix = []"

subsection \<open>The interface\<close>

text \<open>
  What a client relies on: the rows found under a key after an insertion and a removal.  The rows
  are given by a map from row ids to the key of the row; an index \<open>represents\<close> the map when it finds
  under each key the rows that have it.
\<close>

locale keyed_rows =
  fixes insert remove :: "'k \<Rightarrow> 'r \<Rightarrow> 'ix \<Rightarrow> 'ix"
    and rows_at :: "'ix \<Rightarrow> 'k \<Rightarrow> 'r set"
    and invar :: "'ix \<Rightarrow> bool"
  assumes rows_at_insert: "invar ix \<Longrightarrow> rows_at (insert k r ix) k' = (if k' = k then Set.insert r (rows_at ix k) else rows_at ix k')"
    and rows_at_remove: "invar ix \<Longrightarrow> rows_at (remove k r ix) k' = (if k' = k then rows_at ix k - {r} else rows_at ix k')"
    and invar_insert: "invar ix \<Longrightarrow> invar (insert k r ix)"
    and invar_remove: "invar ix \<Longrightarrow> invar (remove k r ix)"
begin

definition represents :: "('r \<Rightarrow> 'k option) \<Rightarrow> 'ix \<Rightarrow> bool" where
  "represents keys ix \<longleftrightarrow> invar ix \<and> (\<forall>k. rows_at ix k = {r. keys r = Some k})"

lemma represents_insert:
  assumes "represents keys ix" "keys r = None"
  shows "represents (keys(r \<mapsto> k)) (insert k r ix)"
  using assms by (auto simp: represents_def rows_at_insert invar_insert)

lemma represents_remove:
  assumes "represents keys ix" "keys r = Some k"
  shows "represents (keys(r := None)) (remove k r ix)"
  using assms by (auto simp: represents_def rows_at_remove invar_remove)

lemma represents_update:
  assumes "represents keys ix" "keys r = Some k"
  shows "represents (keys(r \<mapsto> k')) (insert k' r (remove k r ix))"
  using represents_insert [OF represents_remove [OF assms], of r k'] by simp

lemma represents_fold:
  assumes "represents keys ix" "distinct (map fst ps)" "\<And>r. r \<in> fst ` set ps \<Longrightarrow> keys r = None"
  shows "represents (keys ++ map_of ps) (fold (\<lambda>(r, k). insert k r) ps ix)"
  using assms
proof (induction ps arbitrary: keys ix)
  case (Cons p ps)
  obtain r k where p: "p = (r, k)" by (cases p)
  have "represents (keys(r \<mapsto> k)) (insert k r ix)"
    using Cons.prems by (intro represents_insert) (auto simp: p)
  then have "represents (keys(r \<mapsto> k) ++ map_of ps) (fold (\<lambda>(r, k). insert k r) ps (insert k r ix))"
    by (rule Cons.IH) (use Cons.prems in \<open>auto simp: p\<close>)
  moreover have "keys(r \<mapsto> k) ++ map_of ps = keys ++ map_of (p # ps)"
    using Cons.prems(2) by (auto simp: p map_add_def fun_eq_iff split: option.split) (force dest: map_of_SomeD)+
  ultimately show ?case by (simp only: p fold_simps prod.case)
qed simp

end

text \<open>A secondary index provides it: its sets are sorted and never empty.\<close>

definition si_wf :: "secondary_index \<Rightarrow> bool" where
  "si_wf ix \<longleftrightarrow> btree_wf (si_map ix) \<and>
     (\<forall>k rids. map_of (si_map ix) k = Some rids \<longrightarrow> rids \<noteq> [] \<and> sorted rids \<and> distinct rids)"

definition si_rows :: "secondary_index \<Rightarrow> string \<Rightarrow> string set" where
  "si_rows ix k = set (si_get ix k)"

lemma si_wfD:
  assumes "si_wf ix"
  shows "btree_wf (si_map ix)" "map_of (si_map ix) k = Some rids \<Longrightarrow> rids \<noteq> [] \<and> sorted rids \<and> distinct rids"
  using assms unfolding si_wf_def by blast+

lemma si_wfI:
  assumes "btree_wf (si_map ix)" "\<And>k rids. map_of (si_map ix) k = Some rids \<Longrightarrow> rids \<noteq> [] \<and> sorted rids \<and> distinct rids"
  shows "si_wf ix"
  using assms unfolding si_wf_def by blast

lemma si_get_sorted:
  assumes "si_wf ix"
  shows "sorted (si_get ix k) \<and> distinct (si_get ix k)"
  using si_wfD(2) [OF assms, of k] by (cases "map_of (si_map ix) k") (simp_all add: si_get_def)

lemma si_get_Nil:
  assumes "si_wf ix"
  shows "si_get ix k = [] \<longleftrightarrow> map_of (si_map ix) k = None"
proof (cases "map_of (si_map ix) k")
  case (Some rids)
  from si_wfD(2) [OF assms this] Some show ?thesis by (simp add: si_get_def)
qed (simp add: si_get_def)

lemma si_get_insert:
  assumes "si_wf ix"
  shows "si_get (si_insert k r ix) k' = (if k' = k then insort_insert r (si_get ix k) else si_get ix k')"
  by (simp add: si_get_def si_insert_def map_of_btree_insert [OF si_wfD(1) [OF assms]])

lemma si_get_remove:
  assumes "si_wf ix"
  shows "si_get (si_remove k r ix) k' = (if k' = k then remove1 r (si_get ix k) else si_get ix k')"
  by (cases "map_of (si_map ix) k")
    (simp_all add: si_get_def si_remove_def map_of_btree_insert [OF si_wfD(1) [OF assms]] map_of_delete Let_def)

lemma insort_insert_not_Nil [simp]: "insort_insert x xs \<noteq> []"
  by (metis insert_not_empty set_empty set_insort_insert)

lemma si_wf_insert:
  assumes "si_wf ix"
  shows "si_wf (si_insert k r ix)"
proof (rule si_wfI)
  show "rids \<noteq> [] \<and> sorted rids \<and> distinct rids" if "map_of (si_map (si_insert k r ix)) k' = Some rids" for k' rids
    using that si_get_sorted [OF assms, of k] si_wfD(2) [OF assms, of k' rids]
    by (simp add: si_insert_def map_of_btree_insert [OF si_wfD(1) [OF assms]] sorted_insort_insert distinct_insort_insert
        split: if_splits) (auto simp: sorted_insort_insert distinct_insort_insert)
qed (simp add: si_insert_def btree_wf_insert si_wfD(1) [OF assms])

lemma si_wf_remove:
  assumes "si_wf ix"
  shows "si_wf (si_remove k r ix)"
proof (cases "map_of (si_map ix) k")
  case (Some old)
  note wf = si_wfD(1) [OF assms] and old = si_wfD(2) [OF assms Some]
  show ?thesis
  proof (rule si_wfI)
    show "rids \<noteq> [] \<and> sorted rids \<and> distinct rids" if "map_of (si_map (si_remove k r ix)) k' = Some rids" for k' rids
      using that old si_wfD(2) [OF assms, of k' rids]
      by (auto simp: si_remove_def Some Let_def map_of_btree_insert [OF wf] map_of_delete sorted_remove1 split: if_splits)
  qed (simp add: si_remove_def Some Let_def btree_wf_insert btree_wf_delete wf)
qed (simp add: si_remove_def assms)

lemma si_wf_new [simp]: "si_wf (si_new u)" "si_wf (sec_clear ix)"
  by (simp_all add: si_wf_def si_new_def sec_clear_def btree_wf_def)

interpretation six: keyed_rows si_insert si_remove si_rows si_wf
  by unfold_locales
    (simp_all add: si_rows_def si_get_insert si_get_remove set_insort_insert si_get_sorted si_wf_insert si_wf_remove)

lemma si_unique_simps [simp]:
  "si_unique (si_insert k r ix) = si_unique ix" "si_unique (si_remove k r ix) = si_unique ix"
  "si_unique (sec_clear ix) = si_unique ix"
  by (simp_all add: si_insert_def si_remove_def sec_clear_def Let_def split: option.split)

text \<open>Two indexes that find the same rows under each key are the same structure.\<close>

lemma si_eqI:
  assumes "si_wf a" "si_wf b" "si_unique a = si_unique b" "\<And>k. si_rows a k = si_rows b k"
  shows "a = b"
proof -
  have get: "si_get a k = si_get b k" for k
    using assms(4) [of k] si_get_sorted [OF assms(1)] si_get_sorted [OF assms(2)]
    by (intro sorted_distinct_set_unique) (auto simp: si_rows_def)
  note none = si_get_Nil [OF assms(1)] si_get_Nil [OF assms(2)]
  have "map_of (si_map a) k = map_of (si_map b) k" for k
    using get [of k] none [of k]
    by (cases "map_of (si_map a) k"; cases "map_of (si_map b) k") (simp_all add: si_get_def)
  then have "si_map a = si_map b" by (intro btree_wf_eqI si_wfD(1) assms ext)
  with assms(3) show ?thesis by simp
qed

lemma unique_occupant_iff:
  assumes "si_wf ix"
  shows "unique_occupant ix k = None \<longleftrightarrow> si_rows ix k = {}"
  using si_get_Nil [OF assms, of k]
  by (cases "map_of (si_map ix) k") (auto simp: unique_occupant_def si_rows_def si_get_def split: list.split)

lemma set_fold_insort_insert: "set (fold insort_insert xs ys) = set xs \<union> set ys"
  by (induction xs arbitrary: ys) (simp_all add: set_insort_insert)

text \<open>A range scan returns the rows under the keys in the range.\<close>

lemma si_range_rows:
  assumes "si_wf ix" "si_range ix lo hi = Some rids"
  shows "set rids = (\<Union>k \<in> {k. above_lo lo k \<and> below_hi hi k}. si_rows ix k)"
proof -
  have "r \<in> set rids \<longleftrightarrow> (\<exists>k rids. (k, rids) \<in> set (si_map ix) \<and> above_lo lo k \<and> below_hi hi k \<and> r \<in> set rids)" for r
    using assms(2) by (force simp: si_range_def set_fold_insort_insert split: if_splits)
  also have "\<dots> r \<longleftrightarrow> (\<exists>k. above_lo lo k \<and> below_hi hi k \<and> r \<in> si_rows ix k)" for r
    unfolding map_of_eq_Some_iff [OF btree_wf_distinct [OF si_wfD(1) [OF assms(1)]], symmetric]
    by (auto simp: si_rows_def si_get_def split: option.splits) (metis (full_types))
  finally show ?thesis by auto
qed

end
