(* ===== verification/Table_Store.thy ===== *)
theory Table_Store
  imports Sql_Catalog Sql_Json Row_Index
begin

text \<open>
  The materialised tables of the SQL engine (\<^verbatim>\<open>src/sql/store.rs\<close>): a table decoded from its documents, with
  its secondary indexes, the uniqueness check, the row operations that maintain the indexes, the
  encoding of a row as a document and the mutations that a statement produces.

  \<open>dec\<close> is the normalised text of numeric values that are not integers (theory \<open>Sql_Value\<close>), \<open>env\<close> the
  storage form of opaque values (theory \<open>Sql_Json\<close>).
\<close>

subsection \<open>Tables\<close>

type_synonym row_values = "(string, sql_value) btree_map"

record loaded_index =
  li_meta :: index_def
  li_data :: secondary_index

record loaded_table =
  lt_meta :: sql_table
  lt_rows :: "(string, row_values) btree_map"
  lt_versions :: "(string, int) btree_map"
  lt_indexes :: "loaded_index list"

datatype mutation =
    Put string string json
  | Delete string string
  | Truncate string

definition index_values :: "index_def \<Rightarrow> row_values \<Rightarrow> sql_value list" where
  "index_values ix vals = map (\<lambda>c. case map_of vals c of Some v \<Rightarrow> v | None \<Rightarrow> Null) (ix_columns ix)"

definition row_key :: "(sql_value \<Rightarrow> string) \<Rightarrow> index_def \<Rightarrow> row_values \<Rightarrow> string" where
  "row_key dec ix vals = ordered_key dec (index_values ix vals)"

definition describe_key :: "string list \<Rightarrow> sql_value list \<Rightarrow> string" where
  "describe_key cols vals =
     ''Key ('' @ join_str '', '' cols @ '')=('' @
     join_str '', '' (map (\<lambda>v. case to_text v of Some t \<Rightarrow> t | None \<Rightarrow> ''null'') vals) @ '') already exists.''"

subsection \<open>Documents\<close>

abbreviation "f_id \<equiv> ''_id''"
abbreviation "f_schema \<equiv> ''__schema''"
abbreviation "f_table \<equiv> ''__table''"
abbreviation "f_version \<equiv> ''__version''"
abbreviation "f_deleted \<equiv> ''__deleted''"

definition is_deleted :: "(string, json) btree_map \<Rightarrow> bool" where
  "is_deleted obj \<longleftrightarrow> Option.bind (map_of obj f_deleted) json_as_bool = Some True"

text \<open>Each column is taken out of the document, so that a second column of the name reads NULL.\<close>

fun decode_columns :: "json_env \<Rightarrow> column list \<Rightarrow> (string, json) btree_map \<Rightarrow> row_values \<Rightarrow> rel_error + row_values" where
  "decode_columns env [] obj vals = Inr vals"
| "decode_columns env (col # cols) obj vals =
     and_then (decode_json env (col_ty col) (case map_of obj (col_name col) of Some raw \<Rightarrow> raw | None \<Rightarrow> JNull))
       (\<lambda>v. decode_columns env cols (AList.delete (col_name col) obj) (btree_insert (col_name col) v vals))"

definition decode_row_owned :: "json_env \<Rightarrow> sql_table \<Rightarrow> json \<Rightarrow> rel_error + (string \<times> row_values \<times> int) option" where
  "decode_row_owned env table doc =
     (case json_as_object doc of
        None \<Rightarrow> Inl (Storage ''row document is not an object'')
      | Some obj \<Rightarrow>
          if is_deleted obj then Inr None
          else case Option.bind (map_of obj f_id) json_as_str of
            None \<Rightarrow> Inl (Storage ''row document missing _id'')
          | Some rid \<Rightarrow>
              (let version = (case Option.bind (map_of obj f_version) json_int of Some v \<Rightarrow> v | None \<Rightarrow> 1)
               in map_sum id (\<lambda>vals. Some (rid, vals, version)) (decode_columns env (tbl_columns table) obj [])))"

definition system_fields :: "sql_table \<Rightarrow> string \<Rightarrow> int \<Rightarrow> (string, json) btree_map" where
  "system_fields table rid version =
     btree_extend [(f_id, JString rid), (f_schema, JString (tbl_schema table)), (f_table, JString (tbl_name table)),
       (f_version, JInt version), (f_deleted, JBool False)] []"

definition encode_row :: "json_env \<Rightarrow> sql_table \<Rightarrow> string \<Rightarrow> row_values \<Rightarrow> int \<Rightarrow> json" where
  "encode_row env table rid vals version =
     JObject (btree_extend
       (map (\<lambda>col. (col_name col, case map_of vals (col_name col) of Some v \<Rightarrow> encode_json env v | None \<Rightarrow> JNull)) (tbl_columns table))
       (system_fields table rid version))"

definition derive_row_id :: "(sql_value \<Rightarrow> string) \<Rightarrow> sql_table \<Rightarrow> row_values \<Rightarrow> string option" where
  "derive_row_id dec table vals =
     (let pk = pk_columns table;
          parts = map (\<lambda>c. case map_of vals c of Some v \<Rightarrow> v | None \<Rightarrow> Null) pk
      in if pk = [] then None
         else if list_ex is_null parts then None
         else Some (join_char unit_separator (map (index_key dec) parts)))"

subsection \<open>Loading\<close>

definition index_row :: "(sql_value \<Rightarrow> string) \<Rightarrow> string \<Rightarrow> row_values \<Rightarrow> loaded_index \<Rightarrow> loaded_index" where
  "index_row dec rid vals li = li\<lparr>li_data := si_insert (row_key dec (li_meta li) vals) rid (li_data li)\<rparr>"

definition unindex_row :: "(sql_value \<Rightarrow> string) \<Rightarrow> string \<Rightarrow> row_values \<Rightarrow> loaded_index \<Rightarrow> loaded_index" where
  "unindex_row dec rid vals li = li\<lparr>li_data := si_remove (row_key dec (li_meta li) vals) rid (li_data li)\<rparr>"

definition rebuild_indexes :: "(sql_value \<Rightarrow> string) \<Rightarrow> loaded_table \<Rightarrow> loaded_table" where
  "rebuild_indexes dec t =
     t\<lparr>lt_indexes := fold (\<lambda>(rid, vals). map (index_row dec rid vals)) (lt_rows t)
          (map (\<lambda>li. li\<lparr>li_data := sec_clear (li_data li)\<rparr>) (lt_indexes t))\<rparr>"

fun decode_docs ::
  "json_env \<Rightarrow> sql_table \<Rightarrow> (string \<times> json) list \<Rightarrow> (string, row_values) btree_map \<Rightarrow> (string, int) btree_map \<Rightarrow>
     rel_error + (string, row_values) btree_map \<times> (string, int) btree_map" where
  "decode_docs env meta [] rows versions = Inr (rows, versions)"
| "decode_docs env meta ((_, doc) # docs) rows versions =
     and_then (decode_row_owned env meta doc)
       (\<lambda>r. case r of
          Some (rid, vals, version) \<Rightarrow>
            decode_docs env meta docs (btree_insert rid vals rows) (btree_insert rid version versions)
        | None \<Rightarrow> decode_docs env meta docs rows versions)"

definition load_index :: "index_def \<Rightarrow> loaded_index" where
  "load_index m = \<lparr> li_meta = m, li_data = si_new (ix_unique m) \<rparr>"

definition build ::
  "(sql_value \<Rightarrow> string) \<Rightarrow> json_env \<Rightarrow> sql_table \<Rightarrow> (string \<times> json) list \<Rightarrow> index_def list \<Rightarrow> rel_error + loaded_table" where
  "build dec env meta docs index_defs =
     map_sum id (\<lambda>(rows, versions). rebuild_indexes dec
         \<lparr> lt_meta = meta, lt_rows = rows, lt_versions = versions,
           lt_indexes = map load_index (filter (\<lambda>m. ix_method m \<noteq> ''hnsw'') index_defs) \<rparr>)
       (decode_docs env meta docs [] [])"

subsection \<open>Operations\<close>

fun check_unique_in ::
  "(sql_value \<Rightarrow> string) \<Rightarrow> row_values \<Rightarrow> string option \<Rightarrow> loaded_index list \<Rightarrow> rel_error + unit" where
  "check_unique_in dec vals exclude [] = Inr ()"
| "check_unique_in dec vals exclude (li # lis) =
     (let key_vals = index_values (li_meta li) vals
      in if \<not> ix_unique (li_meta li) \<or> composite_key dec key_vals = None then check_unique_in dec vals exclude lis
         else if list_ex (\<lambda>rid. Some rid \<noteq> exclude) (si_get (li_data li) (ordered_key dec key_vals))
         then Inl (UniqueViolation (ix_name (li_meta li)) (describe_key (ix_columns (li_meta li)) key_vals))
         else check_unique_in dec vals exclude lis)"

definition check_unique :: "(sql_value \<Rightarrow> string) \<Rightarrow> loaded_table \<Rightarrow> row_values \<Rightarrow> string option \<Rightarrow> rel_error + unit" where
  "check_unique dec t vals exclude = check_unique_in dec vals exclude (lt_indexes t)"

definition next_version :: "loaded_table \<Rightarrow> string \<Rightarrow> int" where
  "next_version t rid = signed_take_bit 63 ((case map_of (lt_versions t) rid of Some v \<Rightarrow> v | None \<Rightarrow> 0) + 1)"

definition put_row :: "string \<Rightarrow> row_values \<Rightarrow> loaded_table \<Rightarrow> loaded_table" where
  "put_row rid vals t =
     t\<lparr>lt_versions := btree_insert rid (next_version t rid) (lt_versions t), lt_rows := btree_insert rid vals (lt_rows t)\<rparr>"

definition apply_insert :: "(sql_value \<Rightarrow> string) \<Rightarrow> string \<Rightarrow> row_values \<Rightarrow> loaded_table \<Rightarrow> loaded_table" where
  "apply_insert dec rid vals t =
     put_row rid vals (t\<lparr>lt_indexes := map (index_row dec rid vals) (lt_indexes t)\<rparr>)"

definition apply_update :: "(sql_value \<Rightarrow> string) \<Rightarrow> string \<Rightarrow> row_values \<Rightarrow> loaded_table \<Rightarrow> loaded_table" where
  "apply_update dec rid vals t =
     (let unindexed = (case map_of (lt_rows t) rid of
            Some old \<Rightarrow> map (unindex_row dec rid old) (lt_indexes t)
          | None \<Rightarrow> lt_indexes t)
      in put_row rid vals (t\<lparr>lt_indexes := map (index_row dec rid vals) unindexed\<rparr>))"

definition apply_delete :: "(sql_value \<Rightarrow> string) \<Rightarrow> string \<Rightarrow> loaded_table \<Rightarrow> loaded_table" where
  "apply_delete dec rid t =
     (case map_of (lt_rows t) rid of
        Some old \<Rightarrow> t\<lparr>lt_rows := AList.delete rid (lt_rows t), lt_indexes := map (unindex_row dec rid old) (lt_indexes t)\<rparr>
      | None \<Rightarrow> t)"

definition index_lookup_eq :: "(sql_value \<Rightarrow> string) \<Rightarrow> loaded_table \<Rightarrow> string \<Rightarrow> sql_value \<Rightarrow> string list option" where
  "index_lookup_eq dec t column v =
     map_option (\<lambda>li. if is_null v then [] else si_get (li_data li) (ordered_key dec [v]))
       (find (\<lambda>li. ix_columns (li_meta li) = [column]) (lt_indexes t))"

definition version_of :: "loaded_table \<Rightarrow> string \<Rightarrow> int" where
  "version_of t rid = (case map_of (lt_versions t) rid of Some v \<Rightarrow> v | None \<Rightarrow> 1)"

end
