(* ===== verification/Exec_State.thy ===== *)
theory Exec_State
  imports Table_Store Lock_Manager
begin

text \<open>
  The state in which one SQL statement runs (\<^verbatim>\<open>src/sql/exec.rs\<close>), the schemas that name the columns of an
  intermediate row (\<^verbatim>\<open>src/sql/row.rs\<close>), and the rows of a table as the expressions see them
  (\<^verbatim>\<open>src/sql/dml.rs\<close>).

  A statement that fails is dropped with its state, so that an operation answers an error or the
  state it leaves.  A panic is an internal error.

  Parsing and evaluating expressions, queries and casts, and the bodies of trigger functions, are
  functions of an \<open>exec_env\<close>.  An expression is its text; it is evaluated in the state of the statement
  and does not change it.
\<close>

subsection \<open>Schemas of rows\<close>

record field_ref =
  fld_table :: "string option"
  fld_name :: string
  fld_ty :: sql_type

record row_schema =
  rs_fields :: "field_ref list"
  rs_unqualified :: "(string, nat list) hash_map"
  rs_qualified :: "(string \<times> string, nat) hash_map"

definition lookup_field ::
  "nat \<times> field_ref \<Rightarrow> (string, nat list) hash_map \<times> (string \<times> string, nat) hash_map \<Rightarrow>
     (string, nat list) hash_map \<times> (string \<times> string, nat) hash_map" where
  "lookup_field p m =
     (let (i, f) = p; (us, qs) = m
      in (AList.update (fld_name f) ((case map_of us (fld_name f) of Some is \<Rightarrow> is | None \<Rightarrow> []) @ [i]) us,
          case fld_table f of Some t \<Rightarrow> AList.update (t, fld_name f) i qs | None \<Rightarrow> qs))"

definition rebuild_lookup :: "row_schema \<Rightarrow> row_schema" where
  "rebuild_lookup s =
     (let (us, qs) = fold lookup_field (enumerate 0 (rs_fields s)) ([], [])
      in s\<lparr>rs_unqualified := us, rs_qualified := qs\<rparr>)"

definition row_schema_new :: "field_ref list \<Rightarrow> row_schema" where
  "row_schema_new fs = rebuild_lookup \<lparr> rs_fields = fs, rs_unqualified = [], rs_qualified = [] \<rparr>"

definition resolve_field :: "row_schema \<Rightarrow> string option \<Rightarrow> string \<Rightarrow> rel_error + nat" where
  "resolve_field s table c =
     (case table of
        Some t \<Rightarrow> (case map_of (rs_qualified s) (t, c) of Some i \<Rightarrow> Inr i | None \<Rightarrow> Inl (UndefinedColumn (t @ ''.'' @ c)))
      | None \<Rightarrow>
          (case map_of (rs_unqualified s) c of
             Some is \<Rightarrow>
               if length is = 1 then Inr (hd is)
               else Inl (Syntax (''column reference '' @ [dquote] @ c @ [dquote] @ '' is ambiguous''))
           | None \<Rightarrow> Inl (UndefinedColumn c)))"

definition concat_schema :: "row_schema \<Rightarrow> row_schema \<Rightarrow> row_schema" where
  "concat_schema s s' = row_schema_new (rs_fields s @ rs_fields s')"

type_synonym tuple = "sql_value list"

record row_set =
  set_schema :: row_schema
  set_rows :: "tuple list"

type_synonym frame = "row_schema \<times> tuple"

definition table_schema :: "sql_table \<Rightarrow> string \<Rightarrow> row_schema" where
  "table_schema table alias =
     row_schema_new (map (\<lambda>c. \<lparr> fld_table = Some alias, fld_name = col_name c, fld_ty = col_ty c \<rparr>) (tbl_columns table))"

definition row_tuple :: "sql_table \<Rightarrow> row_values \<Rightarrow> tuple" where
  "row_tuple table vals = map (\<lambda>c. case map_of vals (col_name c) of Some v \<Rightarrow> v | None \<Rightarrow> Null) (tbl_columns table)"

abbreviation row_frame :: "sql_table \<Rightarrow> string \<Rightarrow> row_values \<Rightarrow> frame" where
  "row_frame table alias vals \<equiv> (table_schema table alias, row_tuple table vals)"

subsection \<open>Deferred checks\<close>

record constraint_modes =
  cm_all_deferred :: "bool option"
  cm_named :: "(qualified_name \<times> string, bool) hash_map"

definition is_deferred :: "constraint_modes \<Rightarrow> qualified_name \<Rightarrow> foreign_key \<Rightarrow> bool" where
  "is_deferred cm q fk =
     (is_deferrable (fk_deferrable fk) \<and>
      (case map_of (cm_named cm) (q, fk_name fk) of
         Some v \<Rightarrow> v
       | None \<Rightarrow> (case cm_all_deferred cm of Some v \<Rightarrow> v | None \<Rightarrow> initially_deferred (fk_deferrable fk))))"

datatype deferred_fk_check =
    Child qualified_name foreign_key string "sql_value list"
  | Referenced qualified_name qualified_name foreign_key string "sql_value list"
  | MatchFullNullMix qualified_name foreign_key string

fun check_identity :: "deferred_fk_check \<Rightarrow> qualified_name \<times> string" where
  "check_identity (Child child fk _ _) = (child, fk_name fk)"
| "check_identity (Referenced _ child fk _ _) = (child, fk_name fk)"
| "check_identity (MatchFullNullMix child fk _) = (child, fk_name fk)"

datatype trigger_op = TriggerInsert | TriggerUpdate | TriggerDelete | TriggerTruncate

record deferred_trigger =
  dt_trigger :: trigger_def
  dt_table :: sql_table
  dt_op :: trigger_op
  dt_old :: "row_values option"
  dt_new :: "row_values option"

subsection \<open>The state of a statement\<close>

type_synonym pending_lock = "lock_object \<times> lock_mode \<times> lock_scope"

text \<open>A policy that applies to the role of the statement, and the rows its policies hide.\<close>

record compiled_policy =
  cp_cmd :: policy_cmd
  cp_permissive :: bool
  cp_using :: "string option"
  cp_check :: "string option"

record rls_context =
  rls_policies :: "(qualified_name, compiled_policy list) hash_map"
  rls_select_hidden :: "(qualified_name, string btree_set) hash_map"
  rls_dml_hidden :: "(qualified_name, string btree_set) hash_map"

record exec_state =
  ex_catalog :: catalog
  ex_tables :: "(qualified_name, loaded_table) hash_map"
  ex_mutations :: "mutation list"
  ex_catalog_dirty :: bool
  ex_cte :: "(string, row_set) hash_map"
  ex_username :: string
  ex_pending_locks :: "pending_lock list"
  ex_rls :: rls_context
  ex_constraint_modes :: "constraint_modes option"
  ex_deferred_checks :: "deferred_fk_check list"
  ex_deferred_triggers :: "deferred_trigger list"

definition exec_new :: "catalog \<Rightarrow> (qualified_name, loaded_table) hash_map \<Rightarrow> string \<Rightarrow> exec_state" where
  "exec_new c ts user =
     \<lparr> ex_catalog = c, ex_tables = ts, ex_mutations = [], ex_catalog_dirty = False, ex_cte = [], ex_username = user,
       ex_pending_locks = [], ex_rls = \<lparr> rls_policies = [], rls_select_hidden = [], rls_dml_hidden = [] \<rparr>,
       ex_constraint_modes = None, ex_deferred_checks = [], ex_deferred_triggers = [] \<rparr>"

record trigger_invocation =
  ti_trigger_name :: string
  ti_table :: sql_table
  ti_op :: string
  ti_timing :: trigger_timing
  ti_level :: trigger_level
  ti_old :: "row_values option"
  ti_new :: "row_values option"

text \<open>
  What the statement needs of the parser and of the evaluator: \<open>xe_select_item\<close> is the expression of
  the first item of a \<^verbatim>\<open>SELECT\<close> of a text, if it has one.
\<close>

record exec_env =
  xe_dec :: "sql_value \<Rightarrow> string"
  xe_json :: json_env
  xe_cast :: "sql_value \<Rightarrow> sql_type \<Rightarrow> rel_error + sql_value"
  xe_parse_expr :: "string \<Rightarrow> rel_error + string"
  xe_select_item :: "string \<Rightarrow> rel_error + string option"
  xe_eval :: "exec_state \<Rightarrow> string \<Rightarrow> frame list \<Rightarrow> rel_error + sql_value"
  xe_query :: "exec_state \<Rightarrow> string \<Rightarrow> rel_error + row_set"
  xe_display :: "rel_error \<Rightarrow> string"
  xe_call_trigger :: "function_def \<Rightarrow> trigger_invocation \<Rightarrow> exec_state \<Rightarrow> rel_error + row_values option \<times> exec_state"

definition record_pending :: "lock_object \<Rightarrow> lock_mode \<Rightarrow> lock_scope \<Rightarrow> exec_state \<Rightarrow> exec_state" where
  "record_pending obj m sc st = st\<lparr>ex_pending_locks := ex_pending_locks st @ [(obj, m, sc)]\<rparr>"

definition push_mutation :: "mutation \<Rightarrow> exec_state \<Rightarrow> exec_state" where
  "push_mutation m st = st\<lparr>ex_mutations := ex_mutations st @ [m]\<rparr>"

definition push_deferred :: "deferred_fk_check \<Rightarrow> exec_state \<Rightarrow> exec_state" where
  "push_deferred d st = st\<lparr>ex_deferred_checks := ex_deferred_checks st @ [d]\<rparr>"

definition set_table :: "qualified_name \<Rightarrow> loaded_table \<Rightarrow> exec_state \<Rightarrow> exec_state" where
  "set_table q t st = st\<lparr>ex_tables := AList.update q t (ex_tables st)\<rparr>"

definition loaded_mut :: "exec_state \<Rightarrow> qualified_name \<Rightarrow> rel_error + loaded_table" where
  "loaded_mut st q = (case map_of (ex_tables st) q of Some t \<Rightarrow> Inr t | None \<Rightarrow> Inl (Internal ''table not loaded''))"

text \<open>A condition holds only when it evaluates to true: false and NULL do not.\<close>

definition eval_true :: "exec_env \<Rightarrow> exec_state \<Rightarrow> string \<Rightarrow> frame list \<Rightarrow> rel_error + bool" where
  "eval_true env st e frames = map_sum id (\<lambda>v. truthy v = Some True) (xe_eval env st e frames)"

fun for_each :: "('x \<Rightarrow> 's \<Rightarrow> 'e + 's) \<Rightarrow> 'x list \<Rightarrow> 's \<Rightarrow> 'e + 's" where
  "for_each f [] s = Inr s"
| "for_each f (x # xs) s = and_then (f x s) (for_each f xs)"

lemma map_sum_Inr: "map_sum f g r = Inr y \<longleftrightarrow> (\<exists>x. r = Inr x \<and> y = g x)"
  by (cases r) auto

lemma for_each_inv:
  assumes "for_each f xs s = Inr s'" "P s" "\<And>x s s'. x \<in> set xs \<Longrightarrow> P s \<Longrightarrow> f x s = Inr s' \<Longrightarrow> P s'"
  shows "P s'"
  using assms by (induction xs arbitrary: s) (auto simp: and_then_Inr)

subsection \<open>Coercion\<close>

definition coerce_to :: "exec_env \<Rightarrow> sql_value \<Rightarrow> sql_type \<Rightarrow> string \<Rightarrow> rel_error + sql_value" where
  "coerce_to env v ty col =
     (if is_null v then Inr Null
      else map_err (\<lambda>_. DatatypeMismatch col (type_name ty) (type_name (type_of v))) (xe_cast env v ty))"

definition coerce_to_col :: "exec_env \<Rightarrow> sql_value \<Rightarrow> sql_table \<Rightarrow> string \<Rightarrow> rel_error + sql_value" where
  "coerce_to_col env v table col =
     (case table_column table col of
        None \<Rightarrow> Inl (UndefinedColumn col)
      | Some c \<Rightarrow> coerce_to env v (col_ty c) col)"

subsection \<open>Name resolution\<close>

lemma sorted_last: "sorted xs \<Longrightarrow> x \<in> set xs \<Longrightarrow> x \<le> last xs"
  by (induction xs) auto

lemma distinct_singleton_set: "distinct xs \<Longrightarrow> set xs = {x} \<Longrightarrow> xs = [x]"
proof (cases xs)
  case (Cons y ys)
  assume "distinct xs" "set xs = {x}"
  with Cons show ?thesis by (cases ys) auto
qed simp

lemma fold_lookup:
  fixes fs :: "field_ref list"
  assumes "fold lookup_field (enumerate n fs) ([], []) = (us, qs)"
  shows "map_of us c = (let is = filter (\<lambda>i. fld_name (fs ! (i - n)) = c) [n..<n + length fs] in if is = [] then None else Some is) \<and>
    map_of qs (t, c) = (let is = filter (\<lambda>i. fld_table (fs ! (i - n)) = Some t \<and> fld_name (fs ! (i - n)) = c) [n..<n + length fs]
                        in if is = [] then None else Some (last is))"
  using assms
proof (induction fs arbitrary: us qs rule: rev_induct)
  case (snoc f fs)
  obtain us0 qs0 where *: "fold lookup_field (enumerate n fs) ([], []) = (us0, qs0)" by fastforce
  have step: "(us, qs) = lookup_field (n + length fs, f) (us0, qs0)" using snoc.prems * by (simp add: enumerate_append_eq)
  have idx: "[n..<n + length (fs @ [f])] = [n..<n + length fs] @ [n + length fs]" by simp
  have eq: "filter (\<lambda>i. P ((fs @ [f]) ! (i - n))) [n..<n + length fs] = filter (\<lambda>i. P (fs ! (i - n))) [n..<n + length fs]"
    for P by (rule filter_cong) (auto simp: nth_append)
  show ?case
    using snoc.IH [OF *] step unfolding idx filter_append eq [where P = "\<lambda>f. fld_name f = c"]
      eq [where P = "\<lambda>f. fld_table f = Some t \<and> fld_name f = c"]
    by (auto simp: lookup_field_def Let_def nth_append update_conv split: option.splits)
qed simp

text \<open>A column is resolved by the tables of names as by a scan of the fields.\<close>

lemma resolve_field_scan:
  "resolve_field (row_schema_new fs) (Some t) c = Inr i \<longleftrightarrow>
     (i < length fs \<and> fld_table (fs ! i) = Some t \<and> fld_name (fs ! i) = c \<and>
      (\<forall>j < length fs. fld_table (fs ! j) = Some t \<and> fld_name (fs ! j) = c \<longrightarrow> j \<le> i))"
  "resolve_field (row_schema_new fs) None c = Inr i \<longleftrightarrow>
     (i < length fs \<and> (\<forall>j < length fs. fld_name (fs ! j) = c \<longleftrightarrow> j = i))"
proof -
  obtain us qs where *: "fold lookup_field (enumerate 0 fs) ([], []) = (us, qs)" by fastforce
  have s: "rs_unqualified (row_schema_new fs) = us" "rs_qualified (row_schema_new fs) = qs"
    by (simp_all add: row_schema_new_def rebuild_lookup_def *)
  note l = fold_lookup [OF *, simplified]
  let ?q = "filter (\<lambda>i. fld_table (fs ! i) = Some t \<and> fld_name (fs ! i) = c) [0..<length fs]"
  have last: "last ?q = i \<longleftrightarrow> i \<in> set ?q \<and> (\<forall>j \<in> set ?q. j \<le> i)" if "?q \<noteq> []"
  proof -
    have "sorted ?q" by (simp add: sorted_wrt_filter)
    then have "\<forall>j \<in> set ?q. j \<le> last ?q" using sorted_last by blast
    with last_in_set [OF that] show ?thesis
      by (intro iffI conjI) (simp_all only: , blast intro: order_antisym)
  qed
  show "resolve_field (row_schema_new fs) (Some t) c = Inr i \<longleftrightarrow>
     (i < length fs \<and> fld_table (fs ! i) = Some t \<and> fld_name (fs ! i) = c \<and>
      (\<forall>j < length fs. fld_table (fs ! j) = Some t \<and> fld_name (fs ! j) = c \<longrightarrow> j \<le> i))"
  proof (cases "?q = []")
    case True
    then have "map_of qs (t, c) = None" using l [of c t] by (simp add: Let_def)
    moreover have "\<not> (fld_table (fs ! i) = Some t \<and> fld_name (fs ! i) = c)" if "i < length fs"
      using True that by (simp add: filter_empty_conv)
    ultimately show ?thesis by (auto simp: resolve_field_def s)
  next
    case False
    then have "map_of qs (t, c) = Some (last ?q)" using l [of c t] by (simp add: Let_def)
    with last [OF False] show ?thesis by (auto simp: resolve_field_def s)
  qed
  let ?u = "filter (\<lambda>i. fld_name (fs ! i) = c) [0..<length fs]"
  have one: "length ?u = 1 \<and> hd ?u = i \<longleftrightarrow> i < length fs \<and> (\<forall>j < length fs. fld_name (fs ! j) = c \<longleftrightarrow> j = i)"
  proof
    assume "length ?u = 1 \<and> hd ?u = i"
    then have "?u = [i]" by (cases ?u) auto
    then have "set ?u = {i}" by (metis list.set(1,2))
    then show "i < length fs \<and> (\<forall>j < length fs. fld_name (fs ! j) = c \<longleftrightarrow> j = i)" by auto
  next
    assume "i < length fs \<and> (\<forall>j < length fs. fld_name (fs ! j) = c \<longleftrightarrow> j = i)"
    then have "set ?u = {i}" by auto
    moreover have "distinct ?u" by simp
    ultimately have "?u = [i]" by (intro distinct_singleton_set)
    then show "length ?u = 1 \<and> hd ?u = i" by simp
  qed
  show "resolve_field (row_schema_new fs) None c = Inr i \<longleftrightarrow>
     (i < length fs \<and> (\<forall>j < length fs. fld_name (fs ! j) = c \<longleftrightarrow> j = i))"
  proof (cases "?u = []")
    case True
    then have "map_of us c = None" using l [of c t] by (simp add: Let_def)
    with one True show ?thesis by (simp add: resolve_field_def s)
  next
    case False
    then have "map_of us c = Some ?u" using l [of c t] by (simp add: Let_def)
    then show ?thesis unfolding one [symmetric] by (simp add: resolve_field_def s)
  qed
qed

end
