(* ===== verification/Row_Write.thy ===== *)
theory Row_Write
  imports Exec_State
begin

text \<open>
  Rows of a statement (\<^verbatim>\<open>src/sql/dml.rs\<close>): building a row from the values a statement provides, its
  constraints, the conflicts with other rows, and writing it to the loaded table and to the list of
  mutations.
\<close>

subsection \<open>Building and checking rows\<close>

definition eval_default :: "exec_env \<Rightarrow> exec_state \<Rightarrow> string \<Rightarrow> rel_error + sql_value" where
  "eval_default env st def =
     and_then (xe_select_item env def) (\<lambda>item. case item of Some e \<Rightarrow> xe_eval env st e [] | None \<Rightarrow> Inr Null)"

text \<open>The value of a column that a statement does not provide: its serial, its default or NULL.\<close>

definition absent_value :: "exec_env \<Rightarrow> sql_table \<Rightarrow> column \<Rightarrow> exec_state \<Rightarrow> rel_error + sql_value \<times> exec_state" where
  "absent_value env table col st =
     (case col_identity_sequence col of
        Some s \<Rightarrow>
          and_then (next_sequence_value (tbl_schema table) s (ex_catalog st)) (\<lambda>(n, c).
            map_sum id (\<lambda>v. (v, st\<lparr>ex_catalog := c, ex_catalog_dirty := True\<rparr>)) (coerce_to env (Int8 n) (col_ty col) (col_name col)))
      | None \<Rightarrow>
          (case col_default col of
             Some def \<Rightarrow>
               and_then (eval_default env st def) (\<lambda>v.
                 if is_null v then Inr (Null, st) else map_sum id (\<lambda>v. (v, st)) (coerce_to env v (col_ty col) (col_name col)))
           | None \<Rightarrow> Inr (Null, st)))"

fun build_columns :: "exec_env \<Rightarrow> sql_table \<Rightarrow> row_values \<Rightarrow> column list \<Rightarrow> row_values \<Rightarrow> exec_state \<Rightarrow> rel_error + row_values \<times> exec_state" where
  "build_columns env table provided [] vals st = Inr (vals, st)"
| "build_columns env table provided (col # cols) vals st =
     and_then
       (case map_of provided (col_name col) of
          Some p \<Rightarrow> if is_null p then Inr (Null, st) else map_sum id (\<lambda>v. (v, st)) (coerce_to env p (col_ty col) (col_name col))
        | None \<Rightarrow> absent_value env table col st)
       (\<lambda>(v, st1). build_columns env table provided cols (btree_insert (col_name col) v vals) st1)"

definition build_row :: "exec_env \<Rightarrow> sql_table \<Rightarrow> row_values \<Rightarrow> exec_state \<Rightarrow> rel_error + row_values \<times> exec_state" where
  "build_row env table provided st = build_columns env table provided (tbl_columns table) [] st"

definition null_column :: "sql_table \<Rightarrow> row_values \<Rightarrow> column option" where
  "null_column table vals =
     find (\<lambda>col. \<not> col_nullable col \<and> (case map_of vals (col_name col) of Some v \<Rightarrow> is_null v | None \<Rightarrow> True)) (tbl_columns table)"

text \<open>A CHECK constraint is violated only when it evaluates to false.\<close>

fun checks_pass :: "exec_env \<Rightarrow> exec_state \<Rightarrow> sql_table \<Rightarrow> row_values \<Rightarrow> check_constraint list \<Rightarrow> rel_error + unit" where
  "checks_pass env st table vals [] = Inr ()"
| "checks_pass env st table vals (c # cs) =
     and_then (xe_select_item env (check_expr c)) (\<lambda>item.
       case item of
         None \<Rightarrow> checks_pass env st table vals cs
       | Some e \<Rightarrow>
           and_then (xe_eval env st e [row_frame table (tbl_name table) vals]) (\<lambda>v.
             if truthy v = Some False then Inl (CheckViolation (tbl_name table) (check_name c))
             else checks_pass env st table vals cs))"

definition check_constraints :: "exec_env \<Rightarrow> exec_state \<Rightarrow> sql_table \<Rightarrow> row_values \<Rightarrow> rel_error + unit" where
  "check_constraints env st table vals = checks_pass env st table vals (tbl_checks table)"

definition check_row_constraints :: "exec_env \<Rightarrow> exec_state \<Rightarrow> sql_table \<Rightarrow> row_values \<Rightarrow> rel_error + unit" where
  "check_row_constraints env st table vals =
     (case null_column table vals of
        Some col \<Rightarrow> Inl (NotNullViolation (col_name col) (tbl_name table))
      | None \<Rightarrow> check_constraints env st table vals)"

definition observe_serials :: "sql_table \<Rightarrow> row_values \<Rightarrow> exec_state \<Rightarrow> exec_state" where
  "observe_serials table vals st =
     st\<lparr>ex_catalog := fold (\<lambda>col c.
         case (col_identity_sequence col, Option.bind (map_of vals (col_name col)) as_i64) of
           (Some s, Some v) \<Rightarrow> observe_sequence_value (tbl_schema table) s v c
         | _ \<Rightarrow> c) (tbl_columns table) (ex_catalog st)\<rparr>"

definition check_unique_for :: "exec_env \<Rightarrow> exec_state \<Rightarrow> qualified_name \<Rightarrow> row_values \<Rightarrow> string option \<Rightarrow> rel_error + unit" where
  "check_unique_for env st q vals exclude =
     (case map_of (ex_tables st) q of Some t \<Rightarrow> check_unique (xe_dec env) t vals exclude | None \<Rightarrow> Inr ())"

text \<open>The first row that conflicts with a new one, in the indexes on the target columns or in all.\<close>

fun conflict_in :: "(sql_value \<Rightarrow> string) \<Rightarrow> row_values \<Rightarrow> string list option \<Rightarrow> loaded_index list \<Rightarrow> string option" where
  "conflict_in dec vals target [] = None"
| "conflict_in dec vals target (li # lis) =
     (let key_vals = index_values (li_meta li) vals
      in if \<not> ix_unique (li_meta li) \<or> (case target of Some t \<Rightarrow> ix_columns (li_meta li) \<noteq> t | None \<Rightarrow> False) \<or>
           composite_key dec key_vals = None
         then conflict_in dec vals target lis
         else case si_get (li_data li) (ordered_key dec key_vals) of
           rid # _ \<Rightarrow> Some rid
         | [] \<Rightarrow> conflict_in dec vals target lis)"

definition find_conflict :: "exec_env \<Rightarrow> exec_state \<Rightarrow> qualified_name \<Rightarrow> row_values \<Rightarrow> string list option \<Rightarrow> string option" where
  "find_conflict env st q vals target =
     Option.bind (map_of (ex_tables st) q) (\<lambda>t. conflict_in (xe_dec env) vals target (lt_indexes t))"

subsection \<open>Writing rows\<close>

definition insert_row :: "exec_env \<Rightarrow> qualified_name \<Rightarrow> sql_table \<Rightarrow> string \<Rightarrow> row_values \<Rightarrow> exec_state \<Rightarrow> rel_error + exec_state" where
  "insert_row env q table rid vals st =
     and_then (loaded_mut st q) (\<lambda>t.
       Inr (push_mutation (Put (tbl_storage_collection table) rid (encode_row (xe_json env) table rid vals (version_of t rid)))
              (set_table q (apply_insert (xe_dec env) rid vals t) st)))"

definition write_update :: "exec_env \<Rightarrow> qualified_name \<Rightarrow> sql_table \<Rightarrow> string \<Rightarrow> row_values \<Rightarrow> exec_state \<Rightarrow> rel_error + exec_state" where
  "write_update env q table rid new st =
     (let new_id = (case derive_row_id (xe_dec env) table new of Some i \<Rightarrow> i | None \<Rightarrow> rid);
          coll = tbl_storage_collection table
      in and_then (loaded_mut st q) (\<lambda>t.
           if new_id \<noteq> rid then
             (let t1 = apply_delete (xe_dec env) rid t
              in Inr (push_mutation (Put coll new_id (encode_row (xe_json env) table new_id new (version_of t1 new_id)))
                   (set_table q (apply_insert (xe_dec env) new_id new t1) (push_mutation (Delete coll rid) st))))
           else
             (let t1 = apply_update (xe_dec env) rid new t
              in Inr (push_mutation (Put coll rid (encode_row (xe_json env) table rid new (version_of t1 rid))) (set_table q t1 st)))))"

definition delete_row :: "exec_env \<Rightarrow> qualified_name \<Rightarrow> string \<Rightarrow> string \<Rightarrow> exec_state \<Rightarrow> rel_error + exec_state" where
  "delete_row env q coll rid st =
     and_then (loaded_mut st q) (\<lambda>t.
       Inr (push_mutation (Delete coll rid) (set_table q (apply_delete (xe_dec env) rid t) st)))"

end
