(* ===== verification/Sql_Trigger.thy ===== *)
theory Sql_Trigger
  imports Exec_State
begin

text \<open>
  Firing triggers (\<^verbatim>\<open>src/sql/trigger.rs\<close>): which triggers an event fires and in what order, the chain of
  BEFORE ROW triggers, the deferral of constraint triggers, and triggers of statements and views.
  The body of a trigger function is \<open>xe_call_trigger\<close>.
\<close>

definition op_as_sql :: "trigger_op \<Rightarrow> string" where
  "op_as_sql op =
     (case op of TriggerInsert \<Rightarrow> ''INSERT'' | TriggerUpdate \<Rightarrow> ''UPDATE'' | TriggerDelete \<Rightarrow> ''DELETE'' | TriggerTruncate \<Rightarrow> ''TRUNCATE'')"

fun event_matches :: "trigger_op \<Rightarrow> string btree_set option \<Rightarrow> trigger_event \<Rightarrow> bool" where
  "event_matches op cols OnInsert \<longleftrightarrow> op = TriggerInsert"
| "event_matches op cols OnDelete \<longleftrightarrow> op = TriggerDelete"
| "event_matches op cols OnTruncate \<longleftrightarrow> op = TriggerTruncate"
| "event_matches op cols (OnUpdate cs) \<longleftrightarrow>
     op = TriggerUpdate \<and> (cs = [] \<or> (case cols of Some s \<Rightarrow> list_ex (\<lambda>c. c \<in> set s) cs | None \<Rightarrow> False))"

definition fires :: "trigger_timing \<Rightarrow> trigger_level \<Rightarrow> trigger_op \<Rightarrow> string btree_set option \<Rightarrow> trigger_def \<Rightarrow> bool" where
  "fires timing level op cols t \<longleftrightarrow>
     trg_enabled t \<and> trg_timing t = timing \<and> trg_level t = level \<and> list_ex (event_matches op cols) (trg_events t)"

definition triggers_for :: "sql_table \<Rightarrow> trigger_timing \<Rightarrow> trigger_level \<Rightarrow> trigger_op \<Rightarrow> string btree_set option \<Rightarrow> trigger_def list" where
  "triggers_for table timing level op cols = sort_key trg_name (filter (fires timing level op cols) (tbl_triggers table))"

fun coerce_cells :: "exec_env \<Rightarrow> sql_table \<Rightarrow> row_values \<Rightarrow> row_values \<Rightarrow> rel_error + row_values" where
  "coerce_cells env table [] row = Inr row"
| "coerce_cells env table ((c, v) # cells) row =
     and_then (coerce_to_col env v table c) (\<lambda>w. coerce_cells env table cells (btree_insert c w row))"

definition coerce_trigger_row :: "exec_env \<Rightarrow> sql_table \<Rightarrow> row_values \<Rightarrow> rel_error + row_values" where
  "coerce_trigger_row env table row = coerce_cells env table row []"

definition resolve_trigger_function :: "exec_state \<Rightarrow> trigger_def \<Rightarrow> rel_error + function_def" where
  "resolve_trigger_function st t =
     (case find_function (ex_catalog st) (Some (fst (trg_function t))) (snd (trg_function t)) 0 of
        Some d \<Rightarrow> Inr d
      | None \<Rightarrow> Inl (UndefinedFunction (snd (trg_function t) @ ''()'')))"

definition trigger_when_passes :: "exec_env \<Rightarrow> exec_state \<Rightarrow> trigger_def \<Rightarrow> sql_table \<Rightarrow> row_values option \<Rightarrow> row_values option \<Rightarrow> rel_error + bool" where
  "trigger_when_passes env st t table old new =
     (case trg_when_expr t of
        None \<Rightarrow> Inr True
      | Some e \<Rightarrow>
          and_then (xe_parse_expr env e) (\<lambda>x.
            eval_true env st x
              ((case old of Some r \<Rightarrow> [row_frame table ''old'' r] | None \<Rightarrow> []) @
               (case new of Some r \<Rightarrow> [row_frame table ''new'' r] | None \<Rightarrow> []))))"

definition call_trigger ::
  "exec_env \<Rightarrow> trigger_def \<Rightarrow> sql_table \<Rightarrow> trigger_op \<Rightarrow> trigger_timing \<Rightarrow> trigger_level \<Rightarrow> row_values option \<Rightarrow> row_values option \<Rightarrow>
     exec_state \<Rightarrow> rel_error + row_values option \<times> exec_state" where
  "call_trigger env t table op timing level old new st =
     and_then (resolve_trigger_function st t) (\<lambda>d.
       xe_call_trigger env d
         \<lparr> ti_trigger_name = trg_name t, ti_table = table, ti_op = op_as_sql op, ti_timing = timing, ti_level = level,
           ti_old = old, ti_new = new \<rparr> st)"

text \<open>
  The chain of BEFORE ROW triggers: the row a trigger answers is coerced and goes to the next one, and a
  trigger that answers no row suppresses the operation.
\<close>

fun before_chain ::
  "exec_env \<Rightarrow> sql_table \<Rightarrow> trigger_op \<Rightarrow> row_values option \<Rightarrow> trigger_def list \<Rightarrow> row_values option \<Rightarrow> exec_state \<Rightarrow>
     rel_error + row_values option \<times> exec_state" where
  "before_chain env table op old [] new st =
     Inr (case op of TriggerDelete \<Rightarrow> old | TriggerTruncate \<Rightarrow> None | _ \<Rightarrow> new, st)"
| "before_chain env table op old (t # ts) new st =
     and_then (trigger_when_passes env st t table old new) (\<lambda>pass.
       if \<not> pass then before_chain env table op old ts new st
       else and_then (call_trigger env t table op Before RowLevel old (if op = TriggerDelete then None else new) st) (\<lambda>(r, st1).
         if op = TriggerTruncate then before_chain env table op old ts new st1
         else case r of
           None \<Rightarrow> Inr (None, st1)
         | Some row \<Rightarrow>
             if op = TriggerDelete then before_chain env table op old ts new st1
             else and_then (coerce_trigger_row env table row) (\<lambda>row1. before_chain env table op old ts (Some row1) st1)))"

definition fire_before_row ::
  "exec_env \<Rightarrow> sql_table \<Rightarrow> trigger_op \<Rightarrow> row_values option \<Rightarrow> row_values option \<Rightarrow> string btree_set option \<Rightarrow> exec_state \<Rightarrow>
     rel_error + row_values option \<times> exec_state" where
  "fire_before_row env table op old new cols st =
     before_chain env table op old (triggers_for table Before RowLevel op cols) new st"

definition trigger_deferred :: "exec_state \<Rightarrow> qualified_name \<Rightarrow> trigger_def \<Rightarrow> bool" where
  "trigger_deferred st q t \<longleftrightarrow>
     trg_is_constraint t \<and> trg_deferrable t \<and>
     (case ex_constraint_modes st of
        None \<Rightarrow> False
      | Some cm \<Rightarrow>
          (case map_of (cm_named cm) (q, trg_name t) of
             Some v \<Rightarrow> v
           | None \<Rightarrow> (case cm_all_deferred cm of Some v \<Rightarrow> v | None \<Rightarrow> trg_initially_deferred t)))"

definition fire_after_one ::
  "exec_env \<Rightarrow> sql_table \<Rightarrow> trigger_op \<Rightarrow> row_values option \<Rightarrow> row_values option \<Rightarrow> trigger_def \<Rightarrow> exec_state \<Rightarrow> rel_error + exec_state" where
  "fire_after_one env table op old new t st =
     and_then (trigger_when_passes env st t table old new) (\<lambda>pass.
       if \<not> pass then Inr st
       else if trigger_deferred st (table_qualified table) t then
         Inr (st\<lparr>ex_deferred_triggers := ex_deferred_triggers st @
           [\<lparr> dt_trigger = t, dt_table = table, dt_op = op, dt_old = old, dt_new = new \<rparr>]\<rparr>)
       else map_sum id snd (call_trigger env t table op After RowLevel old new st))"

definition fire_after_row ::
  "exec_env \<Rightarrow> sql_table \<Rightarrow> trigger_op \<Rightarrow> row_values option \<Rightarrow> row_values option \<Rightarrow> string btree_set option \<Rightarrow> exec_state \<Rightarrow> rel_error + exec_state" where
  "fire_after_row env table op old new cols st =
     for_each (fire_after_one env table op old new) (triggers_for table After RowLevel op cols) st"

subsection \<open>Statements\<close>

definition build_rowset_for_table :: "sql_table \<Rightarrow> string \<Rightarrow> row_values list \<Rightarrow> row_set" where
  "build_rowset_for_table table alias rows = \<lparr> set_schema = table_schema table alias, set_rows = map (row_tuple table) rows \<rparr>"

definition put_cte :: "sql_table \<Rightarrow> string option \<Rightarrow> row_values list \<Rightarrow> exec_state \<Rightarrow> exec_state" where
  "put_cte table alias rows st =
     (case alias of Some a \<Rightarrow> st\<lparr>ex_cte := AList.update a (build_rowset_for_table table a rows) (ex_cte st)\<rparr> | None \<Rightarrow> st)"

definition drop_cte :: "string option \<Rightarrow> exec_state \<Rightarrow> exec_state" where
  "drop_cte alias st = (case alias of Some a \<Rightarrow> st\<lparr>ex_cte := AList.delete a (ex_cte st)\<rparr> | None \<Rightarrow> st)"

definition fire_statement_one ::
  "exec_env \<Rightarrow> sql_table \<Rightarrow> trigger_timing \<Rightarrow> trigger_op \<Rightarrow> row_values list \<Rightarrow> row_values list \<Rightarrow> trigger_def \<Rightarrow> exec_state \<Rightarrow> rel_error + exec_state" where
  "fire_statement_one env table timing op new_rows old_rows t st =
     map_sum id (\<lambda>(_, st1). drop_cte (trg_referencing_old t) (drop_cte (trg_referencing_new t) st1))
       (call_trigger env t table op timing StatementLevel None None
          (put_cte table (trg_referencing_old t) old_rows (put_cte table (trg_referencing_new t) new_rows st)))"

definition fire_statement_triggers_ex ::
  "exec_env \<Rightarrow> sql_table \<Rightarrow> trigger_timing \<Rightarrow> trigger_op \<Rightarrow> string btree_set option \<Rightarrow> row_values list \<Rightarrow> row_values list \<Rightarrow>
     exec_state \<Rightarrow> rel_error + exec_state" where
  "fire_statement_triggers_ex env table timing op cols new_rows old_rows st =
     for_each (fire_statement_one env table timing op new_rows old_rows) (triggers_for table timing StatementLevel op cols) st"

definition fire_statement_triggers ::
  "exec_env \<Rightarrow> sql_table \<Rightarrow> trigger_timing \<Rightarrow> trigger_op \<Rightarrow> string btree_set option \<Rightarrow> exec_state \<Rightarrow> rel_error + exec_state" where
  "fire_statement_triggers env table timing op cols st = fire_statement_triggers_ex env table timing op cols [] [] st"

subsection \<open>Views\<close>

definition synthetic_table_for_view :: "view_def \<Rightarrow> sql_table" where
  "synthetic_table_for_view v =
     rebuild_column_map
       \<lparr> tbl_oid = view_oid v, tbl_schema = view_schema v, tbl_name = view_name v,
         tbl_columns = map (\<lambda>(i, c). \<lparr> col_name = c, col_ty = Text_type, col_nullable = True, col_default = None,
           col_identity_sequence = None, col_ordinal = i \<rparr>) (enumerate 0 (view_columns v)),
         tbl_primary_key = None, tbl_uniques = [], tbl_foreign_keys = [], tbl_checks = [],
         tbl_storage_collection = ''view:'' @ view_schema v @ ''.'' @ view_name v,
         tbl_rls_enabled = False, tbl_rls_forced = False, tbl_policies = [], tbl_triggers = [], tbl_column_map = [] \<rparr>"

fun instead_chain ::
  "exec_env \<Rightarrow> sql_table \<Rightarrow> trigger_op \<Rightarrow> row_values option \<Rightarrow> trigger_def list \<Rightarrow> row_values option \<Rightarrow> exec_state \<Rightarrow>
     rel_error + row_values option \<times> exec_state" where
  "instead_chain env table op old [] new st = Inr (if op = TriggerDelete then old else new, st)"
| "instead_chain env table op old (t # ts) new st =
     and_then (call_trigger env t table op InsteadOf RowLevel old new st) (\<lambda>(r, st1).
       if op = TriggerTruncate then instead_chain env table op old ts new st1
       else case r of
         None \<Rightarrow> Inr (None, st1)
       | Some row \<Rightarrow> instead_chain env table op old ts (if op = TriggerDelete then new else Some row) st1)"

definition fire_instead_of_row ::
  "exec_env \<Rightarrow> qualified_name \<Rightarrow> trigger_op \<Rightarrow> row_values option \<Rightarrow> row_values option \<Rightarrow> string btree_set option \<Rightarrow> exec_state \<Rightarrow>
     rel_error + row_values option \<times> exec_state" where
  "fire_instead_of_row env q op old new cols st =
     (case map_of (cat_views (ex_catalog st)) q of
        None \<Rightarrow> Inr (new, st)
      | Some v \<Rightarrow>
          instead_chain env (synthetic_table_for_view v) op old
            (sort_key trg_name (filter (fires InsteadOf RowLevel op cols) (view_triggers v))) new st)"

subsection \<open>At commit\<close>

definition fire_deferred :: "exec_env \<Rightarrow> deferred_trigger list \<Rightarrow> exec_state \<Rightarrow> rel_error + exec_state" where
  "fire_deferred env firings st =
     for_each (\<lambda>f s. map_sum id snd (call_trigger env (dt_trigger f) (dt_table f) (dt_op f) After RowLevel (dt_old f) (dt_new f) s)) firings st"

end
