(* ===== verification/Foreign_Keys.thy ===== *)
theory Foreign_Keys
  imports Row_Write Sql_Trigger
begin

text \<open>
  Foreign keys (\<^verbatim>\<open>src/sql/fk.rs\<close>): the check of a row that is written, the referential actions on the
  rows that refer to a row that is deleted or updated, the checks deferred to the end of a
  transaction, and the tables a statement reaches through foreign keys.
\<close>

subsection \<open>Foreign keys of the row that is written\<close>

definition fk_values :: "foreign_key \<Rightarrow> row_values \<Rightarrow> sql_value list" where
  "fk_values fk vals = map (\<lambda>c. case map_of vals c of Some v \<Rightarrow> v | None \<Rightarrow> Null) (fk_columns fk)"

definition ref_values :: "foreign_key \<Rightarrow> row_values \<Rightarrow> sql_value list" where
  "ref_values fk vals = map (\<lambda>c. case map_of vals c of Some v \<Rightarrow> v | None \<Rightarrow> Null) (fk_ref_columns fk)"

definition display_vals :: "sql_value list \<Rightarrow> string" where
  "display_vals vs = join_str '', '' (map (\<lambda>v. case to_text v of Some t \<Rightarrow> t | None \<Rightarrow> ''null'') vs)"

definition fk_is_deferred :: "exec_state \<Rightarrow> qualified_name \<Rightarrow> foreign_key \<Rightarrow> bool" where
  "fk_is_deferred st q fk = (case ex_constraint_modes st of Some cm \<Rightarrow> is_deferred cm q fk | None \<Rightarrow> False)"

definition fk_parent :: "exec_state \<Rightarrow> foreign_key \<Rightarrow> rel_error + qualified_name" where
  "fk_parent st fk =
     (case resolve_table_name (ex_catalog st) (Some (fk_ref_schema fk)) (fk_ref_table fk) of
        Some q \<Rightarrow> Inr q
      | None \<Rightarrow> Inl (UndefinedTable (fk_ref_schema fk @ ''.'' @ fk_ref_table fk)))"

definition fk_loaded :: "exec_state \<Rightarrow> qualified_name \<Rightarrow> rel_error + loaded_table" where
  "fk_loaded st q =
     (case map_of (ex_tables st) q of
        Some t \<Rightarrow> Inr t
      | None \<Rightarrow> Inl (Internal (''foreign-key table '' @ to_string_qualified q @ '' was not preloaded'')))"

definition fk_parent_has_key :: "exec_env \<Rightarrow> exec_state \<Rightarrow> qualified_name \<Rightarrow> foreign_key \<Rightarrow> string \<Rightarrow> rel_error + bool" where
  "fk_parent_has_key env st parent fk key =
     map_sum id (\<lambda>t.
       case find (\<lambda>li. ix_columns (li_meta li) = fk_ref_columns fk) (lt_indexes t) of
         Some li \<Rightarrow> si_get (li_data li) key \<noteq> []
       | None \<Rightarrow> list_ex (\<lambda>(_, r). composite_key (xe_dec env) (ref_values fk r) = Some key) (lt_rows t))
     (fk_loaded st parent)"

definition fk_matching_children ::
  "exec_env \<Rightarrow> exec_state \<Rightarrow> qualified_name \<Rightarrow> foreign_key \<Rightarrow> string \<Rightarrow> rel_error + (string \<times> row_values) list" where
  "fk_matching_children env st child fk key =
     map_sum id (\<lambda>t.
       case find (\<lambda>li. ix_columns (li_meta li) = fk_columns fk) (lt_indexes t) of
         Some li \<Rightarrow> List.map_filter (\<lambda>rid. map_option (Pair rid) (map_of (lt_rows t) rid)) (si_get (li_data li) key)
       | None \<Rightarrow> filter (\<lambda>(_, r). composite_key (xe_dec env) (fk_values fk r) = Some key) (lt_rows t))
     (fk_loaded st child)"

definition fk_child_row_shape_exists ::
  "exec_env \<Rightarrow> exec_state \<Rightarrow> qualified_name \<Rightarrow> foreign_key \<Rightarrow> string \<Rightarrow> rel_error + bool" where
  "fk_child_row_shape_exists env st child fk key =
     map_sum id (\<lambda>t. list_ex (\<lambda>(_, r). ordered_key (xe_dec env) (fk_values fk r) = key) (lt_rows t)) (fk_loaded st child)"

definition missing_key_error :: "string \<Rightarrow> foreign_key \<Rightarrow> sql_value list \<Rightarrow> rel_error" where
  "missing_key_error table fk vs =
     ForeignKeyViolation table (fk_name fk)
       (''Key ('' @ join_str '', '' (fk_columns fk) @ '')=('' @ display_vals vs @ '') is not present in table '' @
        [dquote] @ fk_ref_table fk @ [dquote] @ ''.'')"

definition null_mix_error :: "string \<Rightarrow> foreign_key \<Rightarrow> rel_error" where
  "null_mix_error table fk =
     ForeignKeyViolation table (fk_name fk) ''MATCH FULL does not allow mixing of null and nonnull key values.''"

definition fk_check_one :: "exec_env \<Rightarrow> sql_table \<Rightarrow> foreign_key \<Rightarrow> row_values \<Rightarrow> exec_state \<Rightarrow> rel_error + exec_state" where
  "fk_check_one env table fk row st =
     (let vs = fk_values fk row; nulls = length (filter is_null vs); q = table_qualified table
      in if fk_match_type fk = MatchSimple \<and> nulls > 0 then Inr st
         else if fk_match_type fk = MatchFull \<and> nulls = length vs then Inr st
         else if fk_match_type fk = MatchFull \<and> nulls > 0 then
           (if fk_is_deferred st q fk then Inr (push_deferred (MatchFullNullMix q fk (ordered_key (xe_dec env) vs)) st)
            else Inl (null_mix_error (tbl_name table) fk))
         else case composite_key (xe_dec env) vs of
           None \<Rightarrow> Inl (Internal ''null_count == 0 implies composite_key is Some'')
         | Some key \<Rightarrow>
             and_then (fk_parent st fk) (\<lambda>parent. and_then (fk_parent_has_key env st parent fk key) (\<lambda>found.
               if found then Inr st
               else if fk_is_deferred st q fk then Inr (push_deferred (Child q fk key vs) st)
               else Inl (missing_key_error (tbl_name table) fk vs))))"

fun fk_check_all :: "exec_env \<Rightarrow> sql_table \<Rightarrow> row_values \<Rightarrow> row_values option \<Rightarrow> foreign_key list \<Rightarrow> exec_state \<Rightarrow> rel_error + exec_state" where
  "fk_check_all env table new old [] st = Inr st"
| "fk_check_all env table new old (fk # fks) st =
     (if (case old of Some prev \<Rightarrow> ordered_key (xe_dec env) (fk_values fk prev) = ordered_key (xe_dec env) (fk_values fk new) | None \<Rightarrow> False)
      then fk_check_all env table new old fks st
      else and_then (fk_check_one env table fk new st) (fk_check_all env table new old fks))"

definition fk_check_child :: "exec_env \<Rightarrow> sql_table \<Rightarrow> row_values \<Rightarrow> row_values option \<Rightarrow> exec_state \<Rightarrow> rel_error + exec_state" where
  "fk_check_child env table new old st = fk_check_all env table new old (tbl_foreign_keys table) st"

subsection \<open>Referential actions\<close>

datatype ri_work =
    Deleted qualified_name row_values nat
  | Updated qualified_name row_values row_values

record pending_check =
  pc_parent :: qualified_name
  pc_child :: qualified_name
  pc_fk :: foreign_key
  pc_key :: string
  pc_vals :: "sql_value list"

text \<open>The state of the loop: the statement, the work that is left and the checks for its end.\<close>

record ri_state =
  ri_exec :: exec_state
  ri_queue :: "ri_work list"
  ri_checks :: "pending_check list"

definition ri_enqueue :: "ri_work \<Rightarrow> ri_state \<Rightarrow> ri_state" where
  "ri_enqueue w s = s\<lparr>ri_queue := ri_queue s @ [w]\<rparr>"

definition ri_check_later :: "qualified_name \<Rightarrow> qualified_name \<Rightarrow> foreign_key \<Rightarrow> string \<Rightarrow> sql_value list \<Rightarrow> ri_state \<Rightarrow> ri_state" where
  "ri_check_later parent child fk key vs s =
     s\<lparr>ri_checks := ri_checks s @
        [\<lparr> pc_parent = parent, pc_child = child, pc_fk = fk, pc_key = key, pc_vals = vs \<rparr>]\<rparr>"

definition ri_queue_or_check :: "qualified_name \<Rightarrow> qualified_name \<Rightarrow> foreign_key \<Rightarrow> string \<Rightarrow> sql_value list \<Rightarrow> ri_state \<Rightarrow> ri_state" where
  "ri_queue_or_check parent child fk key vs s =
     (if fk_is_deferred (ri_exec s) child fk
      then s\<lparr>ri_exec := push_deferred (Referenced parent child fk key vs) (ri_exec s)\<rparr>
      else ri_check_later parent child fk key vs s)"

definition ri_referenced_error :: "qualified_name \<Rightarrow> qualified_name \<Rightarrow> foreign_key \<Rightarrow> sql_value list \<Rightarrow> rel_error" where
  "ri_referenced_error parent child fk vs =
     ForeignKeyViolationReferenced (snd parent) (fk_name fk) (snd child)
       (''Key ('' @ join_str '', '' (fk_ref_columns fk) @ '')=('' @ display_vals vs @ '') is still referenced from table '' @
        [dquote] @ snd child @ [dquote] @ ''.'')"

definition ri_delete_child :: "exec_env \<Rightarrow> qualified_name \<Rightarrow> string \<Rightarrow> exec_state \<Rightarrow> rel_error + exec_state" where
  "ri_delete_child env child rid st =
     and_then (fk_loaded st child) (\<lambda>t.
       delete_row env child (tbl_storage_collection (lt_meta t)) rid
         (record_pending (Row (tbl_oid (lt_meta t)) rid) ForUpdate Transaction st))"

definition same_row :: "(sql_value \<Rightarrow> string) \<Rightarrow> sql_table \<Rightarrow> row_values \<Rightarrow> row_values \<Rightarrow> bool" where
  "same_row dec table a b \<longleftrightarrow>
     (let vs = (\<lambda>r. map (\<lambda>c. case map_of r (col_name c) of Some v \<Rightarrow> v | None \<Rightarrow> Null) (tbl_columns table))
      in ordered_key dec (vs a) = ordered_key dec (vs b))"

definition ri_update_child :: "exec_env \<Rightarrow> qualified_name \<Rightarrow> string \<Rightarrow> row_values \<Rightarrow> row_values \<Rightarrow> ri_state \<Rightarrow> rel_error + ri_state" where
  "ri_update_child env child rid old new s =
     and_then (fk_loaded (ri_exec s) child) (\<lambda>t. let table = lt_meta t in
       if same_row (xe_dec env) table old new then Inr s
       else and_then (check_row_constraints env (ri_exec s) table new) (\<lambda>_.
         and_then (check_unique_for env (ri_exec s) child new (Some rid)) (\<lambda>_.
         and_then (fk_check_child env table new (Some old) (ri_exec s)) (\<lambda>st.
         and_then (write_update env child table rid new (record_pending (Row (tbl_oid table) rid) ForUpdate Transaction st)) (\<lambda>st1.
           Inr (ri_enqueue (Updated child old new) (s\<lparr>ri_exec := st1\<rparr>)))))))"

fun default_columns :: "exec_env \<Rightarrow> sql_table \<Rightarrow> string list \<Rightarrow> row_values \<Rightarrow> exec_state \<Rightarrow> rel_error + row_values \<times> exec_state" where
  "default_columns env table [] row st = Inr (row, st)"
| "default_columns env table (c # cs) row st =
     (case table_column table c of
        None \<Rightarrow> Inl (UndefinedColumn c)
      | Some col \<Rightarrow> and_then (absent_value env table col st) (\<lambda>(v, st1). default_columns env table cs (btree_insert c v row) st1))"

definition ri_defaults_for :: "exec_env \<Rightarrow> qualified_name \<Rightarrow> foreign_key \<Rightarrow> row_values \<Rightarrow> exec_state \<Rightarrow> rel_error + row_values \<times> exec_state" where
  "ri_defaults_for env child fk row st =
     and_then (fk_loaded st child) (\<lambda>t. default_columns env (lt_meta t) (fk_columns fk) row st)"

definition null_columns :: "foreign_key \<Rightarrow> row_values \<Rightarrow> row_values" where
  "null_columns fk row = fold (\<lambda>c. btree_insert c Null) (fk_columns fk) row"

text \<open>Updating each of the child rows by a function of the row.\<close>

fun ri_update_children ::
  "exec_env \<Rightarrow> qualified_name \<Rightarrow> (row_values \<Rightarrow> exec_state \<Rightarrow> rel_error + row_values \<times> exec_state) \<Rightarrow>
     (string \<times> row_values) list \<Rightarrow> ri_state \<Rightarrow> rel_error + ri_state" where
  "ri_update_children env child f [] s = Inr s"
| "ri_update_children env child f ((rid, row) # rows) s =
     and_then (f row (ri_exec s)) (\<lambda>(new, st).
       and_then (ri_update_child env child rid row new (s\<lparr>ri_exec := st\<rparr>)) (ri_update_children env child f rows))"

fun ri_cascade_delete ::
  "exec_env \<Rightarrow> qualified_name \<Rightarrow> sql_table option \<Rightarrow> nat \<Rightarrow> (string \<times> row_values) list \<Rightarrow> ri_state \<Rightarrow> rel_error + ri_state" where
  "ri_cascade_delete env child triggers depth [] s = Inr s"
| "ri_cascade_delete env child triggers depth ((rid, row) # rows) s =
     and_then (case triggers of
         Some table \<Rightarrow> fire_before_row env table TriggerDelete (Some row) None None (ri_exec s)
       | None \<Rightarrow> Inr (Some row, ri_exec s))
       (\<lambda>(r, st).
          if r = None then ri_cascade_delete env child triggers depth rows (s\<lparr>ri_exec := st\<rparr>)
          else and_then (ri_delete_child env child rid st) (\<lambda>st1.
            and_then (case triggers of
                Some table \<Rightarrow> fire_after_row env table TriggerDelete (Some row) None None st1
              | None \<Rightarrow> Inr st1)
              (\<lambda>st2. ri_cascade_delete env child triggers depth rows (ri_enqueue (Deleted child row (Suc depth)) (s\<lparr>ri_exec := st2\<rparr>)))))"

definition with_triggers :: "catalog \<Rightarrow> qualified_name \<Rightarrow> sql_table option" where
  "with_triggers c q =
     (case map_of (cat_tables c) q of
        Some table \<Rightarrow> if list_ex trg_enabled (tbl_triggers table) then Some table else None
      | None \<Rightarrow> None)"

definition ri_delete_action ::
  "exec_env \<Rightarrow> qualified_name \<Rightarrow> row_values \<Rightarrow> nat \<Rightarrow> qualified_name \<times> foreign_key \<Rightarrow> ri_state \<Rightarrow> rel_error + ri_state" where
  "ri_delete_action env parent row depth r s =
     (let (child, fk) = r; vs = ref_values fk row
      in case composite_key (xe_dec env) vs of
           None \<Rightarrow> Inr s
         | Some key \<Rightarrow>
             (let children = fk_matching_children env (ri_exec s) child fk key
              in case fk_on_delete fk of
                   NoAction \<Rightarrow> Inr (ri_queue_or_check parent child fk key vs s)
                 | Restrict \<Rightarrow> Inr (ri_check_later parent child fk key vs s)
                 | Cascade \<Rightarrow>
                     and_then children (\<lambda>rows. ri_cascade_delete env child (with_triggers (ex_catalog (ri_exec s)) child) depth rows s)
                 | SetNull \<Rightarrow>
                     and_then children (\<lambda>rows. ri_update_children env child (\<lambda>row st. Inr (null_columns fk row, st)) rows s)
                 | SetDefault \<Rightarrow>
                     and_then children (\<lambda>rows. and_then (ri_update_children env child (ri_defaults_for env child fk) rows s)
                       (\<lambda>s1. Inr (ri_queue_or_check parent child fk key vs s1)))))"

fun new_key_columns :: "exec_env \<Rightarrow> sql_table \<Rightarrow> string list \<Rightarrow> sql_value list \<Rightarrow> row_values \<Rightarrow> rel_error + row_values" where
  "new_key_columns env table [] vs row = Inr row"
| "new_key_columns env table (c # cs) vs row =
     (let v = (case vs of v # _ \<Rightarrow> v | [] \<Rightarrow> Null)
      in and_then (if is_null v then Inr Null else coerce_to_col env v table c)
           (\<lambda>w. new_key_columns env table cs (tl vs) (btree_insert c w row)))"

definition ri_update_action ::
  "exec_env \<Rightarrow> qualified_name \<Rightarrow> row_values \<Rightarrow> row_values \<Rightarrow> qualified_name \<times> foreign_key \<Rightarrow> ri_state \<Rightarrow> rel_error + ri_state" where
  "ri_update_action env parent old new r s =
     (let (child, fk) = r; old_vals = ref_values fk old; new_vals = ref_values fk new
      in case composite_key (xe_dec env) old_vals of
           None \<Rightarrow> Inr s
         | Some key \<Rightarrow>
             if ordered_key (xe_dec env) old_vals = ordered_key (xe_dec env) new_vals then Inr s
             else (let children = fk_matching_children env (ri_exec s) child fk key
              in case fk_on_update fk of
                   NoAction \<Rightarrow> Inr (ri_queue_or_check parent child fk key old_vals s)
                 | Restrict \<Rightarrow> Inr (ri_check_later parent child fk key old_vals s)
                 | Cascade \<Rightarrow>
                     and_then (fk_loaded (ri_exec s) child) (\<lambda>t. and_then children (\<lambda>rows.
                       ri_update_children env child
                         (\<lambda>row st. map_sum id (\<lambda>r. (r, st)) (new_key_columns env (lt_meta t) (fk_columns fk) new_vals row)) rows s))
                 | SetNull \<Rightarrow>
                     and_then children (\<lambda>rows. ri_update_children env child (\<lambda>row st. Inr (null_columns fk row, st)) rows s)
                 | SetDefault \<Rightarrow>
                     and_then children (\<lambda>rows. and_then (ri_update_children env child (ri_defaults_for env child fk) rows s)
                       (\<lambda>s1. Inr (ri_queue_or_check parent child fk key old_vals s1)))))"

definition ri_on_delete :: "exec_env \<Rightarrow> qualified_name \<Rightarrow> row_values \<Rightarrow> nat \<Rightarrow> ri_state \<Rightarrow> rel_error + ri_state" where
  "ri_on_delete env parent row depth s =
     for_each (ri_delete_action env parent row depth) (referencing_foreign_keys (ex_catalog (ri_exec s)) parent) s"

definition ri_on_update :: "exec_env \<Rightarrow> qualified_name \<Rightarrow> row_values \<Rightarrow> row_values \<Rightarrow> ri_state \<Rightarrow> rel_error + ri_state" where
  "ri_on_update env parent old new s =
     for_each (ri_update_action env parent old new) (referencing_foreign_keys (ex_catalog (ri_exec s)) parent) s"

abbreviation "max_ri_steps \<equiv> 1000000 :: nat"
abbreviation "max_cascade_depth \<equiv> 25 :: nat"

text \<open>A dash in UTF-8.\<close>

abbreviation "em_dash \<equiv> [CHR 0xE2, CHR 0x80, CHR 0x94]"

definition ri_step :: "exec_env \<Rightarrow> ri_work \<Rightarrow> ri_state \<Rightarrow> rel_error + ri_state" where
  "ri_step env w s =
     (case w of
        Deleted q row depth \<Rightarrow>
          if depth > max_cascade_depth
          then Inl (StatementTooComplex (''FK CASCADE DELETE depth limit exceeded '' @ em_dash @ '' too many levels of cascades (max 25)''))
          else ri_on_delete env q row depth s
      | Updated q old new \<Rightarrow> ri_on_update env q old new s)"

function ri_loop :: "exec_env \<Rightarrow> nat \<Rightarrow> ri_state \<Rightarrow> rel_error + ri_state" where
  "ri_loop env steps s =
     (case ri_queue s of
        [] \<Rightarrow> Inr s
      | w # ws \<Rightarrow>
          if Suc steps > max_ri_steps then Inl (Internal ''foreign-key referential actions did not terminate'')
          else case ri_step env w (s\<lparr>ri_queue := ws\<rparr>) of
            Inl e \<Rightarrow> Inl e
          | Inr s1 \<Rightarrow> ri_loop env (Suc steps) s1)"
  by pat_completeness auto
termination
  by (relation "measure (\<lambda>(env, steps, s). max_ri_steps - steps)") auto

declare ri_loop.simps [simp del]

text \<open>A check that was put off holds if the key is there or no row refers to it any more.\<close>

definition still_satisfied ::
  "exec_env \<Rightarrow> exec_state \<Rightarrow> qualified_name \<Rightarrow> qualified_name \<Rightarrow> foreign_key \<Rightarrow> string \<Rightarrow> rel_error \<Rightarrow> rel_error + unit" where
  "still_satisfied env st parent child fk key err =
     and_then (fk_parent_has_key env st parent fk key) (\<lambda>found.
       if found then Inr ()
       else and_then (fk_matching_children env st child fk key) (\<lambda>rows. if rows = [] then Inr () else Inl err))"

definition ri_final_check :: "exec_env \<Rightarrow> exec_state \<Rightarrow> pending_check \<Rightarrow> rel_error + unit" where
  "ri_final_check env st c =
     still_satisfied env st (pc_parent c) (pc_child c) (pc_fk c) (pc_key c)
       (ri_referenced_error (pc_parent c) (pc_child c) (pc_fk c) (pc_vals c))"

definition fk_apply_referential_actions :: "exec_env \<Rightarrow> ri_work list \<Rightarrow> exec_state \<Rightarrow> rel_error + exec_state" where
  "fk_apply_referential_actions env work st =
     and_then (ri_loop env 0 \<lparr> ri_exec = st, ri_queue = work, ri_checks = [] \<rparr>) (\<lambda>s.
       and_then (for_each (\<lambda>c _. ri_final_check env (ri_exec s) c) (ri_checks s) ()) (\<lambda>_. Inr (ri_exec s)))"

subsection \<open>Deferred checks\<close>

definition declared_name :: "exec_state \<Rightarrow> qualified_name \<Rightarrow> string" where
  "declared_name st q = (case map_of (cat_tables (ex_catalog st)) q of Some t \<Rightarrow> tbl_name t | None \<Rightarrow> snd q)"

fun drain_check :: "exec_env \<Rightarrow> exec_state \<Rightarrow> deferred_fk_check \<Rightarrow> rel_error + unit" where
  "drain_check env st (Child child fk key vs) =
     and_then (fk_parent st fk) (\<lambda>parent.
       still_satisfied env st parent child fk key (missing_key_error (declared_name st child) fk vs))"
| "drain_check env st (Referenced parent child fk key vs) =
     still_satisfied env st parent child fk key (ri_referenced_error parent child fk vs)"
| "drain_check env st (MatchFullNullMix child fk key) =
     and_then (fk_child_row_shape_exists env st child fk key) (\<lambda>found.
       if found then Inl (null_mix_error (declared_name st child) fk) else Inr ())"

definition fk_drain_deferred :: "exec_env \<Rightarrow> exec_state \<Rightarrow> deferred_fk_check list \<Rightarrow> rel_error + unit" where
  "fk_drain_deferred env st checks = for_each (\<lambda>c _. drain_check env st c) checks ()"

subsection \<open>The tables around a statement\<close>

text \<open>The descendants of a table through foreign keys, breadth first.\<close>

definition ripple_children :: "catalog \<Rightarrow> qualified_name \<Rightarrow> qualified_name \<Rightarrow> qualified_name list \<Rightarrow> qualified_name list" where
  "ripple_children c root q seen =
     remdups (filter (\<lambda>child. child \<noteq> root \<and> child \<notin> set seen) (map fst (referencing_foreign_keys c q)))"

lemma ripple_children_tables:
  "set (ripple_children c root q seen) \<subseteq> table_qualified ` snd ` set (cat_tables c) - set seen"
  by (auto simp: ripple_children_def referencing_foreign_keys_def image_iff) force

function ripple_loop :: "catalog \<Rightarrow> qualified_name \<Rightarrow> qualified_name list \<Rightarrow> qualified_name list \<Rightarrow> qualified_name list" where
  "ripple_loop c root [] written = written"
| "ripple_loop c root (q # queue) written =
     (let new = ripple_children c root q written in ripple_loop c root (queue @ new) (written @ new))"
  by pat_completeness auto
termination
proof (relation "measures [\<lambda>(c, root, queue, written). card (table_qualified ` snd ` set (cat_tables c) - set written),
    \<lambda>(c, root, queue, written). length queue]", goal_cases)
  case (2 c root q queue written new)
  show ?case
  proof (cases "new = []")
    case False
    let ?T = "table_qualified ` snd ` set (cat_tables c)"
    obtain x where "x \<in> set new" using False by (cases new) auto
    then have "?T - set (written @ new) \<subset> ?T - set written"
      using ripple_children_tables [of c root q written] 2 by auto
    then have "card (?T - set (written @ new)) < card (?T - set written)" by (intro psubset_card_mono) simp_all
    then show ?thesis by simp
  qed simp
qed simp

declare ripple_loop.simps [simp del]

definition fk_parents :: "catalog \<Rightarrow> qualified_name \<Rightarrow> qualified_name list" where
  "fk_parents c q =
     (case map_of (cat_tables c) q of
        Some table \<Rightarrow>
          List.map_filter (\<lambda>fk. resolve_table_name c (Some (fk_ref_schema fk)) (fk_ref_table fk)) (tbl_foreign_keys table)
      | None \<Rightarrow> [])"

definition fk_ripple :: "catalog \<Rightarrow> qualified_name \<Rightarrow> bool \<Rightarrow> qualified_name btree_set \<times> qualified_name btree_set" where
  "fk_ripple c root include_children =
     (let written = (if include_children then ripple_loop c root [root] [] else []);
          read = concat (map (fk_parents c) (root # written))
      in (sort (remdups written), sort (remdups read)))"

end
