(* ===== verification/Table_Correct.thy ===== *)
theory Table_Correct
  imports Table_Store
begin

text \<open>
  Correctness of the materialised tables: the indexes that the row operations maintain are the ones a
  rebuild computes, the uniqueness check decides whether another row has the key, an index lookup is
  a scan, and a row comes back from its document.
\<close>

subsection \<open>Indexes\<close>

definition index_ok :: "(sql_value \<Rightarrow> string) \<Rightarrow> (string, row_values) btree_map \<Rightarrow> loaded_index \<Rightarrow> bool" where
  "index_ok dec rows li \<longleftrightarrow> si_unique (li_data li) = ix_unique (li_meta li) \<and>
     six.represents (\<lambda>rid. map_option (row_key dec (li_meta li)) (map_of rows rid)) (li_data li)"

definition table_wf :: "(sql_value \<Rightarrow> string) \<Rightarrow> loaded_table \<Rightarrow> bool" where
  "table_wf dec t \<longleftrightarrow> btree_wf (lt_rows t) \<and> btree_wf (lt_versions t) \<and> list_all (index_ok dec (lt_rows t)) (lt_indexes t)"

lemma index_ok_rows:
  "index_ok dec rows li \<Longrightarrow> si_rows (li_data li) k = {rid. \<exists>vals. map_of rows rid = Some vals \<and> row_key dec (li_meta li) vals = k}"
  by (auto simp: index_ok_def six.represents_def)

lemma index_ok_wf: "index_ok dec rows li \<Longrightarrow> si_wf (li_data li)"
  by (simp add: index_ok_def six.represents_def)

lemma index_ok_eq:
  assumes "index_ok dec rows a" "index_ok dec rows b" "li_meta a = li_meta b"
  shows "a = b"
proof -
  have "li_data a = li_data b"
    using assms by (intro si_eqI) (simp_all add: index_ok_wf index_ok_rows, simp add: index_ok_def)
  with assms(3) show ?thesis by simp
qed

lemma index_row_simps [simp]:
  "li_meta (index_row dec rid vals li) = li_meta li" "li_meta (unindex_row dec rid vals li) = li_meta li"
  by (simp_all add: index_row_def unindex_row_def)

lemma keys_insert:
  "btree_wf rows \<Longrightarrow> (\<lambda>r. map_option f (map_of (btree_insert rid vals rows) r)) = (\<lambda>r. map_option f (map_of rows r))(rid \<mapsto> f vals)"
  by (auto simp: map_of_btree_insert)

lemma keys_delete:
  "(\<lambda>r. map_option f (map_of (AList.delete rid rows) r)) = (\<lambda>r. map_option f (map_of rows r))(rid := None)"
  by (auto simp: map_of_delete)

lemma index_ok_insert:
  assumes "index_ok dec rows li" "btree_wf rows" "map_of rows rid = None"
  shows "index_ok dec (btree_insert rid vals rows) (index_row dec rid vals li)"
  using assms six.represents_insert [of _ "li_data li" rid]
  by (simp add: index_ok_def keys_insert index_row_def)

lemma index_ok_update:
  assumes "index_ok dec rows li" "btree_wf rows" "map_of rows rid = Some old"
  shows "index_ok dec (btree_insert rid vals rows) (index_row dec rid vals (unindex_row dec rid old li))"
  using assms six.represents_update [of _ "li_data li" rid]
  by (simp add: index_ok_def keys_insert index_row_def unindex_row_def)

lemma index_ok_delete:
  assumes "index_ok dec rows li" "map_of rows rid = Some old"
  shows "index_ok dec (AList.delete rid rows) (unindex_row dec rid old li)"
  using assms six.represents_remove [of _ "li_data li" rid]
  by (simp add: index_ok_def keys_delete unindex_row_def)

subsection \<open>Row operations\<close>

lemma put_row_simps [simp]:
  "lt_rows (put_row rid vals t) = btree_insert rid vals (lt_rows t)" "lt_indexes (put_row rid vals t) = lt_indexes t"
  "lt_meta (put_row rid vals t) = lt_meta t"
  "lt_versions (put_row rid vals t) = btree_insert rid (next_version t rid) (lt_versions t)"
  by (simp_all add: put_row_def)

lemma apply_insert_simps [simp]:
  "lt_rows (apply_insert dec rid vals t) = btree_insert rid vals (lt_rows t)"
  "lt_indexes (apply_insert dec rid vals t) = map (index_row dec rid vals) (lt_indexes t)"
  "lt_meta (apply_insert dec rid vals t) = lt_meta t"
  by (simp_all add: apply_insert_def)

lemma apply_update_simps [simp]:
  "lt_rows (apply_update dec rid vals t) = btree_insert rid vals (lt_rows t)"
  "map li_meta (lt_indexes (apply_update dec rid vals t)) = map li_meta (lt_indexes t)"
  "lt_meta (apply_update dec rid vals t) = lt_meta t"
  by (simp_all add: apply_update_def Let_def o_def split: option.split)

lemma apply_delete_simps [simp]:
  "lt_rows (apply_delete dec rid t) = AList.delete rid (lt_rows t)"
  "map li_meta (lt_indexes (apply_delete dec rid t)) = map li_meta (lt_indexes t)"
  "lt_meta (apply_delete dec rid t) = lt_meta t" "lt_versions (apply_delete dec rid t) = lt_versions t"
  by (auto simp: apply_delete_def o_def map_of_eq_None_iff AList.delete_idem split: option.split)

lemma table_wf_insert:
  assumes "table_wf dec t" "map_of (lt_rows t) rid = None"
  shows "table_wf dec (apply_insert dec rid vals t)"
  using assms by (auto simp: table_wf_def apply_insert_def btree_wf_insert list_all_iff intro: index_ok_insert)

lemma table_wf_update:
  assumes "table_wf dec t"
  shows "table_wf dec (apply_update dec rid vals t)"
proof (cases "map_of (lt_rows t) rid")
  case None
  then have "apply_update dec rid vals t = apply_insert dec rid vals t"
    by (simp add: apply_update_def apply_insert_def)
  with table_wf_insert [OF assms None] show ?thesis by simp
next
  case (Some old)
  with assms show ?thesis
    by (auto simp: table_wf_def apply_update_def btree_wf_insert list_all_iff intro: index_ok_update)
qed

lemma table_wf_delete: "table_wf dec t \<Longrightarrow> table_wf dec (apply_delete dec rid t)"
  by (auto simp: table_wf_def apply_delete_def btree_wf_delete list_all_iff intro: index_ok_delete split: option.split)

subsection \<open>Rebuilding\<close>

lemma fold_map_rows:
  "fold (\<lambda>(rid, vals). map (f rid vals)) rows lis = map (\<lambda>li. fold (\<lambda>(rid, vals). f rid vals) rows li) lis"
  by (induction rows arbitrary: lis) (auto simp: o_def)

lemma fold_index_rows:
  "fold (\<lambda>(rid, vals). index_row dec rid vals) rows li =
     li\<lparr>li_data := fold (\<lambda>(rid, k). si_insert k rid) (map_values (row_key dec (li_meta li)) rows) (li_data li)\<rparr>"
  by (induction rows arbitrary: li) (auto simp: index_row_def map_values_def)

lemma si_unique_fold [simp]: "si_unique (fold (\<lambda>(rid, k). si_insert k rid) ps ix) = si_unique ix"
proof (induction ps arbitrary: ix)
  case (Cons p ps)
  then show ?case by (cases p) simp
qed simp

lemma represents_clear: "six.represents (\<lambda>_. None) (sec_clear ix)"
  by (simp add: six.represents_def si_rows_def si_get_def sec_clear_def si_wf_def)

lemma rebuild_ok:
  assumes "btree_wf rows" "si_unique (li_data li) = ix_unique (li_meta li)"
  shows "index_ok dec rows (fold (\<lambda>(rid, vals). index_row dec rid vals) rows (li\<lparr>li_data := sec_clear (li_data li)\<rparr>))"
proof -
  let ?ps = "map_values (row_key dec (li_meta li)) rows"
  have "six.represents ((\<lambda>_. None) ++ map_of ?ps) (fold (\<lambda>(rid, k). si_insert k rid) ?ps (sec_clear (li_data li)))"
    using btree_wf_distinct [OF assms(1)] by (intro six.represents_fold represents_clear) simp_all
  moreover have "(\<lambda>_. None) ++ map_of ?ps = (\<lambda>rid. map_option (row_key dec (li_meta li)) (map_of rows rid))"
    by (auto simp: map_add_def map_of_map_values split: option.split)
  ultimately show ?thesis using assms(2) by (simp add: index_ok_def fold_index_rows)
qed

lemma rebuild_rows [simp]: "lt_rows (rebuild_indexes dec t) = lt_rows t" "lt_meta (rebuild_indexes dec t) = lt_meta t"
  "lt_versions (rebuild_indexes dec t) = lt_versions t"
  by (simp_all add: rebuild_indexes_def)

lemma rebuild_current:
  assumes "table_wf dec t"
  shows "rebuild_indexes dec t = t"
proof -
  have "fold (\<lambda>(rid, vals). index_row dec rid vals) (lt_rows t) (li\<lparr>li_data := sec_clear (li_data li)\<rparr>) = li"
    if "li \<in> set (lt_indexes t)" for li
  proof (rule index_ok_eq)
    show ok: "index_ok dec (lt_rows t) li" using assms that by (simp add: table_wf_def list_all_iff)
    show "index_ok dec (lt_rows t) (fold (\<lambda>(rid, vals). index_row dec rid vals) (lt_rows t) (li\<lparr>li_data := sec_clear (li_data li)\<rparr>))"
      using assms ok by (intro rebuild_ok) (simp_all add: table_wf_def index_ok_def)
  qed (simp add: fold_index_rows)
  then have "lt_indexes (rebuild_indexes dec t) = lt_indexes t"
    by (simp add: rebuild_indexes_def fold_map_rows map_idI)
  then show ?thesis by (simp add: rebuild_indexes_def)
qed

lemma decode_docs_wf:
  assumes "decode_docs env meta docs rows versions = Inr (rows', versions')" "btree_wf rows" "btree_wf versions"
  shows "btree_wf rows' \<and> btree_wf versions'"
  using assms
  by (induction docs arbitrary: rows versions)
    (auto simp: and_then_Inr btree_wf_insert split: option.splits)

lemma build_wf:
  assumes "build dec env meta docs ixs = Inr t"
  shows "table_wf dec t" "lt_meta t = meta"
    "map li_meta (lt_indexes t) = filter (\<lambda>m. ix_method m \<noteq> ''hnsw'') ixs"
proof -
  obtain rows versions where d: "decode_docs env meta docs [] [] = Inr (rows, versions)"
    and t: "t = rebuild_indexes dec \<lparr> lt_meta = meta, lt_rows = rows, lt_versions = versions,
           lt_indexes = map load_index (filter (\<lambda>m. ix_method m \<noteq> ''hnsw'') ixs) \<rparr>"
    using assms by (cases "decode_docs env meta docs [] []") (auto simp: build_def)
  have wf: "btree_wf rows" "btree_wf versions" using decode_docs_wf [OF d] by simp_all
  have "index_ok dec rows (fold (\<lambda>(rid, vals). index_row dec rid vals) rows (load_index m\<lparr>li_data := sec_clear (li_data (load_index m))\<rparr>))" for m
    by (rule rebuild_ok [OF wf(1)]) (simp add: load_index_def si_new_def)
  then show "table_wf dec t"
    by (simp add: t table_wf_def rebuild_indexes_def fold_map_rows list_all_iff wf)
  show "lt_meta t = meta" by (simp add: t)
  show "map li_meta (lt_indexes t) = filter (\<lambda>m. ix_method m \<noteq> ''hnsw'') ixs"
    by (simp add: t rebuild_indexes_def fold_map_rows fold_index_rows load_index_def o_def)
qed

subsection \<open>Uniqueness\<close>

definition key_complete :: "(sql_value \<Rightarrow> string) \<Rightarrow> index_def \<Rightarrow> row_values \<Rightarrow> bool" where
  "key_complete dec ix vals \<longleftrightarrow> composite_key dec (index_values ix vals) \<noteq> None"

definition unique_ok :: "(sql_value \<Rightarrow> string) \<Rightarrow> (string, row_values) btree_map \<Rightarrow> index_def \<Rightarrow> bool" where
  "unique_ok dec rows ix \<longleftrightarrow>
     (\<forall>r s a b. map_of rows r = Some a \<longrightarrow> map_of rows s = Some b \<longrightarrow> key_complete dec ix a \<longrightarrow> key_complete dec ix b \<longrightarrow>
        row_key dec ix a = row_key dec ix b \<longrightarrow> r = s)"

definition table_unique :: "(sql_value \<Rightarrow> string) \<Rightarrow> loaded_table \<Rightarrow> bool" where
  "table_unique dec t \<longleftrightarrow> (\<forall>ix \<in> set (map li_meta (lt_indexes t)). ix_unique ix \<longrightarrow> unique_ok dec (lt_rows t) ix)"

lemma check_unique_in_iff:
  assumes "list_all (index_ok dec rows) lis"
  shows "check_unique_in dec vals ex lis = Inr () \<longleftrightarrow>
    (\<forall>ix \<in> set (map li_meta lis). ix_unique ix \<longrightarrow> key_complete dec ix vals \<longrightarrow>
       (\<forall>s b. map_of rows s = Some b \<longrightarrow> row_key dec ix b = row_key dec ix vals \<longrightarrow> Some s = ex))"
  using assms
proof (induction lis)
  case (Cons li lis)
  have "list_ex (\<lambda>rid. Some rid \<noteq> ex) (si_get (li_data li) (row_key dec (li_meta li) vals)) \<longleftrightarrow>
    \<not> (\<forall>s b. map_of rows s = Some b \<longrightarrow> row_key dec (li_meta li) b = row_key dec (li_meta li) vals \<longrightarrow> Some s = ex)"
    using Cons.prems index_ok_rows [of dec rows li "row_key dec (li_meta li) vals"]
    by (auto simp: list_ex_iff si_rows_def)
  with Cons show ?case by (auto simp: Let_def key_complete_def row_key_def)
qed simp

lemma check_unique_iff:
  assumes "table_wf dec t"
  shows "check_unique dec t vals ex = Inr () \<longleftrightarrow>
    (\<forall>ix \<in> set (map li_meta (lt_indexes t)). ix_unique ix \<longrightarrow> key_complete dec ix vals \<longrightarrow>
       (\<forall>s b. map_of (lt_rows t) s = Some b \<longrightarrow> row_key dec ix b = row_key dec ix vals \<longrightarrow> Some s = ex))"
  using assms unfolding check_unique_def table_wf_def by (intro check_unique_in_iff) simp

lemma unique_ok_put:
  assumes "btree_wf rows" "unique_ok dec rows ix"
    "\<And>s b. key_complete dec ix vals \<Longrightarrow> map_of rows s = Some b \<Longrightarrow> row_key dec ix b = row_key dec ix vals \<Longrightarrow> s = rid"
  shows "unique_ok dec (btree_insert rid vals rows) ix"
  unfolding unique_ok_def
proof (intro allI impI)
  fix r s a b
  assume *: "map_of (btree_insert rid vals rows) r = Some a" "map_of (btree_insert rid vals rows) s = Some b"
    "key_complete dec ix a" "key_complete dec ix b" "row_key dec ix a = row_key dec ix b"
  show "r = s"
  proof (cases "r = rid \<or> s = rid")
    case True
    with * assms(3) [of r a] assms(3) [of s b] show ?thesis
      by (auto simp: map_of_btree_insert [OF assms(1)] split: if_splits)
  next
    case False
    with * assms(2) show ?thesis by (simp add: map_of_btree_insert [OF assms(1)] unique_ok_def)
  qed
qed

lemma unique_ok_delete: "unique_ok dec rows ix \<Longrightarrow> unique_ok dec (AList.delete rid rows) ix"
  unfolding unique_ok_def by (simp add: map_of_delete)

lemma table_unique_put:
  assumes "table_wf dec t" "table_unique dec t" "check_unique dec t vals ex = Inr ()" "ex \<in> {None, Some rid}"
    "lt_rows t' = btree_insert rid vals (lt_rows t)" "map li_meta (lt_indexes t') = map li_meta (lt_indexes t)"
  shows "table_unique dec t'"
  unfolding table_unique_def assms(5,6)
proof (intro ballI impI unique_ok_put)
  fix ix
  assume ix: "ix \<in> set (map li_meta (lt_indexes t))" "ix_unique ix"
  show "btree_wf (lt_rows t)" using assms(1) by (simp add: table_wf_def)
  show "unique_ok dec (lt_rows t) ix" using assms(2) ix unfolding table_unique_def by blast
  show "s = rid" if "key_complete dec ix vals" "map_of (lt_rows t) s = Some b" "row_key dec ix b = row_key dec ix vals" for s b
    using check_unique_iff [OF assms(1), of vals ex] assms(3,4) ix that by auto
qed

lemma map_li_meta_index_row [simp]: "map li_meta (map (index_row dec rid vals) lis) = map li_meta lis"
  by simp

lemma table_unique_insert:
  "table_wf dec t \<Longrightarrow> table_unique dec t \<Longrightarrow> check_unique dec t vals None = Inr () \<Longrightarrow> table_unique dec (apply_insert dec rid vals t)"
  by (rule table_unique_put [where rid = rid and t = t and ex = None]) (simp_all add: o_def)

lemma table_unique_update:
  "table_wf dec t \<Longrightarrow> table_unique dec t \<Longrightarrow> check_unique dec t vals (Some rid) = Inr () \<Longrightarrow> table_unique dec (apply_update dec rid vals t)"
  by (rule table_unique_put [where rid = rid and t = t and ex = "Some rid"]) simp_all

lemma table_unique_delete: "table_unique dec t \<Longrightarrow> table_unique dec (apply_delete dec rid t)"
  unfolding table_unique_def apply_delete_simps by (simp add: unique_ok_delete)

text \<open>A row that moves to another id is checked against the table that still holds it.\<close>

lemma check_unique_moved:
  assumes "table_wf dec t" "check_unique dec t vals (Some rid) = Inr ()"
  shows "check_unique dec (apply_delete dec rid t) vals None = Inr ()"
  using assms(2) unfolding check_unique_iff [OF assms(1)] check_unique_iff [OF table_wf_delete [OF assms(1)]] apply_delete_simps
  by (auto simp: map_of_delete split: if_splits)

subsection \<open>Lookups\<close>

lemma index_key_not_null_key: "index_key dec v \<noteq> null_key"
  by (cases v) (auto simp: null_key_def)

lemma component_key_eq:
  assumes "v \<noteq> Null" "w = Null \<or> key_kind w = key_kind v" "key_kind v \<noteq> None"
  shows "component_key dec w = component_key dec v \<longleftrightarrow> sql_eq oc w v = Some True"
proof (cases "w = Null")
  case True
  with assms(1) index_key_not_null_key [of dec v] show ?thesis
    by (auto simp: component_key_def is_null_def sql_eq_def compare.simps)
next
  case False
  with assms have "sql_eq oc w v = Some (index_key dec w = index_key dec v)" by (intro index_key_sql_eq) auto
  with assms(1) False show ?thesis by (simp add: component_key_def is_null_def)
qed

abbreviation "cell vals c \<equiv> (case map_of vals c of Some v \<Rightarrow> v | None \<Rightarrow> Null)"

lemma index_lookup_rows:
  assumes "table_wf dec t" "index_lookup_eq dec t c v = Some rids" "v = Null \<or> key_kind v \<noteq> None"
    "\<And>rid vals. map_of (lt_rows t) rid = Some vals \<Longrightarrow> cell vals c = Null \<or> key_kind (cell vals c) = key_kind v"
  shows "distinct rids" "set rids = {rid. \<exists>vals. map_of (lt_rows t) rid = Some vals \<and> sql_eq oc (cell vals c) v = Some True}"
proof -
  obtain li where f: "find (\<lambda>li. ix_columns (li_meta li) = [c]) (lt_indexes t) = Some li"
    and rids: "rids = (if is_null v then [] else si_get (li_data li) (component_key dec v))"
    using assms(2) unfolding index_lookup_eq_def ordered_key_single by blast
  have li: "li \<in> set (lt_indexes t)" "ix_columns (li_meta li) = [c]"
    using f by (auto simp: find_Some_iff)
  have ok: "index_ok dec (lt_rows t) li" using assms(1) li(1) by (simp add: table_wf_def list_all_iff)
  have key: "row_key dec (li_meta li) vals = component_key dec (cell vals c)" for vals
    by (simp add: row_key_def index_values_def li(2))
  show "distinct rids" using si_get_sorted [OF index_ok_wf [OF ok]] by (simp add: rids)
  show "set rids = {rid. \<exists>vals. map_of (lt_rows t) rid = Some vals \<and> sql_eq oc (cell vals c) v = Some True}"
  proof (cases "v = Null")
    case True
    then show ?thesis by (simp add: rids is_null_def sql_eq_def compare.simps)
  next
    case False
    then have "set rids = {rid. \<exists>vals. map_of (lt_rows t) rid = Some vals \<and> component_key dec (cell vals c) = component_key dec v}"
      using index_ok_rows [OF ok, of "component_key dec v"] by (simp add: rids is_null_def si_rows_def key)
    moreover have "component_key dec (cell vals c) = component_key dec v \<longleftrightarrow> sql_eq oc (cell vals c) v = Some True"
      if "map_of (lt_rows t) rid = Some vals" for rid vals
      using assms(3) assms(4) [OF that] False by (intro component_key_eq) simp_all
    ultimately show ?thesis by (simp cong: conj_cong)
  qed
qed

subsection \<open>Documents\<close>

definition columns_ok :: "sql_table \<Rightarrow> bool" where
  "columns_ok table \<longleftrightarrow> distinct (map col_name (tbl_columns table)) \<and>
     set (map col_name (tbl_columns table)) \<inter> {f_id, f_schema, f_table, f_version, f_deleted} = {}"

definition row_ok :: "json_env \<Rightarrow> sql_table \<Rightarrow> row_values \<Rightarrow> bool" where
  "row_ok env table vals \<longleftrightarrow> btree_wf vals \<and> set (map fst vals) = set (map col_name (tbl_columns table)) \<and>
     list_all (\<lambda>col. storable env (col_ty col) (cell vals (col_name col))) (tbl_columns table)"

lemma decode_columns_all:
  assumes "distinct (map col_name cols)"
    "\<And>col. col \<in> set cols \<Longrightarrow>
       decode_json env (col_ty col) (case map_of obj (col_name col) of Some raw \<Rightarrow> raw | None \<Rightarrow> JNull) = Inr (val (col_name col))"
  shows "decode_columns env cols obj acc = Inr (btree_extend (map (\<lambda>col. (col_name col, val (col_name col))) cols) acc)"
  using assms
proof (induction cols arbitrary: obj acc)
  case (Cons col cols)
  have "decode_columns env cols (AList.delete (col_name col) obj) (btree_insert (col_name col) (val (col_name col)) acc) =
      Inr (btree_extend (map (\<lambda>col. (col_name col, val (col_name col))) cols) (btree_insert (col_name col) (val (col_name col)) acc))"
  proof (rule Cons.IH)
    fix c
    assume "c \<in> set cols"
    moreover from this have "col_name c \<noteq> col_name col" using Cons.prems(1) by simp (metis image_eqI)
    ultimately show "decode_json env (col_ty c)
        (case map_of (AList.delete (col_name col) obj) (col_name c) of Some raw \<Rightarrow> raw | None \<Rightarrow> JNull) = Inr (val (col_name c))"
      using Cons.prems(2) [of c] by (simp add: map_of_delete)
  qed (use Cons.prems(1) in simp)
  with Cons.prems(2) [of col] show ?case by (simp add: btree_extend_def)
qed (simp add: btree_extend_def)

lemma map_of_map_names:
  "map_of (map (\<lambda>x. (f x, g (f x))) xs) k = (if k \<in> set (map f xs) then Some (g k) else None)"
  by (induction xs) auto

lemma map_of_encode_row:
  assumes "columns_ok table" "encode_row env table rid vals version = JObject obj"
  shows "map_of obj k = (if k \<in> set (map col_name (tbl_columns table)) then Some (encode_json env (cell vals k))
    else map_of (system_fields table rid version) k)"
proof -
  let ?f = "\<lambda>c. case map_of vals c of Some v \<Rightarrow> encode_json env v | None \<Rightarrow> JNull"
  have wf: "btree_wf (system_fields table rid version)" by (simp add: system_fields_def btree_wf_extend)
  have "obj = btree_extend (map (\<lambda>col. (col_name col, ?f (col_name col))) (tbl_columns table)) (system_fields table rid version)"
    using assms(2) by (simp add: encode_row_def)
  moreover have "?f k = encode_json env (cell vals k)" by (simp split: option.split)
  ultimately show ?thesis
    using assms(1) map_of_map_names [of col_name ?f "tbl_columns table" k]
    by (simp add: btree_extend_distinct [OF wf] columns_ok_def o_def)
qed

lemma system_field_values:
  "map_of (system_fields table rid version) f_id = Some (JString rid)"
  "map_of (system_fields table rid version) f_deleted = Some (JBool False)"
  "map_of (system_fields table rid version) f_version = Some (JInt version)"
  "map_of (system_fields table rid version) f_schema = Some (JString (tbl_schema table))"
  "map_of (system_fields table rid version) f_table = Some (JString (tbl_name table))"
  by (simp_all add: system_fields_def map_of_btree_extend)

lemma decode_encode_row:
  assumes "columns_ok table" "row_ok env table vals" "in_i64 version"
  shows "decode_row_owned env table (encode_row env table rid vals version) = Inr (Some (rid, vals, version))"
proof -
  obtain obj where obj: "encode_row env table rid vals version = JObject obj" by (simp add: encode_row_def)
  note get = map_of_encode_row [OF assms(1) obj]
  have reserved: "k \<notin> set (map col_name (tbl_columns table))" if "k \<in> {f_id, f_version, f_deleted}" for k
    using assms(1) that unfolding columns_ok_def by blast
  have sys: "map_of obj f_id = Some (JString rid)" "map_of obj f_version = Some (JInt version)" "map_of obj f_deleted = Some (JBool False)"
    using reserved by (simp_all only: get system_field_values) simp_all
  have "decode_columns env (tbl_columns table) obj [] =
      Inr (btree_extend (map (\<lambda>col. (col_name col, cell vals (col_name col))) (tbl_columns table)) [])"
  proof (rule decode_columns_all [where val = "cell vals"])
    show "distinct (map col_name (tbl_columns table))" using assms(1) by (simp add: columns_ok_def)
    fix col
    assume "col \<in> set (tbl_columns table)"
    then show "decode_json env (col_ty col) (case map_of obj (col_name col) of Some raw \<Rightarrow> raw | None \<Rightarrow> JNull) =
        Inr (cell vals (col_name col))"
      using assms(2) by (simp add: get row_ok_def list_all_iff json_roundtrip)
  qed
  moreover have "btree_extend (map (\<lambda>col. (col_name col, cell vals (col_name col))) (tbl_columns table)) [] = vals"
  proof (rule btree_wf_eqI)
    have dom: "k \<in> set (map col_name (tbl_columns table)) \<longleftrightarrow> map_of vals k \<noteq> None" for k
      using assms(2) unfolding row_ok_def map_of_eq_None_iff set_map by metis
    have "map_of vals k = (if k \<in> set (map col_name (tbl_columns table)) then Some (cell vals k) else None)" for k
      unfolding dom by (cases "map_of vals k") simp_all
    then have "map_of (map (\<lambda>col. (col_name col, cell vals (col_name col))) (tbl_columns table)) k = map_of vals k" for k
      unfolding map_of_map_names [of col_name "cell vals"] by simp
    moreover have "distinct (map fst (map (\<lambda>col. (col_name col, cell vals (col_name col))) (tbl_columns table)))"
      using assms(1) by (simp add: columns_ok_def o_def)
    ultimately show "map_of (btree_extend (map (\<lambda>col. (col_name col, cell vals (col_name col))) (tbl_columns table)) []) = map_of vals"
      by (intro ext) (simp add: btree_extend_distinct split: option.split)
  qed (use assms(2) in \<open>simp_all add: btree_wf_extend row_ok_def\<close>)
  ultimately show ?thesis
    using assms(3) by (simp add: decode_row_owned_def obj is_deleted_def sys)
qed

subsection \<open>Properties\<close>

text \<open>What a statement does to a table: rows are inserted under new ids, replaced and removed.\<close>

inductive row_step :: "(sql_value \<Rightarrow> string) \<Rightarrow> loaded_table \<Rightarrow> loaded_table \<Rightarrow> bool" for dec where
  "map_of (lt_rows t) rid = None \<Longrightarrow> row_step dec t (apply_insert dec rid vals t)"
| "row_step dec t (apply_update dec rid vals t)"
| "row_step dec t (apply_delete dec rid t)"

lemma row_steps_wf: "(row_step dec)\<^sup>*\<^sup>* t t' \<Longrightarrow> table_wf dec t \<Longrightarrow> table_wf dec t'"
  by (induction rule: rtranclp_induct)
    (auto elim!: row_step.cases intro: table_wf_insert table_wf_update table_wf_delete)

text \<open>
  C9: However a loaded table is changed, its incrementally maintained indexes are the ones that a
  rebuild from its rows computes, structure for structure, and each finds under a key exactly the
  rows that have the key.
\<close>

theorem indexes_incremental:
  assumes "build dec env meta docs ixs = Inr t" "(row_step dec)\<^sup>*\<^sup>* t t'"
  shows "rebuild_indexes dec t' = t' \<and>
    (\<forall>li \<in> set (lt_indexes t'). \<forall>k. set (si_get (li_data li) k) =
       {rid. \<exists>vals. map_of (lt_rows t') rid = Some vals \<and> row_key dec (li_meta li) vals = k})"
proof -
  have wf: "table_wf dec t'" by (rule row_steps_wf [OF assms(2) build_wf(1) [OF assms(1)]])
  then have "index_ok dec (lt_rows t') li" if "li \<in> set (lt_indexes t')" for li
    using that by (simp add: table_wf_def list_all_iff)
  with rebuild_current [OF wf] index_ok_rows show ?thesis by (simp add: si_rows_def)
qed

text \<open>The steps of the engine, which checks a row before it writes it; a row may move to another id.\<close>

inductive checked_step :: "(sql_value \<Rightarrow> string) \<Rightarrow> loaded_table \<Rightarrow> loaded_table \<Rightarrow> bool" for dec where
  "map_of (lt_rows t) rid = None \<Longrightarrow> check_unique dec t vals None = Inr () \<Longrightarrow>
     checked_step dec t (apply_insert dec rid vals t)"
| "check_unique dec t vals (Some rid) = Inr () \<Longrightarrow> checked_step dec t (apply_update dec rid vals t)"
| "check_unique dec t vals (Some rid) = Inr () \<Longrightarrow> map_of (lt_rows (apply_delete dec rid t)) rid' = None \<Longrightarrow>
     checked_step dec t (apply_insert dec rid' vals (apply_delete dec rid t))"
| "checked_step dec t (apply_delete dec rid t)"

lemma checked_step_keeps:
  assumes "checked_step dec t t'" "table_wf dec t" "table_unique dec t"
  shows "table_wf dec t' \<and> table_unique dec t'"
  using assms
proof (induction rule: checked_step.cases)
  case (3 t vals rid rid')
  note wf = table_wf_delete [OF 3(5), of rid]
  have "check_unique dec (apply_delete dec rid t) vals None = Inr ()" using 3 by (intro check_unique_moved) simp_all
  with table_unique_insert [OF wf] table_unique_delete [OF 3(6)] table_wf_insert [OF wf] 3 show ?case by simp
qed (simp_all add: table_wf_insert table_unique_insert table_wf_update table_unique_update table_wf_delete table_unique_delete)

text \<open>
  C10: As long as every row is checked before it is written, no two rows of a table have the same
  complete key of a unique index; and the check fails only when another row has the key.
\<close>

theorem unique_enforced:
  assumes "table_wf dec t" "table_unique dec t" "(checked_step dec)\<^sup>*\<^sup>* t t'"
  shows "table_unique dec t' \<and>
    (check_unique dec t' vals ex = Inr () \<longleftrightarrow>
       (\<forall>li \<in> set (lt_indexes t'). ix_unique (li_meta li) \<longrightarrow> composite_key dec (index_values (li_meta li) vals) \<noteq> None \<longrightarrow>
          (\<forall>s b. map_of (lt_rows t') s = Some b \<longrightarrow> row_key dec (li_meta li) b = row_key dec (li_meta li) vals \<longrightarrow> ex = Some s)))"
proof -
  have t': "table_wf dec t' \<and> table_unique dec t'"
    using assms(3) by (induction rule: rtranclp_induct) (use assms(1,2) checked_step_keeps in blast)+
  then show ?thesis by (auto simp: check_unique_iff key_complete_def)
qed




text \<open>A column with the name of the tombstone field hides the rows in which it is true.\<close>

lemma system_column_hides_row:
  assumes "distinct (map col_name (tbl_columns table))" "f_deleted \<in> set (map col_name (tbl_columns table))"
    "map_of vals f_deleted = Some (Bool True)"
  shows "decode_row_owned env table (encode_row env table rid vals version) = Inr None"
proof -
  let ?f = "\<lambda>c. case map_of vals c of Some v \<Rightarrow> encode_json env v | None \<Rightarrow> JNull"
  have wf: "btree_wf (system_fields table rid version)" by (simp add: system_fields_def btree_wf_extend)
  have "map_of (btree_extend (map (\<lambda>col. (col_name col, ?f (col_name col))) (tbl_columns table)) (system_fields table rid version)) f_deleted =
      Some (JBool True)"
    using assms map_of_map_names [of col_name ?f "tbl_columns table" f_deleted]
    by (simp add: btree_extend_distinct [OF wf] o_def)
  then show ?thesis by (simp add: decode_row_owned_def encode_row_def is_deleted_def)
qed

subsection \<open>An example\<close>

definition demo_json :: json_env where
  "demo_json = \<lparr> je_text = (\<lambda>_. []), je_float = (\<lambda>_. 0), je_encode = (\<lambda>_. JNull), je_decode = (\<lambda>_ _. Inr Null) \<rparr>"

definition demo_people :: sql_table where
  "demo_people =
     \<lparr> tbl_oid = 1, tbl_schema = ''public'', tbl_name = ''people'',
       tbl_columns =
         [\<lparr> col_name = ''id'', col_ty = Integer, col_nullable = False, col_default = None, col_identity_sequence = None, col_ordinal = 0 \<rparr>,
          \<lparr> col_name = ''name'', col_ty = Text_type, col_nullable = True, col_default = None, col_identity_sequence = None, col_ordinal = 1 \<rparr>],
       tbl_primary_key = Some \<lparr> key_name = ''people_pkey'', key_columns = [''id''] \<rparr>, tbl_uniques = [], tbl_foreign_keys = [],
       tbl_checks = [], tbl_storage_collection = ''rows'', tbl_rls_enabled = False, tbl_rls_forced = False, tbl_policies = [],
       tbl_triggers = [], tbl_column_map = [(''id'', 0), (''name'', 1)] \<rparr>"

definition demo_pkey :: index_def where
  "demo_pkey =
     \<lparr> ix_oid = 2, ix_name = ''people_pkey'', ix_schema = ''public'', ix_table = ''people'', ix_columns = [''id''],
       ix_unique = True, ix_primary = True, ix_method = ''btree'', ix_opclasses = [], ix_with_options = [] \<rparr>"

definition demo_row :: "int \<Rightarrow> string \<Rightarrow> row_values" where
  "demo_row i n = [(''id'', Int4 i), (''name'', Text n)]"

definition demo_loaded :: loaded_table where
  "demo_loaded = (case build (\<lambda>_. []) demo_json demo_people [] [demo_pkey] of Inr t \<Rightarrow> t | Inl _ \<Rightarrow> undefined)"

lemma demo_build: "build (\<lambda>_. []) demo_json demo_people [] [demo_pkey] = Inr demo_loaded"
  by (simp add: demo_loaded_def build_def)

definition demo_changed :: loaded_table where
  "demo_changed = apply_insert (\<lambda>_. []) ''n:1'' (demo_row 1 ''Ada'') demo_loaded"

lemma demo_loaded_rows: "lt_rows demo_loaded = []" "map li_meta (lt_indexes demo_loaded) = [demo_pkey]"
proof -
  show "lt_rows demo_loaded = []" by (simp add: demo_loaded_def build_def)
  show "map li_meta (lt_indexes demo_loaded) = [demo_pkey]"
    using build_wf(3) [OF demo_build] by (simp add: demo_pkey_def)
qed

lemma demo_rows: "lt_rows demo_changed = [(''n:1'', demo_row 1 ''Ada'')]"
  by (simp add: demo_changed_def demo_loaded_rows)

lemma demo_steps: "(row_step (\<lambda>_. []))\<^sup>*\<^sup>* demo_loaded demo_changed"
  unfolding demo_changed_def by (intro r_into_rtranclp row_step.intros) (simp add: demo_loaded_rows)

theorem indexes_incremental_witness:
  "rebuild_indexes (\<lambda>_. []) demo_changed = demo_changed \<and> lt_rows demo_changed = [(''n:1'', demo_row 1 ''Ada'')]"
  using indexes_incremental [OF demo_build demo_steps] by (simp add: demo_rows)

theorem unique_enforced_witness:
  "table_unique (\<lambda>_. []) demo_changed \<and> check_unique (\<lambda>_. []) demo_changed (demo_row 1 ''Bob'') None \<noteq> Inr ()"
proof -
  have "(checked_step (\<lambda>_. []))\<^sup>*\<^sup>* demo_loaded demo_changed"
    using checked_step.intros(1) [of demo_loaded "''n:1''" "\<lambda>_. []" "demo_row 1 ''Ada''"]
      check_unique_iff [OF build_wf(1) [OF demo_build], of "demo_row 1 ''Ada''" None]
    by (simp add: demo_changed_def demo_loaded_rows)
  from unique_enforced [OF build_wf(1) [OF demo_build] _ this, of "demo_row 1 ''Bob''" None]
  have "table_unique (\<lambda>_. []) demo_changed" by (simp add: table_unique_def unique_ok_def demo_loaded_rows)
  moreover have "check_unique (\<lambda>_. []) demo_changed (demo_row 1 ''Bob'') None \<noteq> Inr ()" by code_simp
  ultimately show ?thesis by simp
qed



end
