(* ===== verification/Row_Security.thy ===== *)
theory Row_Security
  imports Exec_State Table_Correct
begin

text \<open>
  Row-level security (\<^verbatim>\<open>src/sql/rls.rs\<close>).  Before a statement runs, \<open>init_rls\<close> compiles the policies
  that apply to its role and computes the rows they hide; a new row is checked when it is written.
\<close>

abbreviation "bypass_roles \<equiv> [''service_role'']"
abbreviation "owner_roles \<equiv> [''postgres'', ''guardian'']"

definition role_bypasses_rls :: "string \<Rightarrow> bool" where
  "role_bypasses_rls role \<longleftrightarrow> role \<in> set bypass_roles \<or> role \<in> set owner_roles"

definition role_bypasses_rls_on :: "string \<Rightarrow> sql_table \<Rightarrow> bool" where
  "role_bypasses_rls_on role table \<longleftrightarrow> role \<in> set bypass_roles \<or> (role \<in> set owner_roles \<and> \<not> tbl_rls_forced table)"

datatype phase = UsingPhase | CheckPhase

definition expr_for :: "phase \<Rightarrow> compiled_policy \<Rightarrow> string option" where
  "expr_for ph p =
     (case ph of
        UsingPhase \<Rightarrow> cp_using p
      | CheckPhase \<Rightarrow> (case cp_check p of Some e \<Rightarrow> Some e | None \<Rightarrow> cp_using p))"

definition parse_stored :: "exec_env \<Rightarrow> string option \<Rightarrow> string \<Rightarrow> rel_error + string option" where
  "parse_stored env t pol =
     (case t of
        None \<Rightarrow> Inr None
      | Some e \<Rightarrow>
          map_err (\<lambda>err. Internal (''stored expression of policy '' @ [dquote] @ pol @ [dquote] @ '' failed to parse: '' @ xe_display env err))
            (map_sum id Some (xe_parse_expr env e)))"

definition applies_to_role :: "string \<Rightarrow> policy \<Rightarrow> bool" where
  "applies_to_role role p \<longleftrightarrow> pol_roles p = [] \<or> role \<in> set (pol_roles p)"

fun compile_all :: "exec_env \<Rightarrow> policy list \<Rightarrow> rel_error + compiled_policy list" where
  "compile_all env [] = Inr []"
| "compile_all env (p # ps) =
     and_then (parse_stored env (pol_using_expr p) (pol_name p)) (\<lambda>u.
     and_then (parse_stored env (pol_check_expr p) (pol_name p)) (\<lambda>c.
       map_sum id ((#) \<lparr> cp_cmd = pol_cmd p, cp_permissive = pol_permissive p, cp_using = u, cp_check = c \<rparr>) (compile_all env ps)))"

definition compile_policies :: "exec_env \<Rightarrow> sql_table \<Rightarrow> string \<Rightarrow> rel_error + compiled_policy list" where
  "compile_policies env table role = compile_all env (filter (applies_to_role role) (tbl_policies table))"

fun policies_pass ::
  "exec_env \<Rightarrow> exec_state \<Rightarrow> policy_cmd \<Rightarrow> phase \<Rightarrow> frame \<Rightarrow> compiled_policy list \<Rightarrow> bool \<Rightarrow> rel_error + bool" where
  "policies_pass env st cmd ph fr [] permissive_ok = Inr permissive_ok"
| "policies_pass env st cmd ph fr (p # ps) permissive_ok =
     (if cp_cmd p \<noteq> PolicyAll \<and> cp_cmd p \<noteq> cmd then policies_pass env st cmd ph fr ps permissive_ok
      else case expr_for ph p of
        None \<Rightarrow> policies_pass env st cmd ph fr ps permissive_ok
      | Some e \<Rightarrow>
          and_then (if cp_permissive p \<and> permissive_ok then Inr True else eval_true env st e [fr]) (\<lambda>pass.
            if cp_permissive p then policies_pass env st cmd ph fr ps (permissive_ok \<or> pass)
            else if \<not> pass then Inr False
            else policies_pass env st cmd ph fr ps permissive_ok))"

definition rls_row_passes :: "exec_env \<Rightarrow> exec_state \<Rightarrow> qualified_name \<Rightarrow> policy_cmd \<Rightarrow> phase \<Rightarrow> frame \<Rightarrow> rel_error + bool" where
  "rls_row_passes env st q cmd ph fr =
     (case map_of (rls_policies (ex_rls st)) q of
        None \<Rightarrow> Inr True
      | Some ps \<Rightarrow> policies_pass env st cmd ph fr ps False)"

subsection \<open>Before the statement\<close>

text \<open>The relation an \<^verbatim>\<open>UPDATE\<close> or a \<^verbatim>\<open>DELETE\<close> names.\<close>

type_synonym relation_name = "string option \<times> string"

datatype rls_statement = UpdateOf relation_name | DeleteOf relation_name | OtherStatement

definition rls_target :: "catalog \<Rightarrow> rls_statement \<Rightarrow> (qualified_name \<times> policy_cmd) option" where
  "rls_target c s =
     (case s of
        UpdateOf (sch, n) \<Rightarrow> map_option (\<lambda>q. (q, PolicyUpdate)) (resolve_table_name c sch n)
      | DeleteOf (sch, n) \<Rightarrow> map_option (\<lambda>q. (q, PolicyDelete)) (resolve_table_name c sch n)
      | OtherStatement \<Rightarrow> None)"

fun hidden_rows ::
  "exec_env \<Rightarrow> exec_state \<Rightarrow> qualified_name \<Rightarrow> sql_table \<Rightarrow> policy_cmd option \<Rightarrow> (string, row_values) btree_map \<Rightarrow>
     string btree_set \<times> string btree_set \<Rightarrow> rel_error + string btree_set \<times> string btree_set" where
  "hidden_rows env st q meta dml [] hidden = Inr hidden"
| "hidden_rows env st q meta dml ((rid, vals) # rows) hidden =
     (let fr = row_frame meta (tbl_name meta) vals
      in and_then (rls_row_passes env st q PolicySelect UsingPhase fr) (\<lambda>s.
         and_then (case dml of Some cmd \<Rightarrow> rls_row_passes env st q cmd UsingPhase fr | None \<Rightarrow> Inr True) (\<lambda>d.
           hidden_rows env st q meta dml rows
             (if s then fst hidden else insort_insert rid (fst hidden), if d then snd hidden else insort_insert rid (snd hidden)))))"

definition enforced :: "exec_state \<Rightarrow> qualified_name list" where
  "enforced st =
     sort (map fst (filter (\<lambda>(_, l). tbl_rls_enabled (lt_meta l) \<and> \<not> role_bypasses_rls_on (ex_username st) (lt_meta l)) (ex_tables st)))"

definition the_loaded :: "exec_state \<Rightarrow> qualified_name \<Rightarrow> loaded_table" where
  "the_loaded st q = the (map_of (ex_tables st) q)"

definition compile_table :: "exec_env \<Rightarrow> qualified_name \<Rightarrow> exec_state \<Rightarrow> rel_error + exec_state" where
  "compile_table env q st =
     map_sum id (\<lambda>ps. st\<lparr>ex_rls := (ex_rls st)\<lparr>rls_policies := AList.update q ps (rls_policies (ex_rls st))\<rparr>\<rparr>)
       (compile_policies env (lt_meta (the_loaded st q)) (ex_username st))"

definition hide_rows :: "exec_env \<Rightarrow> (qualified_name \<times> policy_cmd) option \<Rightarrow> qualified_name \<Rightarrow> exec_state \<Rightarrow> rel_error + exec_state" where
  "hide_rows env target q st =
     (let l = the_loaded st q;
          dml = (case target of Some (tq, cmd) \<Rightarrow> if tq = q then Some cmd else None | None \<Rightarrow> None)
      in map_sum id (\<lambda>(sel, upd). st\<lparr>ex_rls := (ex_rls st)
           \<lparr>rls_select_hidden := AList.update q sel (rls_select_hidden (ex_rls st)),
            rls_dml_hidden := (if dml \<noteq> None then AList.update q upd (rls_dml_hidden (ex_rls st)) else rls_dml_hidden (ex_rls st))\<rparr>\<rparr>)
         (hidden_rows env st q (lt_meta l) dml (lt_rows l) ([], [])))"

definition init_rls :: "exec_env \<Rightarrow> rls_statement \<Rightarrow> exec_state \<Rightarrow> rel_error + exec_state" where
  "init_rls env stmt st =
     (if ex_username st \<in> set bypass_roles then Inr st
      else let keys = enforced st
           in if keys = [] then Inr st
              else and_then (for_each (compile_table env) keys st)
                     (for_each (hide_rows env (rls_target (ex_catalog st) stmt)) keys))"

subsection \<open>While the statement runs\<close>

definition nonempty :: "'a list option \<Rightarrow> 'a list option" where
  "nonempty h = (case h of Some (x # xs) \<Rightarrow> Some (x # xs) | _ \<Rightarrow> None)"

definition select_hidden :: "exec_state \<Rightarrow> qualified_name \<Rightarrow> string btree_set option" where
  "select_hidden st q = nonempty (map_of (rls_select_hidden (ex_rls st)) q)"

definition dml_hidden :: "exec_state \<Rightarrow> qualified_name \<Rightarrow> string btree_set option" where
  "dml_hidden st q = nonempty (map_of (rls_dml_hidden (ex_rls st)) q)"

definition rls_check_new_row :: "exec_env \<Rightarrow> exec_state \<Rightarrow> qualified_name \<Rightarrow> sql_table \<Rightarrow> row_values \<Rightarrow> policy_cmd \<Rightarrow> rel_error + unit" where
  "rls_check_new_row env st q table vals cmd =
     (if map_of (rls_policies (ex_rls st)) q = None then Inr ()
      else and_then (rls_row_passes env st q cmd CheckPhase (row_frame table (tbl_name table) vals)) (\<lambda>ok.
        if ok then Inr ()
        else Inl (InsufficientPrivilege (''new row violates row-level security policy for table '' @ [dquote] @ tbl_name table @ [dquote]))))"

definition rls_old_row_visible :: "exec_env \<Rightarrow> exec_state \<Rightarrow> qualified_name \<Rightarrow> sql_table \<Rightarrow> row_values \<Rightarrow> policy_cmd \<Rightarrow> rel_error + bool" where
  "rls_old_row_visible env st q table vals cmd =
     (if map_of (rls_policies (ex_rls st)) q = None then Inr True
      else rls_row_passes env st q cmd UsingPhase (row_frame table (tbl_name table) vals))"

end
