(* ===== verification/Sql_Dml.thy ===== *)
theory Sql_Dml
  imports Foreign_Keys Row_Security
begin

text \<open>
  The statements INSERT, UPDATE and DELETE on tables and on views (\<^verbatim>\<open>src/sql/dml.rs\<close>).  A statement
  answers its command tag and the rows it wrote or removed, from which RETURNING projects.
\<close>

datatype assignment_target = ColumnTarget string | TupleTarget

type_synonym assignment = "assignment_target \<times> string"

fun assignment_column :: "assignment_target \<Rightarrow> rel_error + string" where
  "assignment_column (ColumnTarget c) = Inr c"
| "assignment_column TupleTarget = Inl (FeatureNotSupported ''tuple assignment not supported'')"

fun assignment_columns :: "assignment list \<Rightarrow> string btree_set \<Rightarrow> rel_error + string btree_set" where
  "assignment_columns [] cols = Inr cols"
| "assignment_columns ((t, _) # as) cols = and_then (assignment_column t) (\<lambda>c. assignment_columns as (insort_insert c cols))"

text \<open>The values of the assignments, all computed from the same frames, put into a row.\<close>

fun assign_columns :: "exec_env \<Rightarrow> exec_state \<Rightarrow> sql_table \<Rightarrow> frame list \<Rightarrow> assignment list \<Rightarrow> row_values \<Rightarrow> rel_error + row_values" where
  "assign_columns env st table frames [] row = Inr row"
| "assign_columns env st table frames ((t, e) # as) row =
     and_then (assignment_column t) (\<lambda>c.
     and_then (xe_eval env st e frames) (\<lambda>v.
     and_then (coerce_to_col env v table c) (\<lambda>w.
       assign_columns env st table frames as (btree_insert c w row))))"

definition selects :: "exec_env \<Rightarrow> exec_state \<Rightarrow> string option \<Rightarrow> frame list \<Rightarrow> rel_error + bool" where
  "selects env st sel frames = (case sel of Some e \<Rightarrow> eval_true env st e frames | None \<Rightarrow> Inr True)"

type_synonym dml_result = "string \<times> row_values list"

record target_relation =
  tr_name :: relation_name
  tr_alias :: "string option"

definition resolve_target :: "exec_state \<Rightarrow> target_relation \<Rightarrow> rel_error + string \<times> qualified_name" where
  "resolve_target st r =
     (case resolve_table_name (ex_catalog st) (fst (tr_name r)) (snd (tr_name r)) of
        None \<Rightarrow> Inl (UndefinedTable (snd (tr_name r)))
      | Some q \<Rightarrow> Inr (case tr_alias r of Some a \<Rightarrow> a | None \<Rightarrow> snd (tr_name r), q))"

subsection \<open>The source rows of an INSERT\<close>

datatype insert_cell = DefaultCell | ExprCell string
datatype insert_source = ValuesSource "insert_cell list list" | QuerySource string

definition column_count_error :: "string list \<Rightarrow> 'a list \<Rightarrow> rel_error" where
  "column_count_error cols row =
     Syntax (''INSERT has '' @ show_nat (length cols) @ '' target columns but '' @ show_nat (length row) @ '' values'')"

fun value_cells :: "exec_env \<Rightarrow> exec_state \<Rightarrow> (string \<times> insert_cell) list \<Rightarrow> row_values \<Rightarrow> rel_error + row_values" where
  "value_cells env st [] row = Inr row"
| "value_cells env st ((c, DefaultCell) # cells) row = value_cells env st cells row"
| "value_cells env st ((c, ExprCell e) # cells) row =
     and_then (xe_eval env st e []) (\<lambda>v. value_cells env st cells (btree_insert c v row))"

fun value_rows :: "exec_env \<Rightarrow> exec_state \<Rightarrow> string list \<Rightarrow> insert_cell list list \<Rightarrow> rel_error + row_values list" where
  "value_rows env st cols [] = Inr []"
| "value_rows env st cols (cells # rows) =
     (if length cells \<noteq> length cols then Inl (column_count_error cols cells)
      else and_then (value_cells env st (zip cols cells) []) (\<lambda>row. map_sum id ((#) row) (value_rows env st cols rows)))"

fun query_rows :: "string list \<Rightarrow> tuple list \<Rightarrow> rel_error + row_values list" where
  "query_rows cols [] = Inr []"
| "query_rows cols (vs # rows) =
     (if length vs \<noteq> length cols then Inl (column_count_error cols vs)
      else map_sum id ((#) (btree_extend (zip cols vs) [])) (query_rows cols rows))"

definition provided_rows :: "exec_env \<Rightarrow> exec_state \<Rightarrow> string list \<Rightarrow> insert_source option \<Rightarrow> rel_error + row_values list" where
  "provided_rows env st cols source =
     (case source of
        None \<Rightarrow> Inr [[]]
      | Some (ValuesSource rows) \<Rightarrow> value_rows env st cols rows
      | Some (QuerySource e) \<Rightarrow> and_then (xe_query env st e) (\<lambda>rs. query_rows cols (set_rows rs)))"

subsection \<open>Statements on views\<close>

record insert_stmt =
  ins_table :: relation_name
  ins_columns :: "string list"
  ins_source :: "insert_source option"

record update_stmt =
  upd_relation :: target_relation
  upd_assignments :: "assignment list"
  upd_selection :: "string option"

record delete_stmt =
  del_relation :: target_relation
  del_selection :: "string option"

definition instead_of :: "(trigger_event \<Rightarrow> bool) \<Rightarrow> view_def \<Rightarrow> bool" where
  "instead_of ev v \<longleftrightarrow>
     list_ex (\<lambda>t. trg_enabled t \<and> trg_timing t = InsteadOf \<and> trg_level t = RowLevel \<and> list_ex ev (trg_events t)) (view_triggers v)"

definition require_view :: "exec_state \<Rightarrow> qualified_name \<Rightarrow> rel_error + view_def" where
  "require_view st q = (case map_of (cat_views (ex_catalog st)) q of Some v \<Rightarrow> Inr v | None \<Rightarrow> Inl (UndefinedTable (snd q)))"

fun fire_instead_rows ::
  "exec_env \<Rightarrow> qualified_name \<Rightarrow> trigger_op \<Rightarrow> string btree_set option \<Rightarrow> (row_values option \<times> row_values option) list \<Rightarrow> nat \<Rightarrow>
     exec_state \<Rightarrow> rel_error + nat \<times> exec_state" where
  "fire_instead_rows env q op cols [] n st = Inr (n, st)"
| "fire_instead_rows env q op cols ((old, new) # rows) n st =
     and_then (fire_instead_of_row env q op old new cols st) (\<lambda>(r, st1).
       fire_instead_rows env q op cols rows (if r \<noteq> None then Suc n else n) st1)"

definition insert_on_view :: "exec_env \<Rightarrow> qualified_name \<Rightarrow> insert_stmt \<Rightarrow> exec_state \<Rightarrow> rel_error + dml_result \<times> exec_state" where
  "insert_on_view env q stmt st =
     and_then (require_view st q) (\<lambda>v.
       if \<not> instead_of (\<lambda>e. e = OnInsert) v
       then Inl (FeatureNotSupported (''cannot insert into view '' @ [dquote] @ snd q @ [dquote]))
       else and_then
         (if ins_columns stmt \<noteq> [] then Inr (ins_columns stmt)
          else if view_columns v \<noteq> [] then Inr (view_columns v)
          else map_sum id (\<lambda>rs. map fld_name (rs_fields (set_schema rs))) (xe_query env st (view_query v)))
         (\<lambda>cols. and_then (provided_rows env st cols (ins_source stmt)) (\<lambda>rows.
            map_sum id (\<lambda>(n, st1). ((''INSERT 0 '' @ show_nat n, []), st1))
              (fire_instead_rows env q TriggerInsert None (map (\<lambda>r. (None, Some r)) rows) 0 st))))"

definition view_row :: "row_schema \<Rightarrow> tuple \<Rightarrow> row_values" where
  "view_row s t = btree_extend (zip (map fld_name (rs_fields s)) t) []"

fun assign_plain :: "exec_env \<Rightarrow> exec_state \<Rightarrow> frame list \<Rightarrow> assignment list \<Rightarrow> row_values \<Rightarrow> rel_error + row_values" where
  "assign_plain env st frames [] row = Inr row"
| "assign_plain env st frames ((t, e) # as) row =
     and_then (assignment_column t) (\<lambda>c.
     and_then (xe_eval env st e frames) (\<lambda>v. assign_plain env st frames as (btree_insert c v row)))"

fun view_updates ::
  "exec_env \<Rightarrow> exec_state \<Rightarrow> row_schema \<Rightarrow> update_stmt \<Rightarrow> tuple list \<Rightarrow> rel_error + (row_values option \<times> row_values option) list" where
  "view_updates env st s stmt [] = Inr []"
| "view_updates env st s stmt (t # ts) =
     and_then (selects env st (upd_selection stmt) [(s, t)]) (\<lambda>m.
       if \<not> m then view_updates env st s stmt ts
       else and_then (assign_plain env st [(s, t)] (upd_assignments stmt) (view_row s t)) (\<lambda>new.
         map_sum id ((#) (Some (view_row s t), Some new)) (view_updates env st s stmt ts)))"

definition update_on_view :: "exec_env \<Rightarrow> qualified_name \<Rightarrow> update_stmt \<Rightarrow> exec_state \<Rightarrow> rel_error + dml_result \<times> exec_state" where
  "update_on_view env q stmt st =
     and_then (require_view st q) (\<lambda>v.
       if \<not> instead_of (\<lambda>e. case e of OnUpdate _ \<Rightarrow> True | _ \<Rightarrow> False) v
       then Inl (FeatureNotSupported (''cannot update view '' @ [dquote] @ view_name v @ [dquote]))
       else and_then (assignment_columns (upd_assignments stmt) []) (\<lambda>cols.
         and_then (xe_query env st (view_query v)) (\<lambda>rs.
         and_then (view_updates env st (set_schema rs) stmt (set_rows rs)) (\<lambda>pairs.
           map_sum id (\<lambda>(n, st1). ((''UPDATE '' @ show_nat n, []), st1))
             (fire_instead_rows env q TriggerUpdate (Some cols) pairs 0 st)))))"

fun view_deletes ::
  "exec_env \<Rightarrow> exec_state \<Rightarrow> row_schema \<Rightarrow> string option \<Rightarrow> tuple list \<Rightarrow> rel_error + (row_values option \<times> row_values option) list" where
  "view_deletes env st s sel [] = Inr []"
| "view_deletes env st s sel (t # ts) =
     and_then (selects env st sel [(s, t)]) (\<lambda>m.
       if \<not> m then view_deletes env st s sel ts
       else map_sum id ((#) (Some (view_row s t), None)) (view_deletes env st s sel ts))"

definition delete_on_view :: "exec_env \<Rightarrow> qualified_name \<Rightarrow> delete_stmt \<Rightarrow> exec_state \<Rightarrow> rel_error + dml_result \<times> exec_state" where
  "delete_on_view env q stmt st =
     and_then (require_view st q) (\<lambda>v.
       if \<not> instead_of (\<lambda>e. e = OnDelete) v
       then Inl (FeatureNotSupported (''cannot delete from view '' @ [dquote] @ view_name v @ [dquote]))
       else and_then (xe_query env st (view_query v)) (\<lambda>rs.
         and_then (view_deletes env st (set_schema rs) (del_selection stmt) (set_rows rs)) (\<lambda>pairs.
           map_sum id (\<lambda>(n, st1). ((''DELETE '' @ show_nat n, []), st1))
             (fire_instead_rows env q TriggerDelete None pairs 0 st))))"

subsection \<open>INSERT\<close>

datatype conflict_action = DoNothing | DoUpdate "assignment list" "string option"

text \<open>The columns of the conflict target, if it names columns, and the action.\<close>

type_synonym on_conflict = "(string list option \<times> conflict_action) option"

datatype after_row_event = AfterInsert row_values | AfterUpdate row_values row_values

record insert_progress =
  ip_exec :: exec_state
  ip_rows :: "row_values list"
  ip_events :: "after_row_event list"

abbreviation has_triggers :: "sql_table \<Rightarrow> bool" where
  "has_triggers table \<equiv> tbl_triggers table \<noteq> []"

text \<open>
  Each row is built, given to the BEFORE ROW triggers, checked, and gets its id; \<open>fresh n\<close> is the
  random id of the row prepared as number \<open>n\<close>.
\<close>

fun prepare_rows ::
  "exec_env \<Rightarrow> sql_table \<Rightarrow> (nat \<Rightarrow> string) \<Rightarrow> nat \<Rightarrow> row_values list \<Rightarrow> exec_state \<Rightarrow> rel_error + (string \<times> row_values) list \<times> exec_state" where
  "prepare_rows env table fresh n [] st = Inr ([], st)"
| "prepare_rows env table fresh n (provided # ps) st =
     and_then (build_row env table provided st) (\<lambda>(built, st1).
     and_then (if has_triggers table then fire_before_row env table TriggerInsert None (Some built) None st1 else Inr (Some built, st1)) (\<lambda>(r, st2).
       case r of
         None \<Rightarrow> prepare_rows env table fresh n ps st2
       | Some vals \<Rightarrow>
           and_then (check_row_constraints env st2 table vals) (\<lambda>_.
             map_sum id (\<lambda>(rs, st3). ((case derive_row_id (xe_dec env) table vals of Some i \<Rightarrow> i | None \<Rightarrow> fresh n, vals) # rs, st3))
               (prepare_rows env table fresh (Suc n) ps st2))))"

definition loaded_row :: "exec_state \<Rightarrow> qualified_name \<Rightarrow> string \<Rightarrow> row_values option" where
  "loaded_row st q rid = Option.bind (map_of (ex_tables st) q) (\<lambda>t. map_of (lt_rows t) rid)"

definition apply_conflict_update ::
  "exec_env \<Rightarrow> exec_state \<Rightarrow> sql_table \<Rightarrow> string \<Rightarrow> row_values \<Rightarrow> assignment list \<Rightarrow> string option \<Rightarrow> rel_error + row_values option" where
  "apply_conflict_update env st table existing_id excluded assigns sel =
     (case loaded_row st (table_qualified table) existing_id of
        None \<Rightarrow> Inl (Internal ''conflict row vanished'')
      | Some existing \<Rightarrow>
          (let frames = [row_frame table (tbl_name table) existing, row_frame table ''excluded'' excluded]
           in and_then (selects env st sel frames) (\<lambda>chosen.
                if \<not> chosen then Inr None
                else and_then (assign_columns env st table frames assigns existing) (\<lambda>new.
                  map_sum id (\<lambda>_. Some new) (check_constraints env st table new)))))"

definition conflict_update ::
  "exec_env \<Rightarrow> qualified_name \<Rightarrow> sql_table \<Rightarrow> string btree_set option \<Rightarrow> string \<Rightarrow> row_values \<Rightarrow> assignment list \<Rightarrow> string option \<Rightarrow>
     insert_progress \<Rightarrow> rel_error + insert_progress" where
  "conflict_update env q table set_cols existing_id vals assigns sel p =
     (let st = ip_exec p; existing = (case loaded_row st q existing_id of Some r \<Rightarrow> r | None \<Rightarrow> [])
      in and_then (rls_old_row_visible env st q table existing PolicyUpdate) (\<lambda>visible.
         if \<not> visible then
           Inl (InsufficientPrivilege (''new row violates row-level security policy (USING expression) for table '' @
             [dquote] @ tbl_name table @ [dquote]))
         else and_then (apply_conflict_update env st table existing_id vals assigns sel) (\<lambda>updated.
           case updated of
             None \<Rightarrow> Inr p
           | Some assigned \<Rightarrow>
               and_then (if has_triggers table then fire_before_row env table TriggerUpdate (Some existing) (Some assigned) set_cols st
                         else Inr (Some assigned, st)) (\<lambda>(r, st1).
               case r of
                 None \<Rightarrow> Inr (p\<lparr>ip_exec := st1\<rparr>)
               | Some new \<Rightarrow>
                   and_then (if has_triggers table then check_row_constraints env st1 table new else Inr ()) (\<lambda>_.
                   and_then (rls_check_new_row env st1 q table new PolicyUpdate) (\<lambda>_.
                   and_then (fk_check_child env table new (Some existing) st1) (\<lambda>st2.
                   and_then (write_update env q table existing_id new st2) (\<lambda>st3.
                   and_then (if referencing_foreign_keys (ex_catalog st) q \<noteq> []
                             then fk_apply_referential_actions env [Updated q existing new] st3 else Inr st3) (\<lambda>st4.
                     Inr (p\<lparr>ip_exec := st4, ip_rows := ip_rows p @ [new],
                       ip_events := (if has_triggers table then ip_events p @ [AfterUpdate existing new] else ip_events p)\<rparr>))))))))))"

definition fresh_insert :: "exec_env \<Rightarrow> qualified_name \<Rightarrow> sql_table \<Rightarrow> string \<Rightarrow> row_values \<Rightarrow> insert_progress \<Rightarrow> rel_error + insert_progress" where
  "fresh_insert env q table rid vals p =
     and_then (check_unique_for env (ip_exec p) q vals None) (\<lambda>_.
     and_then (fk_check_child env table vals None (ip_exec p)) (\<lambda>st1.
     and_then (insert_row env q table rid vals (observe_serials table vals st1)) (\<lambda>st2.
       Inr (p\<lparr>ip_exec := st2, ip_rows := ip_rows p @ [vals],
         ip_events := (if has_triggers table then ip_events p @ [AfterInsert vals] else ip_events p)\<rparr>))))"

definition insert_one ::
  "exec_env \<Rightarrow> qualified_name \<Rightarrow> sql_table \<Rightarrow> string btree_set option \<Rightarrow> on_conflict \<Rightarrow> string \<times> row_values \<Rightarrow> insert_progress \<Rightarrow>
     rel_error + insert_progress" where
  "insert_one env q table set_cols clause r p =
     (let (rid, vals) = r; st = ip_exec p
      in and_then (rls_check_new_row env st q table vals PolicyInsert) (\<lambda>_.
         case (find_conflict env st q vals (Option.bind clause fst), clause) of
           (None, _) \<Rightarrow> fresh_insert env q table rid vals p
         | (Some existing, Some (_, DoNothing)) \<Rightarrow> Inr p
         | (Some existing, Some (_, DoUpdate assigns sel)) \<Rightarrow> conflict_update env q table set_cols existing vals assigns sel p
         | (Some existing, None) \<Rightarrow>
             and_then (check_unique_for env st q vals None) (\<lambda>_. fresh_insert env q table rid vals p)))"

fun fire_after_event :: "exec_env \<Rightarrow> sql_table \<Rightarrow> string btree_set option \<Rightarrow> after_row_event \<Rightarrow> exec_state \<Rightarrow> rel_error + exec_state" where
  "fire_after_event env table cols (AfterInsert vals) st = fire_after_row env table TriggerInsert None (Some vals) None st"
| "fire_after_event env table cols (AfterUpdate old new) st = fire_after_row env table TriggerUpdate (Some old) (Some new) cols st"

definition insert_into_table ::
  "exec_env \<Rightarrow> (nat \<Rightarrow> string) \<Rightarrow> qualified_name \<Rightarrow> sql_table \<Rightarrow> insert_stmt \<Rightarrow> on_conflict \<Rightarrow> exec_state \<Rightarrow> rel_error + dml_result \<times> exec_state" where
  "insert_into_table env fresh q table stmt clause st =
     (let trg = has_triggers table;
          upd = (case clause of Some (_, DoUpdate as _) \<Rightarrow> Some as | _ \<Rightarrow> None);
          cols = (if ins_columns stmt = [] then map col_name (tbl_columns table) else ins_columns stmt)
      in and_then (case upd of Some as \<Rightarrow> if trg then map_sum id Some (assignment_columns as []) else Inr None | None \<Rightarrow> Inr None) (\<lambda>set_cols.
         and_then (if trg then
             and_then (fire_statement_triggers env table Before TriggerInsert None st)
               (\<lambda>st0. if upd \<noteq> None then fire_statement_triggers env table Before TriggerUpdate set_cols st0 else Inr st0)
           else Inr st) (\<lambda>st1.
         and_then (provided_rows env st1 cols (ins_source stmt)) (\<lambda>rows.
         and_then (prepare_rows env table fresh 0 rows st1) (\<lambda>(prepared, st2).
         and_then (for_each (insert_one env q table set_cols clause) prepared \<lparr> ip_exec = st2, ip_rows = [], ip_events = [] \<rparr>) (\<lambda>p.
         and_then (if trg then
             and_then (for_each (fire_after_event env table set_cols) (ip_events p) (ip_exec p)) (\<lambda>st4.
             and_then (if upd \<noteq> None then fire_statement_triggers env table After TriggerUpdate set_cols st4 else Inr st4) (\<lambda>st5.
               fire_statement_triggers_ex env table After TriggerInsert None (ip_rows p) [] st5))
           else Inr (ip_exec p)) (\<lambda>st6.
           Inr ((''INSERT 0 '' @ show_nat (length (ip_rows p)), ip_rows p), st6))))))))"

definition exec_insert ::
  "exec_env \<Rightarrow> (nat \<Rightarrow> string) \<Rightarrow> insert_stmt \<Rightarrow> on_conflict \<Rightarrow> exec_state \<Rightarrow> rel_error + dml_result \<times> exec_state" where
  "exec_insert env fresh stmt clause st =
     (case resolve_table_name (ex_catalog st) (fst (ins_table stmt)) (snd (ins_table stmt)) of
        None \<Rightarrow> Inl (UndefinedTable (snd (ins_table stmt)))
      | Some q \<Rightarrow>
          if map_of (cat_views (ex_catalog st)) q \<noteq> None then insert_on_view env q stmt st
          else and_then (require_table (ex_catalog st) q) (\<lambda>table. insert_into_table env fresh q table stmt clause st))"

subsection \<open>UPDATE\<close>

text \<open>The rows that row security does not hide from the statement.\<close>

definition dml_snapshot :: "exec_state \<Rightarrow> qualified_name \<Rightarrow> (string \<times> row_values) list" where
  "dml_snapshot st q =
     (case map_of (ex_tables st) q of
        None \<Rightarrow> []
      | Some l \<Rightarrow> filter (\<lambda>(rid, _). case dml_hidden st q of Some h \<Rightarrow> rid \<notin> set h | None \<Rightarrow> True) (lt_rows l))"

fun update_targets ::
  "exec_env \<Rightarrow> qualified_name \<Rightarrow> sql_table \<Rightarrow> string \<Rightarrow> update_stmt \<Rightarrow> string btree_set option \<Rightarrow> (string \<times> row_values) list \<Rightarrow> exec_state \<Rightarrow>
     rel_error + (string \<times> row_values \<times> row_values) list \<times> exec_state" where
  "update_targets env q table alias stmt set_cols [] st = Inr ([], st)"
| "update_targets env q table alias stmt set_cols ((rid, vals) # rows) st =
     (let fr = row_frame table alias vals
      in and_then (selects env st (upd_selection stmt) [fr]) (\<lambda>matched.
         if \<not> matched then update_targets env q table alias stmt set_cols rows st
         else and_then (assign_columns env st table [fr] (upd_assignments stmt) vals) (\<lambda>assigned.
         and_then (if has_triggers table then fire_before_row env table TriggerUpdate (Some vals) (Some assigned) set_cols st
                   else Inr (Some assigned, st)) (\<lambda>(r, st1).
           case r of
             None \<Rightarrow> update_targets env q table alias stmt set_cols rows st1
           | Some new \<Rightarrow>
               and_then (check_row_constraints env st1 table new) (\<lambda>_.
               and_then (rls_check_new_row env st1 q table new PolicyUpdate) (\<lambda>_.
                 map_sum id (\<lambda>(ts, st2). ((rid, vals, new) # ts, st2)) (update_targets env q table alias stmt set_cols rows st1)))))))"

definition update_one ::
  "exec_env \<Rightarrow> qualified_name \<Rightarrow> sql_table \<Rightarrow> string \<times> row_values \<times> row_values \<Rightarrow> exec_state \<Rightarrow> rel_error + exec_state" where
  "update_one env q table r st =
     (let (rid, old, new) = r; st0 = record_pending (Row (tbl_oid table) rid) ForUpdate Transaction st
      in and_then (check_unique_for env st0 q new (Some rid)) (\<lambda>_.
         and_then (fk_check_child env table new (Some old) st0) (\<lambda>st1.
           write_update env q table rid new (observe_serials table new st1))))"

definition update_table ::
  "exec_env \<Rightarrow> qualified_name \<Rightarrow> sql_table \<Rightarrow> string \<Rightarrow> update_stmt \<Rightarrow> exec_state \<Rightarrow> rel_error + dml_result \<times> exec_state" where
  "update_table env q table alias stmt st =
     (let trg = has_triggers table
      in and_then (if trg then map_sum id Some (assignment_columns (upd_assignments stmt) []) else Inr None) (\<lambda>set_cols.
         and_then (if trg then fire_statement_triggers env table Before TriggerUpdate set_cols st else Inr st) (\<lambda>st1.
         and_then (update_targets env q table alias stmt set_cols (dml_snapshot st1 q) st1) (\<lambda>(targets, st2).
         and_then (for_each (update_one env q table) targets st2) (\<lambda>st3.
         and_then (fk_apply_referential_actions env
             (if referencing_foreign_keys (ex_catalog st2) q \<noteq> [] then map (\<lambda>(_, old, new). Updated q old new) targets else []) st3) (\<lambda>st4.
         and_then (if trg then
             and_then (for_each (\<lambda>(_, old, new). fire_after_row env table TriggerUpdate (Some old) (Some new) set_cols) targets st4)
               (fire_statement_triggers env table After TriggerUpdate set_cols)
           else Inr st4) (\<lambda>st5.
           Inr ((''UPDATE '' @ show_nat (length targets), map (\<lambda>(_, _, new). new) targets), st5))))))))"

definition exec_update :: "exec_env \<Rightarrow> update_stmt \<Rightarrow> exec_state \<Rightarrow> rel_error + dml_result \<times> exec_state" where
  "exec_update env stmt st =
     and_then (resolve_target st (upd_relation stmt)) (\<lambda>(alias, q).
       if map_of (cat_views (ex_catalog st)) q \<noteq> None then update_on_view env q stmt st
       else and_then (require_table (ex_catalog st) q) (\<lambda>table. update_table env q table alias stmt st))"

subsection \<open>DELETE\<close>

fun delete_targets ::
  "exec_env \<Rightarrow> sql_table \<Rightarrow> string \<Rightarrow> string option \<Rightarrow> (string \<times> row_values) list \<Rightarrow> exec_state \<Rightarrow>
     rel_error + (string \<times> row_values) list \<times> exec_state" where
  "delete_targets env table alias sel [] st = Inr ([], st)"
| "delete_targets env table alias sel ((rid, vals) # rows) st =
     and_then (selects env st sel [row_frame table alias vals]) (\<lambda>matched.
       if \<not> matched then delete_targets env table alias sel rows st
       else and_then (if has_triggers table then fire_before_row env table TriggerDelete (Some vals) None None st
                      else Inr (Some vals, st)) (\<lambda>(r, st1).
         if r = None then delete_targets env table alias sel rows st1
         else map_sum id (\<lambda>(ts, st2). ((rid, vals) # ts, st2)) (delete_targets env table alias sel rows st1)))"

definition delete_from_table ::
  "exec_env \<Rightarrow> qualified_name \<Rightarrow> sql_table \<Rightarrow> string \<Rightarrow> string option \<Rightarrow> exec_state \<Rightarrow> rel_error + dml_result \<times> exec_state" where
  "delete_from_table env q table alias sel st =
     (let trg = has_triggers table
      in and_then (if trg then fire_statement_triggers env table Before TriggerDelete None st else Inr st) (\<lambda>st1.
         and_then (delete_targets env table alias sel (dml_snapshot st1 q) st1) (\<lambda>(targets, st2).
         and_then (loaded_mut st2 q) (\<lambda>_.
         and_then (for_each (\<lambda>(rid, _). delete_row env q (tbl_storage_collection table) rid) targets
             (fold (\<lambda>(rid, _). record_pending (Row (tbl_oid table) rid) ForUpdate Transaction) targets st2)) (\<lambda>st3.
         and_then (if referencing_foreign_keys (ex_catalog st3) q \<noteq> []
                   then fk_apply_referential_actions env (map (\<lambda>(_, row). Deleted q row 1) targets) st3 else Inr st3) (\<lambda>st4.
         and_then (if trg then
             and_then (for_each (\<lambda>(_, row). fire_after_row env table TriggerDelete (Some row) None None) targets st4)
               (fire_statement_triggers env table After TriggerDelete None)
           else Inr st4) (\<lambda>st5.
           Inr ((''DELETE '' @ show_nat (length targets), map snd targets), st5))))))))"

definition exec_delete :: "exec_env \<Rightarrow> delete_stmt \<Rightarrow> exec_state \<Rightarrow> rel_error + dml_result \<times> exec_state" where
  "exec_delete env stmt st =
     and_then (resolve_target st (del_relation stmt)) (\<lambda>(alias, q).
       if map_of (cat_views (ex_catalog st)) q \<noteq> None then delete_on_view env q stmt st
       else and_then (require_table (ex_catalog st) q) (\<lambda>table. delete_from_table env q table alias (del_selection stmt) st))"

end
