(* ===== verification/Security_Correct.thy ===== *)
theory Security_Correct
  imports Sql_Dml
begin

text \<open>
  Correctness of row security: a row passes when a permissive policy and all restrictive policies let
  it, and an UPDATE or a DELETE considers exactly the rows that pass.
\<close>

subsection \<open>Policies\<close>

definition applicable :: "policy_cmd \<Rightarrow> phase \<Rightarrow> compiled_policy \<Rightarrow> bool" where
  "applicable cmd ph p \<longleftrightarrow> (cp_cmd p = PolicyAll \<or> cp_cmd p = cmd) \<and> expr_for ph p \<noteq> None"

definition passes :: "exec_env \<Rightarrow> exec_state \<Rightarrow> phase \<Rightarrow> frame \<Rightarrow> compiled_policy \<Rightarrow> bool" where
  "passes env st ph fr p \<longleftrightarrow> (\<exists>e. expr_for ph p = Some e \<and> eval_true env st e [fr] = Inr True)"

definition allowed :: "exec_env \<Rightarrow> exec_state \<Rightarrow> policy_cmd \<Rightarrow> phase \<Rightarrow> frame \<Rightarrow> compiled_policy list \<Rightarrow> bool" where
  "allowed env st cmd ph fr ps \<longleftrightarrow>
     (\<exists>p \<in> set ps. cp_permissive p \<and> applicable cmd ph p \<and> passes env st ph fr p) \<and>
     (\<forall>p \<in> set ps. \<not> cp_permissive p \<longrightarrow> applicable cmd ph p \<longrightarrow> passes env st ph fr p)"

lemma policies_pass_iff:
  assumes "policies_pass env st cmd ph fr ps ok = Inr b"
  shows "b \<longleftrightarrow> (ok \<or> (\<exists>p \<in> set ps. cp_permissive p \<and> applicable cmd ph p \<and> passes env st ph fr p)) \<and>
     (\<forall>p \<in> set ps. \<not> cp_permissive p \<longrightarrow> applicable cmd ph p \<longrightarrow> passes env st ph fr p)"
  using assms
proof (induction ps arbitrary: ok)
  case (Cons p ps)
  show ?case
  proof (cases "applicable cmd ph p")
    case False
    with Cons.prems have "policies_pass env st cmd ph fr ps ok = Inr b"
      by (auto simp: applicable_def split: option.splits if_splits)
    from Cons.IH [OF this] False show ?thesis by simp
  next
    case True
    then obtain e where e: "expr_for ph p = Some e" and cmd: "cp_cmd p = PolicyAll \<or> cp_cmd p = cmd"
      by (auto simp: applicable_def)
    show ?thesis
    proof (cases "cp_permissive p")
      case perm: True
      then obtain pass where pass: "pass \<longrightarrow> ok \<or> passes env st ph fr p" "ok \<or> pass \<longleftrightarrow> ok \<or> passes env st ph fr p"
        and rest: "policies_pass env st cmd ph fr ps (ok \<or> pass) = Inr b"
        using Cons.prems cmd by (auto simp: e and_then_Inr passes_def split: if_splits)
      from Cons.IH [OF rest] pass perm True show ?thesis by auto
    next
      case False
      then show ?thesis using Cons.prems Cons.IH cmd True
        by (auto simp: e and_then_Inr passes_def split: if_splits)
    qed
  qed
qed simp

lemma policies_pass_allowed: "policies_pass env st cmd ph fr ps False = Inr b \<Longrightarrow> b \<longleftrightarrow> allowed env st cmd ph fr ps"
  unfolding allowed_def by (drule policies_pass_iff) simp

text \<open>
  The value of a policy expression does not depend on what other policies hide: it has no subquery on
  a table with row security.
\<close>

definition rls_blind :: "exec_env \<Rightarrow> bool" where
  "rls_blind env \<longleftrightarrow> (\<forall>st r e frames. xe_eval env (st\<lparr>ex_rls := r\<rparr>) e frames = xe_eval env st e frames)"

lemma eval_true_blind: "rls_blind env \<Longrightarrow> eval_true env (st\<lparr>ex_rls := r\<rparr>) = eval_true env st"
  by (intro ext) (simp add: eval_true_def rls_blind_def)

lemma policies_pass_blind:
  assumes "rls_blind env"
  shows "policies_pass env (st\<lparr>ex_rls := r\<rparr>) cmd ph fr ps ok = policies_pass env st cmd ph fr ps ok"
proof (induction ps arbitrary: ok)
  case (Cons p ps)
  show ?case by (simp only: policies_pass.simps Cons.IH eval_true_blind [OF assms])
qed simp

subsection \<open>Before a statement\<close>

definition governed :: "string \<Rightarrow> sql_table \<Rightarrow> bool" where
  "governed role table \<longleftrightarrow> tbl_rls_enabled table \<and> \<not> role_bypasses_rls_on role table"

lemma set_enforced:
  "hash_wf (ex_tables st) \<Longrightarrow>
     set (enforced st) = {q. \<exists>l. map_of (ex_tables st) q = Some l \<and> governed (ex_username st) (lt_meta l)}"
  by (auto simp: enforced_def governed_def hash_wf_def image_iff map_of_eq_Some_iff)

lemma distinct_enforced: "hash_wf (ex_tables st) \<Longrightarrow> distinct (enforced st)"
  by (auto simp: enforced_def hash_wf_def intro: distinct_map_filter)

lemma compile_table_Inr:
  "compile_table env q st = Inr st' \<Longrightarrow>
     \<exists>ps. compile_policies env (lt_meta (the_loaded st q)) (ex_username st) = Inr ps \<and>
       st' = st\<lparr>ex_rls := (ex_rls st)\<lparr>rls_policies := AList.update q ps (rls_policies (ex_rls st))\<rparr>\<rparr>"
  by (simp add: compile_table_def map_sum_Inr)

lemma compile_tables:
  assumes "for_each (compile_table env) keys st = Inr st'"
  shows "st' = st\<lparr>ex_rls := (ex_rls st)\<lparr>rls_policies := rls_policies (ex_rls st')\<rparr>\<rparr> \<and>
    (\<forall>q. if q \<in> set keys
      then \<exists>ps. compile_policies env (lt_meta (the_loaded st q)) (ex_username st) = Inr ps \<and> map_of (rls_policies (ex_rls st')) q = Some ps
      else map_of (rls_policies (ex_rls st')) q = map_of (rls_policies (ex_rls st)) q)"
  using assms
proof (induction keys arbitrary: st)
  case (Cons k keys)
  obtain ps where c: "compile_policies env (lt_meta (the_loaded st k)) (ex_username st) = Inr ps"
    and rest: "for_each (compile_table env) keys (st\<lparr>ex_rls := (ex_rls st)\<lparr>rls_policies := AList.update k ps (rls_policies (ex_rls st))\<rparr>\<rparr>) = Inr st'"
    using Cons.prems by (auto simp: and_then_Inr dest!: compile_table_Inr)
  have l: "the_loaded (st\<lparr>ex_rls := r\<rparr>) q = the_loaded st q" for r q by (simp add: the_loaded_def)
  from Cons.IH [OF rest] show ?case using c by (auto simp: l update_conv split: if_splits)
qed simp

lemma hidden_rows_set:
  assumes "hidden_rows env st q meta dml rows h = Inr h'"
  defines "pass cmd vals \<equiv> rls_row_passes env st q cmd UsingPhase (row_frame meta (tbl_name meta) vals)"
  shows "set (fst h') = set (fst h) \<union> {rid. \<exists>vals. (rid, vals) \<in> set rows \<and> pass PolicySelect vals = Inr False}"
    "set (snd h') = set (snd h) \<union> {rid. \<exists>vals cmd. (rid, vals) \<in> set rows \<and> dml = Some cmd \<and> pass cmd vals = Inr False}"
    "(rid, vals) \<in> set rows \<Longrightarrow> \<exists>b. pass PolicySelect vals = Inr b"
    "(rid, vals) \<in> set rows \<Longrightarrow> dml = Some cmd \<Longrightarrow> \<exists>b. pass cmd vals = Inr b"
proof -
  have *: "set (fst h') = set (fst h) \<union> {rid. \<exists>vals. (rid, vals) \<in> set rows \<and> pass PolicySelect vals = Inr False} \<and>
    set (snd h') = set (snd h) \<union> {rid. \<exists>vals cmd. (rid, vals) \<in> set rows \<and> dml = Some cmd \<and> pass cmd vals = Inr False} \<and>
    (\<forall>(rid, vals) \<in> set rows. (\<exists>b. pass PolicySelect vals = Inr b) \<and> (\<forall>cmd. dml = Some cmd \<longrightarrow> (\<exists>b. pass cmd vals = Inr b)))"
    using assms(1)
  proof (induction rows arbitrary: h)
    case (Cons r rows)
    obtain rid vals where r: "r = (rid, vals)" by (cases r)
    obtain s d where s: "pass PolicySelect vals = Inr s"
      and d: "(case dml of Some cmd \<Rightarrow> pass cmd vals | None \<Rightarrow> Inr True) = Inr d"
      and rest: "hidden_rows env st q meta dml rows
        (if s then fst h else insort_insert rid (fst h), if d then snd h else insort_insert rid (snd h)) = Inr h'"
      using Cons.prems unfolding r pass_def by (auto simp: and_then_Inr Let_def)
    show ?case using Cons.IH [OF rest] s d unfolding r
      by (cases dml; cases s; cases d) (auto simp: set_insort_insert)
  qed simp
  show "set (fst h') = set (fst h) \<union> {rid. \<exists>vals. (rid, vals) \<in> set rows \<and> pass PolicySelect vals = Inr False}"
    by (rule conjunct1 [OF *])
  show "set (snd h') = set (snd h) \<union> {rid. \<exists>vals cmd. (rid, vals) \<in> set rows \<and> dml = Some cmd \<and> pass cmd vals = Inr False}"
    by (rule conjunct1 [OF conjunct2 [OF *]])
  note ev = conjunct2 [OF conjunct2 [OF *]]
  show "\<exists>b. pass PolicySelect vals = Inr b" if "(rid, vals) \<in> set rows" using ev that by blast
  show "\<exists>b. pass cmd vals = Inr b" if "(rid, vals) \<in> set rows" "dml = Some cmd" using ev that by blast
qed

lemma hide_rows_Inr:
  assumes "hide_rows env target q st = Inr st'"
  defines "dml \<equiv> case target of Some (tq, cmd) \<Rightarrow> if tq = q then Some cmd else None | None \<Rightarrow> None"
  shows "\<exists>sel upd. hidden_rows env st q (lt_meta (the_loaded st q)) dml (lt_rows (the_loaded st q)) ([], []) = Inr (sel, upd) \<and>
    st' = st\<lparr>ex_rls := (ex_rls st)
        \<lparr>rls_select_hidden := AList.update q sel (rls_select_hidden (ex_rls st)),
         rls_dml_hidden := (if dml \<noteq> None then AList.update q upd (rls_dml_hidden (ex_rls st)) else rls_dml_hidden (ex_rls st))\<rparr>\<rparr>"
  using assms(1) [unfolded hide_rows_def Let_def, folded dml_def] by (auto simp: map_sum_Inr)

text \<open>
  After \<open>hide_rows\<close>, the hidden rows of the target are the ones its policies do not let pass, in any
  state that differs in what is hidden only.
\<close>

lemma hide_tables:
  assumes "for_each (hide_rows env target) keys st = Inr st'" "distinct keys" "rls_blind env"
  shows "st' = st\<lparr>ex_rls := ex_rls st'\<rparr> \<and> rls_policies (ex_rls st') = rls_policies (ex_rls st) \<and>
    (\<forall>q. q \<notin> set keys \<longrightarrow> map_of (rls_dml_hidden (ex_rls st')) q = map_of (rls_dml_hidden (ex_rls st)) q) \<and>
    (\<forall>q cmd. q \<in> set keys \<longrightarrow> target = Some (q, cmd) \<longrightarrow>
      (let l = the_loaded st q;
           pass = (\<lambda>vals. rls_row_passes env st q cmd UsingPhase (row_frame (lt_meta l) (tbl_name (lt_meta l)) vals))
       in (\<exists>h. map_of (rls_dml_hidden (ex_rls st')) q = Some h \<and>
              set h = {rid. \<exists>vals. (rid, vals) \<in> set (lt_rows l) \<and> pass vals = Inr False}) \<and>
          (\<forall>(rid, vals) \<in> set (lt_rows l). \<exists>b. pass vals = Inr b)))"
  using assms(1,2)
proof (induction keys arbitrary: st)
  case (Cons k keys)
  let ?l = "the_loaded st k"
  let ?dml = "case target of Some (tq, cmd) \<Rightarrow> if tq = k then Some cmd else None | None \<Rightarrow> None"
  obtain sel upd where h: "hidden_rows env st k (lt_meta ?l) ?dml (lt_rows ?l) ([], []) = Inr (sel, upd)"
    and rest: "for_each (hide_rows env target) keys (st\<lparr>ex_rls := (ex_rls st)
        \<lparr>rls_select_hidden := AList.update k sel (rls_select_hidden (ex_rls st)),
         rls_dml_hidden := (if ?dml \<noteq> None then AList.update k upd (rls_dml_hidden (ex_rls st)) else rls_dml_hidden (ex_rls st))\<rparr>\<rparr>) = Inr st'"
    (is "for_each _ _ ?st1 = _")
    using Cons.prems(1) by (auto simp only: for_each.simps and_then_Inr dest!: hide_rows_Inr)
  have l: "the_loaded ?st1 q = the_loaded st q" for q by (simp add: the_loaded_def)
  have pass: "rls_row_passes env ?st1 q cmd ph fr = rls_row_passes env st q cmd ph fr" for q cmd ph fr
    by (simp add: rls_row_passes_def policies_pass_blind [OF assms(3)] split: option.split)
  have pols: "rls_policies (ex_rls ?st1) = rls_policies (ex_rls st)" by simp
  have dist: "distinct keys" "k \<notin> set keys" using Cons.prems(2) by simp_all
  note IH = Cons.IH [OF rest dist(1), unfolded l pass pols]
  note same = conjunct1 [OF IH] and keep = conjunct1 [OF conjunct2 [OF conjunct2 [OF IH]], rule_format]
    and exact = conjunct2 [OF conjunct2 [OF conjunct2 [OF IH]], rule_format]
  show ?case
  proof (intro conjI allI impI)
    show "st' = st\<lparr>ex_rls := ex_rls st'\<rparr>" by (subst same) simp
    show "rls_policies (ex_rls st') = rls_policies (ex_rls st)" using IH by blast
  next
    fix q assume "q \<notin> set (k # keys)"
    then have q: "q \<notin> set keys" "q \<noteq> k" by simp_all
    have "map_of (rls_dml_hidden (ex_rls st')) q = map_of (rls_dml_hidden (ex_rls ?st1)) q" by (rule keep [OF q(1)])
    also have "\<dots> = map_of (rls_dml_hidden (ex_rls st)) q" using q(2) by (simp add: update_conv)
    finally show "map_of (rls_dml_hidden (ex_rls st')) q = map_of (rls_dml_hidden (ex_rls st)) q" .
  next
    fix q cmd assume q: "q \<in> set (k # keys)" "target = Some (q, cmd)"
    show "let l = the_loaded st q;
           pass = (\<lambda>vals. rls_row_passes env st q cmd UsingPhase (row_frame (lt_meta l) (tbl_name (lt_meta l)) vals))
       in (\<exists>h. map_of (rls_dml_hidden (ex_rls st')) q = Some h \<and>
              set h = {rid. \<exists>vals. (rid, vals) \<in> set (lt_rows l) \<and> pass vals = Inr False}) \<and>
          (\<forall>(rid, vals) \<in> set (lt_rows l). \<exists>b. pass vals = Inr b)"
    proof (cases "q = k")
      case True
      have "map_of (rls_dml_hidden (ex_rls st')) q = map_of (rls_dml_hidden (ex_rls ?st1)) q" using dist(2) True by (intro keep) simp
      also have "\<dots> = Some upd" using q True by (simp add: update_conv)
      finally have "map_of (rls_dml_hidden (ex_rls st')) q = Some upd" .
      with hidden_rows_set [OF h] q True show ?thesis by (auto simp: Let_def)
    next
      case False
      with q(1) have "q \<in> set keys" by simp
      from exact [OF this q(2)] show ?thesis .
    qed
  qed
qed simp

lemma dml_hidden_eq: "dml_hidden st q = (case map_of (rls_dml_hidden (ex_rls st)) q of Some h \<Rightarrow> if h = [] then None else Some h | None \<Rightarrow> None)"
  by (auto simp: dml_hidden_def nonempty_def split: option.split list.split)

lemma init_rls_cases:
  assumes "init_rls env stmt st = Inr st'"
  obtains (skip) "ex_username st \<in> set bypass_roles \<or> enforced st = []" "st' = st"
  | (run) st1 where "for_each (compile_table env) (enforced st) st = Inr st1"
      "for_each (hide_rows env (rls_target (ex_catalog st) stmt)) (enforced st) st1 = Inr st'"
  using assms by (auto simp: init_rls_def Let_def and_then_Inr split: if_splits)

lemma init_rls_ungoverned:
  assumes "init_rls env stmt st = Inr st'" "rls_blind env"
    "ex_rls st = \<lparr> rls_policies = [], rls_select_hidden = [], rls_dml_hidden = [] \<rparr>"
    "hash_wf (ex_tables st)" "map_of (ex_tables st) q = Some l" "\<not> governed (ex_username st) (lt_meta l)"
  shows "ex_tables st' = ex_tables st \<and> map_of (rls_dml_hidden (ex_rls st')) q = None"
  using assms(1)
proof (cases rule: init_rls_cases)
  case skip
  with assms(3) show ?thesis by simp
next
  case (run st1)
  have q: "q \<notin> set (enforced st)" using assms(5,6) by (simp add: set_enforced [OF assms(4)])
  obtain P where 1: "st1 = st\<lparr>ex_rls := (ex_rls st)\<lparr>rls_policies := P\<rparr>\<rparr>" using compile_tables [OF run(1)] by blast
  obtain r where 2: "st' = st1\<lparr>ex_rls := r\<rparr>" using hide_tables [OF run(2) distinct_enforced [OF assms(4)] assms(2)] by blast
  have "map_of (rls_dml_hidden (ex_rls st')) q = map_of (rls_dml_hidden (ex_rls st1)) q"
    using hide_tables [OF run(2) distinct_enforced [OF assms(4)] assms(2)] q by blast
  with 1 2 assms(3) show ?thesis by simp
qed

lemma init_rls_governed:
  assumes "init_rls env stmt st = Inr st'" "rls_target (ex_catalog st) stmt = Some (q, cmd)" "rls_blind env"
    "ex_rls st = \<lparr> rls_policies = [], rls_select_hidden = [], rls_dml_hidden = [] \<rparr>"
    "hash_wf (ex_tables st)" "map_of (ex_tables st) q = Some l" "governed (ex_username st) (lt_meta l)"
  defines "pass ps vals \<equiv> policies_pass env st cmd UsingPhase (row_frame (lt_meta l) (tbl_name (lt_meta l)) vals) ps False"
  shows "\<exists>ps h r. compile_policies env (lt_meta l) (ex_username st) = Inr ps \<and> st' = st\<lparr>ex_rls := r\<rparr> \<and>
    map_of (rls_policies r) q = Some ps \<and> map_of (rls_dml_hidden r) q = Some h \<and>
    set h = {rid. \<exists>vals. (rid, vals) \<in> set (lt_rows l) \<and> pass ps vals = Inr False} \<and>
    (\<forall>rid vals. (rid, vals) \<in> set (lt_rows l) \<longrightarrow> (\<exists>b. pass ps vals = Inr b))"
  using assms(1)
proof (cases rule: init_rls_cases)
  case skip
  have "q \<in> set (enforced st)" using assms(6,7) by (simp add: set_enforced [OF assms(5)])
  moreover have "ex_username st \<notin> set bypass_roles" using assms(7) by (simp add: governed_def role_bypasses_rls_on_def)
  ultimately show ?thesis using skip(1) by auto
next
  case (run st1)
  have q: "q \<in> set (enforced st)" using assms(6,7) by (simp add: set_enforced [OF assms(5)])
  obtain P where 1: "st1 = st\<lparr>ex_rls := (ex_rls st)\<lparr>rls_policies := P\<rparr>\<rparr>" using compile_tables [OF run(1)] by blast
  have l: "the_loaded st q = l" "the_loaded st1 q = l" using assms(6) by (simp_all add: the_loaded_def 1)
  obtain ps where ps: "compile_policies env (lt_meta l) (ex_username st) = Inr ps" "map_of P q = Some ps"
    using spec [OF conjunct2 [OF compile_tables [OF run(1)]], of q] q by (auto simp: l(1), simp add: 1)
  note h = hide_tables [OF run(2) distinct_enforced [OF assms(5)] assms(3)]
  obtain r where r: "st' = st1\<lparr>ex_rls := r\<rparr>" using h by blast
  have "rls_policies r = P" using h by (simp add: r 1)
  moreover have pass: "rls_row_passes env st1 q cmd UsingPhase (row_frame (lt_meta l) (tbl_name (lt_meta l)) vals) = pass ps vals" for vals
    by (simp add: rls_row_passes_def 1 ps policies_pass_blind [OF assms(3)] pass_def)
  moreover obtain h where "map_of (rls_dml_hidden r) q = Some h"
      "set h = {rid. \<exists>vals. (rid, vals) \<in> set (lt_rows l) \<and> pass ps vals = Inr False}"
      "\<forall>(rid, vals) \<in> set (lt_rows l). \<exists>b. pass ps vals = Inr b"
    using conjunct2 [OF conjunct2 [OF conjunct2 [OF h]], rule_format, OF q assms(2)] by (auto simp: Let_def l pass r)
  ultimately show ?thesis using ps by (intro exI [of _ ps] exI [of _ h] exI [of _ r]) (auto simp: 1 r)
qed

subsection \<open>Properties\<close>


subsection \<open>An example\<close>

text \<open>Two rows, of which the policy shows the first; the evaluator knows the two expressions used here.\<close>

definition demo_exec_env :: exec_env where
  "demo_exec_env =
     \<lparr> xe_dec = (\<lambda>_. []), xe_json = demo_json, xe_cast = (\<lambda>v _. Inr v), xe_parse_expr = Inr, xe_select_item = (\<lambda>e. Inr (Some e)),
       xe_eval = (\<lambda>_ e frames.
         if e = ''id = 1'' then (case frames of (_, v # _) # _ \<Rightarrow> Inr (Bool (v = Int4 1)) | _ \<Rightarrow> Inr Null) else Inr Null),
       xe_query = (\<lambda>_ _. Inl (Internal [])), xe_display = (\<lambda>_. []), xe_call_trigger = (\<lambda>_ _ _. Inl (Internal [])) \<rparr>"

definition demo_policy :: policy where
  "demo_policy =
     \<lparr> pol_name = ''first'', pol_cmd = PolicyAll, pol_roles = [], pol_using_expr = Some ''id = 1'', pol_check_expr = None,
       pol_permissive = True \<rparr>"

definition demo_guarded :: loaded_table where
  "demo_guarded =
     apply_insert (\<lambda>_. []) ''n:2'' (demo_row 2 ''Bob'') demo_changed
       \<lparr>lt_meta := demo_people\<lparr>tbl_rls_enabled := True, tbl_policies := [demo_policy]\<rparr>\<rparr>"

definition demo_secured :: exec_state where
  "demo_secured =
     exec_new ((catalog_new ''db'')\<lparr>cat_tables := [((''public'', ''people''), lt_meta demo_guarded)]\<rparr>)
       [((''public'', ''people''), demo_guarded)] ''alice''"

lemma demo_guarded_rows:
  "lt_rows demo_guarded = [(''n:1'', demo_row 1 ''Ada''), (''n:2'', demo_row 2 ''Bob'')]"
  "tbl_rls_enabled (lt_meta demo_guarded)" "\<not> role_bypasses_rls_on ''alice'' (lt_meta demo_guarded)"
  by code_simp+


end
