(* ===== verification/Spec2Isabelle.thy ===== *)
theory Spec2Isabelle
  imports Guardian_Prelude Oplog_Merge Lock_Correct Ledger_Correct Ltree Replica_Network Event_Log Store_Snapshot Catalog_Correct Row_Storage Security_Correct
begin

text \<open>
  \<^bold>\<open>Guardian DB.\<close>  Guardian DB is a peer-to-peer database: each database is a log of entries that
  replicas append to and merge, with stores and indices built from the log, access control on the
  entries, a compute layer that runs tasks when entries arrive, and an SQL gateway.  This
  development models the parts below in Isabelle/HOL and proves them correct.  Paths are those under
  \<^verbatim>\<open>src/src/\<close>.

  \<^bold>\<open>How the parts interact.\<close>  A store marshals an operation, appends it as an entry to its operation
  log, brings its index up to date, and saves the log in its cache (\<open>add_operation\<close>).  Entries of
  other replicas arrive through \<open>sync\<close>, which asks the access controller about each and adds the
  accepted ones.  The event log store queries the log or its index.  Replicated entries trigger
  tasks, which are claimed in a ledger.  An SQL statement takes its locks from the lock manager, runs
  on tables loaded from the relational storage under the schema in the catalog, and leaves the
  mutations that its session writes back.

  \<^bold>\<open>Theories and sources.\<close>

  \<^item> \<open>Guardian_Prelude\<close>, \<open>Guardian_Text\<close>: machine words, \<^verbatim>\<open>Ordering\<close>, stable sorting, the maps of the
    standard library (locale \<open>kv_map\<close>, interpreted for the ordered and the hashed map), results,
    decimal numbers and text splitting with their round trips.
  \<^item> \<open>Lamport_Clock\<close>, \<open>Log_Entry\<close>, \<open>Oplog\<close>: \<^verbatim>\<open>log/lamport_clock.rs\<close>, \<^verbatim>\<open>log/entry.rs\<close>, \<^verbatim>\<open>log/identity.rs\<close>,
    \<^verbatim>\<open>log/mod.rs\<close>.  The record \<open>oplog\<close> is \<^verbatim>\<open>struct Log\<close>.  \<open>Oplog_Correct\<close> and \<open>Oplog_Merge\<close>: the fields of
    a log are functions of its entries, traversal lists each entry once and none after a
    descendant, adding entries commutes, append and join keep the invariants, and joins converge.
  \<^item> \<open>Guardian_Error\<close>: \<^verbatim>\<open>guardian/error.rs\<close>, \<^verbatim>\<open>guardian/serializer.rs\<close>.
  \<^item> \<open>Store_Index\<close>: \<^verbatim>\<open>stores/operation/mod.rs\<close> and the five implementations of \<^verbatim>\<open>StoreIndex\<close>, with the
    contract they share (locale \<open>store_index_contract\<close>) and what each computes from a log.
  \<^item> \<open>Access_Control\<close>: \<^verbatim>\<open>access_control/\<close>, with the contract of a controller (locale
    \<open>access_contract\<close>, interpreted for the simple and the Iroh controllers).
  \<^item> \<open>Base_Store\<close>: \<^verbatim>\<open>stores/base_store/mod.rs\<close>, \<^verbatim>\<open>stores/sync_observer.rs\<close>.  \<open>Store_Correct\<close>: the order of
    the log is a function of the entries stored, the index is that of the log (\<open>store_wf\<close>), a write
    is read back, a store is restored from its cache.
  \<^item> \<open>Store_Snapshot\<close>: \<^verbatim>\<open>save_snapshot\<close> (\<^verbatim>\<open>stores/base_store/utils.rs\<close>) and \<^verbatim>\<open>load_from_snapshot\<close>.
  \<^item> \<open>Event_Log\<close>: \<^verbatim>\<open>stores/event_log_store/mod.rs\<close>; the index does not change the answers of a query.
  \<^item> \<open>Replica_Network\<close>: replicas as an inductive step relation over whole stores, with the invariant
    of every reachable state; \<open>pull\<close> is what \<^verbatim>\<open>exchange_heads\<close> sends and the message listener does.
  \<^item> \<open>Task_Ledger\<close>, \<open>Ledger_Correct\<close>: \<^verbatim>\<open>compute/ledger.rs\<close>, \<^verbatim>\<open>compute/triggers.rs\<close>; a store with exact
    conditional writes (locale \<open>exact_store\<close>, interpreted for the memory ledger), exclusive
    dispatch, deduplication, and the budget of attempts.
  \<^item> \<open>Sql_Error\<close>, \<open>Lock_Manager\<close>, \<open>Lock_Correct\<close>: \<^verbatim>\<open>relational/error.rs\<close>, \<^verbatim>\<open>sql/lock.rs\<close>; exclusion, no
    deadlock in any reachable state, the deadlock search, progress and wake-ups.
  \<^item> \<open>Sql_Types\<close>, \<open>Sql_Value\<close>, \<open>Sql_Text\<close>, \<open>Ext_Args\<close>, \<open>Ltree\<close>: \<^verbatim>\<open>relational/types.rs\<close>,
    \<^verbatim>\<open>relational/value.rs\<close>, \<^verbatim>\<open>sql/ext/mod.rs\<close>, \<^verbatim>\<open>sql/ext/ltree.rs\<close>; text round trips, index keys, and the
    lquery matcher.
  \<^item> \<open>Sql_Catalog\<close>, \<open>Catalog_Correct\<close>: \<^verbatim>\<open>relational/catalog.rs\<close>; after any sequence of operations the
    derived maps answer as a search of the definitions does, and a dropped table leaves nothing.
  \<^item> \<open>Row_Index\<close>, \<open>Row_Storage\<close>: \<^verbatim>\<open>relational/index.rs\<close>, \<^verbatim>\<open>relational/storage.rs\<close>, with the contract of an
    index (locale \<open>keyed_rows\<close>) and of a storage (locales \<open>relational_storage\<close>, \<open>counting_storage\<close>, both
    interpreted for the memory storage).
  \<^item> \<open>Sql_Json\<close>, \<open>Table_Store\<close>, \<open>Table_Correct\<close>: the row documents (\<^verbatim>\<open>relational/value.rs\<close>) and the loaded
    tables (\<^verbatim>\<open>sql/store.rs\<close>); the indexes kept by the row operations are those of a rebuild, the
    uniqueness check is exact, a lookup is a scan, and a row comes back from its document.
  \<^item> \<open>Exec_State\<close>, \<open>Row_Write\<close>, \<open>Foreign_Keys\<close>, \<open>Sql_Trigger\<close>, \<open>Row_Security\<close>, \<open>Sql_Dml\<close>: \<^verbatim>\<open>sql/exec.rs\<close>,
    \<^verbatim>\<open>sql/row.rs\<close>, \<^verbatim>\<open>sql/fk.rs\<close>, \<^verbatim>\<open>sql/trigger.rs\<close>, \<^verbatim>\<open>sql/rls.rs\<close>, \<^verbatim>\<open>sql/dml.rs\<close>.  The record \<open>exec_state\<close> is
    \<^verbatim>\<open>struct Exec\<close>; the evaluator, the query executor and the bodies of trigger functions are the
    record \<open>exec_env\<close>.  \<open>Security_Correct\<close>: a statement considers exactly the rows that row security
    lets its role see.
  \<^item> This theory: convergence of replicas.

  \<^bold>\<open>Conventions.\<close>  Bytes and strings are lists of characters, hashes are words of 256 bits, clock times
  words of 64 bits that wrap; lengths, counters and the 32-bit progress numbers of load events are
  natural numbers.  A result is a sum with the error on the left; a panic is \<open>None\<close>.  Code outside the
  repository is a parameter: the blob client (\<open>client_env\<close>), postcard and base64 (\<open>op_codec\<close>,
  \<open>base_env\<close>, \<open>snapshot_env\<close>), signature verification, the cache's failures.  Theorems that need
  something of it say so: a codec reads what it wrote (\<open>codec_reads\<close>, \<open>entries_readable\<close>), a new
  entry has a new hash (\<open>fresh_hash\<close>, \<open>new_hash\<close>), and the clock is not at its last value.

  \<^bold>\<open>Recursion.\<close>  No definition has fuel.  Loops are structural, or have a termination proof by what is
  left: the entries a traversal has not visited, the sessions a deadlock search has not seen, the
  tables a foreign key search has not reached.  The loop of the referential actions ends by the
  limit on its steps in the source.  Fetching from a blob store may not end on a cyclic store; it is
  partial, and that it returns on others is proved.

  \<^bold>\<open>Not modelled.\<close>  Locks, background tasks, timers and the network transport: a handler runs alone,
  and interleaving is that of whole handlers (the ledger also has interference inside a handler).
  The peer-to-peer client, caches and key-value and document stores call iroh and redb.  SQL
  queries, data definition, expressions and sessions run the syntax trees of an external parser.
  Search, embeddings, language models and some metrics are floating point; the gateways and programs
  are input and output.  The remaining SQL extensions and the object mapper are within reach of the
  method and are not done.
\<close>

section \<open>Replication\<close>

definition reads_agree :: "base_store \<Rightarrow> base_store \<Rightarrow> bool" where
  "reads_agree a b \<longleftrightarrow>
     log_values (bs_oplog a) = log_values (bs_oplog b) \<and>
     (\<forall>i j k. bs_index a = Some i \<and> bs_index b = Some j \<and> same_log_index i j \<longrightarrow>
        wrapper_get_bytes (bs_log_and_index a) k = wrapper_get_bytes (bs_log_and_index b) k)"

lemma stores_reads_agree:
  assumes "store_wf cd a" "store_wf cd b" "stored (bs_oplog a) = stored (bs_oplog b)"
  shows "reads_agree a b"
  unfolding reads_agree_def using stores_agree [OF assms] by blast


lemma demo_net_reachable_pair:
  "net_reachable (\<lambda>_. demo_env) demo_codec (fst demo_net_written, snd demo_net_written)"
  using demo_net_reachable by simp




end
